(* ===== verification/Prelude.thy ===== *)
theory Prelude
  imports Main "HOL-Library.Word"
begin

text \<open>
  Shared vocabulary of the development: machine integers at the widths the Rust code
  uses, byte strings, the collections of simplification rules that the component
  theories extend, and generic facts about words and lists.

  A Rust \<open>String\<close> or \<open>&str\<close> is the list of its UTF-8 bytes, because every string
  operation of the program (comparison, splitting at NUL, encoding) works on bytes.
\<close>

type_synonym u8 = "8 word"
type_synonym u16 = "16 word"
type_synonym u32 = "32 word"
type_synonym u64 = "64 word"
type_synonym bytes = "u8 list"
type_synonym str = "u8 list"

text \<open>
  \<open>wire_simps\<close>: evaluation rules of the wire format; \<open>frame_simps\<close>: which fields an
  operation leaves alone; \<open>ascii_lits\<close>: the bytes of the string literals of the code.
\<close>

named_theorems wire_simps
named_theorems frame_simps
named_theorems ascii_lits

definition ascii :: "string \<Rightarrow> str" where
  "ascii s = map of_char s"

lemma ascii_Nil [simp]: "ascii [] = []"
  by (simp add: ascii_def)

lemma ascii_Cons: "ascii (c # s) = of_char c # ascii s"
  by (simp add: ascii_def)

lemma length_ascii [simp]: "length (ascii s) = length s"
  by (simp add: ascii_def)

subsection \<open>Big-endian 16-bit fields\<close>

text \<open>\<open>u16::from_be_bytes\<close> and the bytes \<open>BufMut::put_u16\<close> appends.\<close>

definition u16_from_be :: "u8 \<Rightarrow> u8 \<Rightarrow> u16" where
  "u16_from_be hi lo = of_nat (256 * unat hi + unat lo)"

definition put_u16 :: "u16 \<Rightarrow> bytes" where
  "put_u16 v = [of_nat (unat v div 256), of_nat (unat v mod 256)]"

lemma unat_u16_less: "unat (v :: u16) < 65536"
  using unsigned_less [of v, where ?'a = nat] by simp

lemma unat_u8_less: "unat (v :: u8) < 256"
  using unsigned_less [of v, where ?'a = nat] by simp

lemma length_put_u16 [simp]: "length (put_u16 v) = 2"
  by (simp add: put_u16_def)

lemma unat_of_nat_u16: "n < 65536 \<Longrightarrow> unat (of_nat n :: u16) = n"
  by (simp add: unat_of_nat take_bit_nat_eq_self)

lemma unat_of_nat_u8: "n < 256 \<Longrightarrow> unat (of_nat n :: u8) = n"
  by (simp add: unat_of_nat take_bit_nat_eq_self)

lemma u16_from_be_put [simp]:
  "u16_from_be (of_nat (unat v div 256)) (of_nat (unat v mod 256)) = v"
proof -
  have "unat v div 256 < 256" using unat_u16_less [of v] by linarith
  then have "unat (of_nat (unat v div 256) :: u8) = unat v div 256"
    by (rule unat_of_nat_u8)
  moreover have "unat (of_nat (unat v mod 256) :: u8) = unat v mod 256"
    by (rule unat_of_nat_u8) simp
  ultimately show ?thesis
    by (simp add: u16_from_be_def)
qed

lemma unat_u16_from_be: "unat (u16_from_be hi lo) = 256 * unat hi + unat lo"
proof -
  have "256 * unat hi + unat lo < 65536"
    using unat_u8_less [of hi] unat_u8_less [of lo] by linarith
  then show ?thesis
    unfolding u16_from_be_def by (rule unat_of_nat_u16)
qed

lemma put_u16_from_be: "put_u16 (u16_from_be hi lo) = [hi, lo]"
proof -
  have "(256 * unat hi + unat lo) div 256 = unat hi"
    using unat_u8_less [of lo] by simp
  moreover have "(256 * unat hi + unat lo) mod 256 = unat lo"
    using unat_u8_less [of lo] by simp
  ultimately show ?thesis
    by (simp add: put_u16_def unat_u16_from_be)
qed

subsection \<open>Counters that wrap\<close>

text \<open>
  Block numbers are the low 16 bits of a counter. Under the bound the counter is read
  back from them.
\<close>

lemma of_nat_u16_eq_iff:
  "i < 65536 \<Longrightarrow> j < 65536 \<Longrightarrow> (of_nat i :: u16) = of_nat j \<longleftrightarrow> i = j"
  by (metis unat_of_nat_u16)

lemma unat_diff_of_nat_u16:
  assumes "i \<le> j" "j - i < 65536"
  shows "unat ((of_nat j :: u16) - of_nat i) = j - i"
proof -
  have "(of_nat j :: u16) - of_nat i = of_nat (j - i)"
    using assms(1) by (simp add: of_nat_diff)
  then show ?thesis
    using assms(2) by (simp add: unat_of_nat_u16)
qed

lemma unat_inc_no_overflow:
  fixes x y :: "'a::len word"
  assumes "x < y"
  shows "unat (x + 1) = unat x + 1"
  using assms by unat_arith

subsection \<open>Lists\<close>

lemma drop_upt_map: "drop k (map f [a..<b]) = map f [a + k..<b]"
  by (simp add: drop_map)

lemma upt_append: "a \<le> b \<Longrightarrow> b \<le> c \<Longrightarrow> [a..<b] @ [b..<c] = [a..<c]"
  using upt_add_eq_append [of a b "c - b"] by simp

text \<open>\<open>Iterator::find_map\<close>: the first value the function yields.\<close>

fun find_map :: "('a \<Rightarrow> 'b option) \<Rightarrow> 'a list \<Rightarrow> 'b option" where
  "find_map f [] = None"
| "find_map f (x # xs) = (case f x of Some y \<Rightarrow> Some y | None \<Rightarrow> find_map f xs)"

lemma find_map_append:
  "find_map f (xs @ ys) = (case find_map f xs of Some y \<Rightarrow> Some y | None \<Rightarrow> find_map f ys)"
  by (induction xs) (auto split: option.splits)

lemma find_map_None_iff: "find_map f xs = None \<longleftrightarrow> (\<forall>x \<in> set xs. f x = None)"
  by (induction xs) (auto split: option.splits)

lemma find_map_Some: "find_map f xs = Some y \<Longrightarrow> \<exists>x \<in> set xs. f x = Some y"
  by (induction xs) (auto split: option.splits)

end
