(* ===== verification/Errors.thy ===== *)
theory Errors
  imports Prelude
begin

text \<open>
  The error type of the crate (\<^verbatim>\<open>error.rs\<close>) and the numeric codes of the protocol
  (\<^verbatim>\<open>proto/opcode.rs\<close>). A fallible operation returns \<open>error + 'a\<close>.

  \<open>io_error\<close> stands for \<open>std::io::Error\<close>: the kind the code inspects and the message
  it formats. The kinds the code does not name are one constructor with a number.
\<close>

datatype io_kind = KNotFound | KPermissionDenied | KAlreadyExists | KOther nat

datatype io_error = Io_Error (kind: io_kind) (io_msg: str)

datatype error_code =
    NotDefined | FileNotFound | AccessViolation | DiskFull | IllegalOperation
  | UnknownTid | FileExists | NoSuchUser | OptionNegotiation

datatype error =
    Io io_error
  | Malformed str
  | UnknownOpcode u16
  | InvalidUtf8
  | MissingNul
  | InvalidMode str
  | InvalidOption str str
  | Peer error_code str
  | TimedOut u32
  | UnexpectedPacket
  | InvalidPath str
  | FileTooLarge
  | Cancelled

subsection \<open>Opcodes\<close>

datatype opcode = OpRrq | OpWrq | OpData | OpAck | OpError | OpOack

fun opcode_u16 :: "opcode \<Rightarrow> u16" where
  "opcode_u16 OpRrq = 1"
| "opcode_u16 OpWrq = 2"
| "opcode_u16 OpData = 3"
| "opcode_u16 OpAck = 4"
| "opcode_u16 OpError = 5"
| "opcode_u16 OpOack = 6"

definition opcode_from_u16 :: "u16 \<Rightarrow> error + opcode" where
  "opcode_from_u16 v =
     (if v = 1 then Inr OpRrq
      else if v = 2 then Inr OpWrq
      else if v = 3 then Inr OpData
      else if v = 4 then Inr OpAck
      else if v = 5 then Inr OpError
      else if v = 6 then Inr OpOack
      else Inl (UnknownOpcode v))"

lemma opcode_from_to [simp]: "opcode_from_u16 (opcode_u16 c) = Inr c"
  by (cases c) (simp_all add: opcode_from_u16_def)

lemma opcode_from_u16_Inr: "opcode_from_u16 v = Inr c \<longleftrightarrow> v = opcode_u16 c"
  by (cases c) (auto simp: opcode_from_u16_def)

lemma opcode_from_u16_Inl:
  "opcode_from_u16 v = Inl e \<longleftrightarrow> e = UnknownOpcode v \<and> v \<notin> {1, 2, 3, 4, 5, 6}"
  by (auto simp: opcode_from_u16_def)

subsection \<open>Error codes\<close>

fun error_code_u16 :: "error_code \<Rightarrow> u16" where
  "error_code_u16 NotDefined = 0"
| "error_code_u16 FileNotFound = 1"
| "error_code_u16 AccessViolation = 2"
| "error_code_u16 DiskFull = 3"
| "error_code_u16 IllegalOperation = 4"
| "error_code_u16 UnknownTid = 5"
| "error_code_u16 FileExists = 6"
| "error_code_u16 NoSuchUser = 7"
| "error_code_u16 OptionNegotiation = 8"

definition error_code_from_u16 :: "u16 \<Rightarrow> error_code" where
  "error_code_from_u16 v =
     (if v = 1 then FileNotFound
      else if v = 2 then AccessViolation
      else if v = 3 then DiskFull
      else if v = 4 then IllegalOperation
      else if v = 5 then UnknownTid
      else if v = 6 then FileExists
      else if v = 7 then NoSuchUser
      else if v = 8 then OptionNegotiation
      else NotDefined)"

lemma error_code_from_to [simp]: "error_code_from_u16 (error_code_u16 c) = c"
  by (cases c) (simp_all add: error_code_from_u16_def)

end
