(* ===== verification/Rust_Str.thy ===== *)
theory Rust_Str
  imports Prelude
begin

text \<open>
  What the program uses of Rust's standard string library: UTF-8 validation
  (\<open>std::str::from_utf8\<close>), ASCII case folding (\<open>to_ascii_lowercase\<close>,
  \<open>eq_ignore_ascii_case\<close>), decimal formatting (\<open>to_string\<close> of an unsigned integer) and
  decimal parsing (\<open>str::parse\<close> to an unsigned integer, which accepts one leading
  \<open>+\<close>, rejects an empty digit string and fails on overflow).
\<close>

subsection \<open>UTF-8\<close>

definition utf8_cont :: "u8 \<Rightarrow> bool" where
  "utf8_cont b \<longleftrightarrow> 128 \<le> b \<and> b \<le> 191"

text \<open>
  Well-formed UTF-8 byte sequences: the lead byte fixes the length and narrows the second
  byte so that overlong forms, surrogates and code points above U+10FFFF are refused.
\<close>

fun utf8_valid :: "bytes \<Rightarrow> bool" where
  "utf8_valid [] \<longleftrightarrow> True"
| "utf8_valid (b # bs) \<longleftrightarrow>
     (if b < 128 then utf8_valid bs
      else if 194 \<le> b \<and> b \<le> 223 then
        (case bs of c # cs \<Rightarrow> utf8_cont c \<and> utf8_valid cs | _ \<Rightarrow> False)
      else if 224 \<le> b \<and> b \<le> 239 then
        (case bs of c # d # ds \<Rightarrow>
           utf8_cont c \<and> (b = 224 \<longrightarrow> 160 \<le> c) \<and> (b = 237 \<longrightarrow> c \<le> 159)
           \<and> utf8_cont d \<and> utf8_valid ds | _ \<Rightarrow> False)
      else if 240 \<le> b \<and> b \<le> 244 then
        (case bs of c # d # e # es \<Rightarrow>
           utf8_cont c \<and> (b = 240 \<longrightarrow> 144 \<le> c) \<and> (b = 244 \<longrightarrow> c \<le> 143)
           \<and> utf8_cont d \<and> utf8_cont e \<and> utf8_valid es | _ \<Rightarrow> False)
      else False)"

lemma utf8_valid_ascii: "(\<forall>b \<in> set s. b < 128) \<Longrightarrow> utf8_valid s"
  by (induction s) auto

subsection \<open>ASCII case\<close>

definition ascii_lower :: "u8 \<Rightarrow> u8" where
  "ascii_lower b = (if 65 \<le> b \<and> b \<le> 90 then b + 32 else b)"

definition to_ascii_lowercase :: "str \<Rightarrow> str" where
  "to_ascii_lowercase s = map ascii_lower s"

definition eq_ignore_ascii_case :: "str \<Rightarrow> str \<Rightarrow> bool" where
  "eq_ignore_ascii_case s t \<longleftrightarrow> to_ascii_lowercase s = to_ascii_lowercase t"

lemma ascii_lower_idem [simp]: "ascii_lower (ascii_lower b) = ascii_lower b"
proof (cases "65 \<le> b \<and> b \<le> 90")
  case True
  then have "\<not> (65 \<le> b + 32 \<and> b + 32 \<le> 90)"
    by unat_arith
  with True show ?thesis by (simp add: ascii_lower_def)
qed (simp add: ascii_lower_def)

lemma to_ascii_lowercase_idem [simp]:
  "to_ascii_lowercase (to_ascii_lowercase s) = to_ascii_lowercase s"
  by (simp add: to_ascii_lowercase_def)

lemma eq_ignore_lower_left [simp]:
  "eq_ignore_ascii_case (to_ascii_lowercase s) t = eq_ignore_ascii_case s t"
  by (simp add: eq_ignore_ascii_case_def)

lemma eq_ignore_refl [simp]: "eq_ignore_ascii_case s s"
  by (simp add: eq_ignore_ascii_case_def)

subsection \<open>Decimal numbers\<close>

definition digit :: "nat \<Rightarrow> u8" where
  "digit d = of_nat (48 + d)"

definition is_digit :: "u8 \<Rightarrow> bool" where
  "is_digit b \<longleftrightarrow> 48 \<le> b \<and> b \<le> 57"

definition digit_val :: "u8 \<Rightarrow> nat" where
  "digit_val b = unat b - 48"

fun to_decimal :: "nat \<Rightarrow> str" where
  "to_decimal n = (if n < 10 then [digit n] else to_decimal (n div 10) @ [digit (n mod 10)])"

declare to_decimal.simps [simp del]

text \<open>The digit loop of \<open>from_str_radix\<close>, with its checked multiplication and addition.\<close>

fun parse_digits :: "nat \<Rightarrow> nat \<Rightarrow> str \<Rightarrow> nat option" where
  "parse_digits mx acc [] = Some acc"
| "parse_digits mx acc (b # bs) =
     (if \<not> is_digit b then None
      else if mx < acc * 10 then None
      else if mx < acc * 10 + digit_val b then None
      else parse_digits mx (acc * 10 + digit_val b) bs)"

definition parse_uint :: "nat \<Rightarrow> str \<Rightarrow> nat option" where
  "parse_uint mx s =
     (let ds = (case s of [] \<Rightarrow> [] | b # bs \<Rightarrow> if b = 43 then bs else s)
      in if ds = [] then None else parse_digits mx 0 ds)"

lemma digit_props:
  assumes "d < 10"
  shows "is_digit (digit d)" "digit_val (digit d) = d" "digit d \<noteq> 43" "digit d < 128"
    "digit d \<noteq> 0"
proof -
  have u: "unat (digit d) = 48 + d"
    unfolding digit_def by (rule unat_of_nat_u8) (use assms in simp)
  show "is_digit (digit d)"
    unfolding is_digit_def word_le_nat_alt using u assms by simp
  show "digit_val (digit d) = d" by (simp add: digit_val_def u)
  show "digit d < 128" unfolding word_less_nat_alt using u assms by simp
  show "digit d \<noteq> 43" using u by auto
  show "digit d \<noteq> 0" using u by auto
qed

lemma parse_digits_append:
  "parse_digits mx acc (xs @ ys) =
     (case parse_digits mx acc xs of None \<Rightarrow> None | Some a \<Rightarrow> parse_digits mx a ys)"
  by (induction mx acc xs rule: parse_digits.induct) auto

lemma parse_digits_to_decimal:
  "parse_digits mx 0 (to_decimal n) = (if n \<le> mx then Some n else None)"
proof (induction n rule: to_decimal.induct)
  case (1 n)
  show ?case
  proof (cases "n < 10")
    case True
    then show ?thesis
      by (simp add: to_decimal.simps [of n] digit_props)
  next
    case False
    have n: "n = 10 * (n div 10) + n mod 10" by simp
    have "n mod 10 < 10" by simp
    note d = digit_props [OF this]
    show ?thesis
      using 1 [OF False] False n d
      by (auto simp: to_decimal.simps [of n] parse_digits_append)
  qed
qed

lemma to_decimal_nonempty [simp]: "to_decimal n \<noteq> []"
  by (subst to_decimal.simps) simp

lemma hd_to_decimal: "hd (to_decimal n) \<noteq> 43"
proof (induction n rule: to_decimal.induct)
  case (1 n)
  then show ?case
    by (cases "n < 10") (simp_all add: to_decimal.simps [of n] digit_props)
qed

theorem parse_uint_to_decimal:
  "parse_uint mx (to_decimal n) = (if n \<le> mx then Some n else None)"
  using hd_to_decimal [of n] parse_digits_to_decimal [of mx n]
  by (cases "to_decimal n") (simp_all add: parse_uint_def)

lemma length_to_decimal: "n < 10 ^ k \<Longrightarrow> 0 < k \<Longrightarrow> length (to_decimal n) \<le> k"
proof (induction n arbitrary: k rule: to_decimal.induct)
  case (1 n)
  show ?case
  proof (cases "n < 10")
    case True
    with 1 show ?thesis by (simp add: to_decimal.simps [of n])
  next
    case False
    with 1 obtain j where k: "k = Suc j" "0 < j" by (cases k; cases "k - 1") auto
    with 1 have "n div 10 < 10 ^ j" by (simp add: less_mult_imp_div_less mult.commute)
    with 1 False k show ?thesis by (simp add: to_decimal.simps [of n])
  qed
qed

lemma to_decimal_chars: "b \<in> set (to_decimal n) \<Longrightarrow> b < 128 \<and> b \<noteq> 0"
proof (induction n rule: to_decimal.induct)
  case (1 n)
  have "n mod 10 < 10" by simp
  with 1 show ?case
    by (cases "n < 10") (auto simp: to_decimal.simps [of n] digit_props)
qed

lemma parse_digits_bound: "parse_digits mx acc s = Some n \<Longrightarrow> acc \<le> mx \<Longrightarrow> n \<le> mx"
  by (induction mx acc s rule: parse_digits.induct) (auto split: if_splits)

lemma parse_uint_bound: "parse_uint mx s = Some n \<Longrightarrow> n \<le> mx"
  by (auto simp: parse_uint_def Let_def split: if_splits list.splits dest: parse_digits_bound)

text \<open>The three integer types the option parser asks for.\<close>

definition parse_u8 :: "str \<Rightarrow> u8 option" where
  "parse_u8 s = map_option of_nat (parse_uint 255 s)"

definition parse_u16 :: "str \<Rightarrow> u16 option" where
  "parse_u16 s = map_option of_nat (parse_uint 65535 s)"

definition parse_u64 :: "str \<Rightarrow> u64 option" where
  "parse_u64 s = map_option of_nat (parse_uint 18446744073709551615 s)"

lemma parse_u8_to_decimal [simp]: "parse_u8 (to_decimal (unat v)) = Some v"
  using unsigned_less [of v, where ?'a = nat]
  by (simp add: parse_u8_def parse_uint_to_decimal)

lemma parse_u16_to_decimal [simp]: "parse_u16 (to_decimal (unat v)) = Some v"
  using unsigned_less [of v, where ?'a = nat]
  by (simp add: parse_u16_def parse_uint_to_decimal)

lemma parse_u64_to_decimal [simp]: "parse_u64 (to_decimal (unat v)) = Some v"
  using unsigned_less [of v, where ?'a = nat]
  by (simp add: parse_u64_def parse_uint_to_decimal)

end
