(* ===== verification/Options.thy ===== *)
theory Options
  imports Errors Rust_Str
begin

text \<open>
  \<^verbatim>\<open>proto/mod.rs\<close> and \<^verbatim>\<open>proto/options.rs\<close>: the protocol constants, the transfer mode, the
  option values and the ordered option set with its parser.

  A locale states what an accessor of the set (\<open>block_size\<close>, \<open>timeout\<close>, ...) promises; it
  is interpreted on the four accessors, so that each insertion and parsing law is proved
  once.
\<close>

subsection \<open>Constants\<close>

definition DEFAULT_BLOCK_SIZE :: u16 where "DEFAULT_BLOCK_SIZE = 512"
definition MIN_BLOCK_SIZE :: u16 where "MIN_BLOCK_SIZE = 8"
definition MAX_BLOCK_SIZE :: u16 where "MAX_BLOCK_SIZE = 65464"
definition DEFAULT_TIMEOUT_SECS :: u8 where "DEFAULT_TIMEOUT_SECS = 5"
definition DEFAULT_WINDOW_SIZE :: u16 where "DEFAULT_WINDOW_SIZE = 1"
definition MAX_PACKET_SIZE :: nat where "MAX_PACKET_SIZE = unat MAX_BLOCK_SIZE + 4"

lemmas proto_consts =
  DEFAULT_BLOCK_SIZE_def MIN_BLOCK_SIZE_def MAX_BLOCK_SIZE_def DEFAULT_TIMEOUT_SECS_def
  DEFAULT_WINDOW_SIZE_def

subsection \<open>The literals of the option parser\<close>

lemma ascii_blksize [ascii_lits]: "ascii ''blksize'' = [98, 108, 107, 115, 105, 122, 101]"
  by (simp add: ascii_def)

lemma ascii_timeout [ascii_lits]: "ascii ''timeout'' = [116, 105, 109, 101, 111, 117, 116]"
  by (simp add: ascii_def)

lemma ascii_tsize [ascii_lits]: "ascii ''tsize'' = [116, 115, 105, 122, 101]"
  by (simp add: ascii_def)

lemma ascii_windowsize [ascii_lits]: "ascii ''windowsize'' = [119, 105, 110, 100, 111, 119, 115, 105, 122, 101]"
  by (simp add: ascii_def)

lemma ascii_netascii [ascii_lits]: "ascii ''netascii'' = [110, 101, 116, 97, 115, 99, 105, 105]"
  by (simp add: ascii_def)

lemma ascii_octet [ascii_lits]: "ascii ''octet'' = [111, 99, 116, 101, 116]"
  by (simp add: ascii_def)

lemma ascii_binary [ascii_lits]: "ascii ''binary'' = [98, 105, 110, 97, 114, 121]"
  by (simp add: ascii_def)

subsection \<open>Transfer mode\<close>

datatype mode = NetAscii | Octet

fun mode_as_wire :: "mode \<Rightarrow> str" where
  "mode_as_wire NetAscii = ascii ''netascii''"
| "mode_as_wire Octet = ascii ''octet''"

definition mode_from_str :: "str \<Rightarrow> error + mode" where
  "mode_from_str s =
     (if eq_ignore_ascii_case s (ascii ''netascii'') then Inr NetAscii
      else if eq_ignore_ascii_case s (ascii ''octet'') \<or> eq_ignore_ascii_case s (ascii ''binary'')
        then Inr Octet
      else Inl (InvalidMode s))"

lemma mode_roundtrip [simp]: "mode_from_str (mode_as_wire m) = Inr m"
  by (cases m)
    (simp_all add: mode_from_str_def eq_ignore_ascii_case_def to_ascii_lowercase_def
      ascii_lits ascii_lower_def)

subsection \<open>Option values\<close>

datatype option_value =
    BlockSize u16
  | TimeoutOpt u8
  | TransferSize u64
  | WindowSize u16

fun option_name :: "option_value \<Rightarrow> str" where
  "option_name (BlockSize _) = ascii ''blksize''"
| "option_name (TimeoutOpt _) = ascii ''timeout''"
| "option_name (TransferSize _) = ascii ''tsize''"
| "option_name (WindowSize _) = ascii ''windowsize''"

fun option_value_string :: "option_value \<Rightarrow> str" where
  "option_value_string (BlockSize v) = to_decimal (unat v)"
| "option_value_string (TimeoutOpt v) = to_decimal (unat v)"
| "option_value_string (TransferSize v) = to_decimal (unat v)"
| "option_value_string (WindowSize v) = to_decimal (unat v)"

definition option_parse :: "str \<Rightarrow> str \<Rightarrow> error + option_value" where
  "option_parse name value =
     (let invalid = Inl (InvalidOption name value) in
      if eq_ignore_ascii_case name (ascii ''blksize'') then
        (case parse_u16 value of
           None \<Rightarrow> invalid
         | Some n \<Rightarrow>
             if \<not> (MIN_BLOCK_SIZE \<le> n \<and> n \<le> MAX_BLOCK_SIZE) then invalid
             else Inr (BlockSize n))
      else if eq_ignore_ascii_case name (ascii ''timeout'') then
        (case parse_u8 value of
           None \<Rightarrow> invalid
         | Some n \<Rightarrow> if n = 0 then invalid else Inr (TimeoutOpt n))
      else if eq_ignore_ascii_case name (ascii ''tsize'') then
        (case parse_u64 value of
           None \<Rightarrow> invalid
         | Some n \<Rightarrow> Inr (TransferSize n))
      else if eq_ignore_ascii_case name (ascii ''windowsize'') then
        (case parse_u16 value of
           None \<Rightarrow> invalid
         | Some n \<Rightarrow> if n = 0 then invalid else Inr (WindowSize n))
      else invalid)"

text \<open>The values a parsed option can have.\<close>

fun option_valid :: "option_value \<Rightarrow> bool" where
  "option_valid (BlockSize n) \<longleftrightarrow> MIN_BLOCK_SIZE \<le> n \<and> n \<le> MAX_BLOCK_SIZE"
| "option_valid (TimeoutOpt n) \<longleftrightarrow> n \<noteq> 0"
| "option_valid (TransferSize n) \<longleftrightarrow> True"
| "option_valid (WindowSize n) \<longleftrightarrow> n \<noteq> 0"

lemma eq_ignore_names:
  "eq_ignore_ascii_case (option_name v) (option_name w) \<longleftrightarrow> option_name v = option_name w"
  by (cases v; cases w)
    (simp_all add: eq_ignore_ascii_case_def to_ascii_lowercase_def ascii_lits ascii_lower_def)

lemma lower_option_name [simp]: "to_ascii_lowercase (option_name v) = option_name v"
  by (cases v) (simp_all add: to_ascii_lowercase_def ascii_lits ascii_lower_def)

lemma option_name_eq_iff [simp]:
  "option_name v = ascii ''blksize'' \<longleftrightarrow> (\<exists>n. v = BlockSize n)"
  "option_name v = ascii ''timeout'' \<longleftrightarrow> (\<exists>t. v = TimeoutOpt t)"
  "option_name v = ascii ''tsize'' \<longleftrightarrow> (\<exists>k. v = TransferSize k)"
  "option_name v = ascii ''windowsize'' \<longleftrightarrow> (\<exists>n. v = WindowSize n)"
  by (cases v; simp add: ascii_lits)+

lemma option_parse_Inr:
  "option_parse name value = Inr v \<Longrightarrow> to_ascii_lowercase name = option_name v \<and> option_valid v"
  by (auto simp: option_parse_def Let_def eq_ignore_ascii_case_def to_ascii_lowercase_def ascii_lits
      ascii_lower_def split: if_splits option.splits)

lemma option_parse_valid: "option_parse name value = Inr v \<Longrightarrow> option_valid v"
  using option_parse_Inr by blast

lemma option_parse_Inl: "option_parse name value = Inl e \<Longrightarrow> e = InvalidOption name value"
  by (auto simp: option_parse_def Let_def split: if_splits option.splits)

lemma option_parse_printed:
  "option_parse (option_name v) (option_value_string v) =
     (if option_valid v then Inr v else Inl (InvalidOption (option_name v) (option_value_string v)))"
  using eq_ignore_names [of v "BlockSize 0"] eq_ignore_names [of v "TimeoutOpt 0"]
    eq_ignore_names [of v "TransferSize 0"] eq_ignore_names [of v "WindowSize 0"]
  by (cases v) (auto simp: option_parse_def ascii_lits Let_def parse_u8_to_decimal [of 0, simplified]
      parse_u16_to_decimal [of 0, simplified])

lemma option_parse_roundtrip:
  "option_valid v \<Longrightarrow> option_parse (option_name v) (option_value_string v) = Inr v"
  by (simp add: option_parse_printed)

subsection \<open>The option set\<close>

record option_set =
  items :: "option_value list"

definition option_set_new :: option_set where
  "option_set_new = \<lparr>items = []\<rparr>"

definition option_set_is_empty :: "option_set \<Rightarrow> bool" where
  "option_set_is_empty s \<longleftrightarrow> items s = []"

fun insert_item :: "option_value \<Rightarrow> option_value list \<Rightarrow> option_value list" where
  "insert_item v [] = [v]"
| "insert_item v (x # xs) =
     (if option_name x = option_name v then v # xs else x # insert_item v xs)"

definition option_set_insert :: "option_value \<Rightarrow> option_set \<Rightarrow> option_set" where
  "option_set_insert v s = s\<lparr>items := insert_item v (items s)\<rparr>"

definition block_size :: "option_set \<Rightarrow> u16 option" where
  "block_size s = find_map (\<lambda>v. case v of BlockSize n \<Rightarrow> Some n | _ \<Rightarrow> None) (items s)"

definition timeout_opt :: "option_set \<Rightarrow> u8 option" where
  "timeout_opt s = find_map (\<lambda>v. case v of TimeoutOpt n \<Rightarrow> Some n | _ \<Rightarrow> None) (items s)"

definition transfer_size :: "option_set \<Rightarrow> u64 option" where
  "transfer_size s = find_map (\<lambda>v. case v of TransferSize n \<Rightarrow> Some n | _ \<Rightarrow> None) (items s)"

definition window_size :: "option_set \<Rightarrow> u16 option" where
  "window_size s = find_map (\<lambda>v. case v of WindowSize n \<Rightarrow> Some n | _ \<Rightarrow> None) (items s)"

text \<open>
  \<open>from_pairs\<close>: the first loop records each lower-cased name once, in order of first
  occurrence, and the latest value of each name; the second inserts the values that parse.
\<close>

fun collect_pairs ::
  "(str \<times> str) list \<Rightarrow> str list \<Rightarrow> (str \<rightharpoonup> str) \<Rightarrow> str list \<times> (str \<rightharpoonup> str)" where
  "collect_pairs [] order latest = (order, latest)"
| "collect_pairs ((k, v) # pairs) order latest =
     (let lower = to_ascii_lowercase k;
          order' = (if \<not> (\<exists>n \<in> set order. n = lower) then order @ [lower] else order)
      in collect_pairs pairs order' (latest(lower \<mapsto> v)))"

fun insert_parsed :: "str list \<Rightarrow> (str \<rightharpoonup> str) \<Rightarrow> option_set \<Rightarrow> option_set" where
  "insert_parsed [] latest s = s"
| "insert_parsed (name # order) latest s =
     (case latest name of
        Some value \<Rightarrow>
          (case option_parse name value of
             Inr opt \<Rightarrow> insert_parsed order latest (option_set_insert opt s)
           | Inl _ \<Rightarrow> insert_parsed order latest s)
      | None \<Rightarrow> insert_parsed order latest s)"

definition from_pairs :: "(str \<times> str) list \<Rightarrow> option_set" where
  "from_pairs pairs =
     (case collect_pairs pairs [] Map.empty of
        (order, latest) \<Rightarrow> insert_parsed order latest option_set_new)"

subsection \<open>The invariant of an option set\<close>

definition option_set_ok :: "option_set \<Rightarrow> bool" where
  "option_set_ok s \<longleftrightarrow> distinct (map option_name (items s)) \<and> (\<forall>v \<in> set (items s). option_valid v)"

lemma insert_item_names:
  "set (map option_name (insert_item v xs)) = insert (option_name v) (set (map option_name xs))"
  by (induction xs) auto

lemma insert_item_distinct:
  "distinct (map option_name xs) \<Longrightarrow> distinct (map option_name (insert_item v xs))"
proof (induction xs)
  case (Cons x xs)
  then show ?case using insert_item_names [of v xs] by auto
qed simp

lemma insert_item_set: "set (insert_item v xs) \<subseteq> insert v (set xs)"
  by (induction xs) auto

lemma insert_item_fresh: "option_name v \<notin> option_name ` set xs \<Longrightarrow> insert_item v xs = xs @ [v]"
  by (induction xs) auto

lemma option_set_new_ok [simp]: "option_set_ok option_set_new"
  by (simp add: option_set_ok_def option_set_new_def)

lemma option_set_insert_ok:
  "option_set_ok s \<Longrightarrow> option_valid v \<Longrightarrow> option_set_ok (option_set_insert v s)"
  using insert_item_distinct insert_item_set [of v "items s"]
  by (auto simp: option_set_ok_def option_set_insert_def)

lemma insert_parsed_ok: "option_set_ok s \<Longrightarrow> option_set_ok (insert_parsed order latest s)"
proof (induction order arbitrary: s)
  case (Cons name order)
  then show ?case
    by (auto split: option.splits sum.splits
        intro: Cons.IH option_set_insert_ok option_parse_valid)
qed simp

lemma from_pairs_ok: "option_set_ok (from_pairs pairs)"
  by (auto simp: from_pairs_def intro: insert_parsed_ok split: prod.splits)

subsection \<open>Accessors as an interface\<close>

text \<open>
  An accessor looks for one kind of option: \<open>pick\<close> yields the payload of exactly the
  values named \<open>nm\<close>.
\<close>

locale option_field =
  fixes get :: "option_set \<Rightarrow> 'v option"
    and pick :: "option_value \<Rightarrow> 'v option"
    and nm :: str
  assumes get_find: "get s = find_map pick (items s)"
    and pick_name: "pick v \<noteq> None \<longleftrightarrow> option_name v = nm"
begin

lemma get_new [simp]: "get option_set_new = None"
  by (simp add: get_find option_set_new_def)

lemma get_insert:
  "get (option_set_insert v s) = (if option_name v = nm then pick v else get s)"
proof -
  have "find_map pick (insert_item v xs) = (if option_name v = nm then pick v else find_map pick xs)" for xs
  proof (induction xs)
    case Nil
    then show ?case using pick_name [of v] by (auto split: option.splits)
  next
    case (Cons x xs)
    then show ?case using pick_name [of v] pick_name [of x]
      by (auto split: option.splits)
  qed
  then show ?thesis by (simp add: get_find option_set_insert_def)
qed

lemma get_pick: "get s = Some x \<Longrightarrow> \<exists>v \<in> set (items s). pick v = Some x"
  by (auto simp: get_find dest: find_map_Some)

lemma get_insert_parsed:
  assumes "distinct order" "\<forall>n \<in> set order. to_ascii_lowercase n = n"
  shows "get (insert_parsed order latest s) =
     (if nm \<in> set order
      then (case latest nm of
              None \<Rightarrow> get s
            | Some value \<Rightarrow> (case option_parse nm value of Inr v \<Rightarrow> pick v | Inl _ \<Rightarrow> get s))
      else get s)"
  using assms
proof (induction order latest s rule: insert_parsed.induct)
  case (2 name order latest s)
  then show ?case
    by (auto simp: get_insert split: option.splits sum.splits dest: option_parse_Inr)
qed simp

end

interpretation blk: option_field block_size
  "\<lambda>v. case v of BlockSize n \<Rightarrow> Some n | _ \<Rightarrow> None" "ascii ''blksize''"
  by unfold_locales (auto simp: block_size_def split: option_value.splits)

interpretation tmo: option_field timeout_opt
  "\<lambda>v. case v of TimeoutOpt n \<Rightarrow> Some n | _ \<Rightarrow> None" "ascii ''timeout''"
  by unfold_locales (auto simp: timeout_opt_def split: option_value.splits)

interpretation tsz: option_field transfer_size
  "\<lambda>v. case v of TransferSize n \<Rightarrow> Some n | _ \<Rightarrow> None" "ascii ''tsize''"
  by unfold_locales (auto simp: transfer_size_def split: option_value.splits)

interpretation win: option_field window_size
  "\<lambda>v. case v of WindowSize n \<Rightarrow> Some n | _ \<Rightarrow> None" "ascii ''windowsize''"
  by unfold_locales (auto simp: window_size_def split: option_value.splits)

lemma option_gets [simp]:
  "block_size (option_set_insert (BlockSize n) s) = Some n"
  "block_size (option_set_insert (TimeoutOpt t) s) = block_size s"
  "block_size (option_set_insert (TransferSize k) s) = block_size s"
  "block_size (option_set_insert (WindowSize w) s) = block_size s"
  "timeout_opt (option_set_insert (BlockSize n) s) = timeout_opt s"
  "timeout_opt (option_set_insert (TimeoutOpt t) s) = Some t"
  "timeout_opt (option_set_insert (TransferSize k) s) = timeout_opt s"
  "timeout_opt (option_set_insert (WindowSize w) s) = timeout_opt s"
  "transfer_size (option_set_insert (BlockSize n) s) = transfer_size s"
  "transfer_size (option_set_insert (TimeoutOpt t) s) = transfer_size s"
  "transfer_size (option_set_insert (TransferSize k) s) = Some k"
  "transfer_size (option_set_insert (WindowSize w) s) = transfer_size s"
  "window_size (option_set_insert (BlockSize n) s) = window_size s"
  "window_size (option_set_insert (TimeoutOpt t) s) = window_size s"
  "window_size (option_set_insert (TransferSize k) s) = window_size s"
  "window_size (option_set_insert (WindowSize w) s) = Some w"
  by (simp_all add: blk.get_insert tmo.get_insert tsz.get_insert win.get_insert ascii_lits)

subsection \<open>What \<open>from_pairs\<close> computes\<close>

text \<open>The value of the last pair whose name is \<open>nm\<close> up to ASCII case.\<close>

definition last_value :: "str \<Rightarrow> (str \<times> str) list \<Rightarrow> str option" where
  "last_value nm pairs = map_of (rev (map (\<lambda>(k, v). (to_ascii_lowercase k, v)) pairs)) nm"

lemma collect_pairs_latest:
  "snd (collect_pairs pairs order latest)
     = latest ++ map_of (rev (map (\<lambda>(k, v). (to_ascii_lowercase k, v)) pairs))"
proof (induction pairs arbitrary: order latest)
  case (Cons p pairs)
  then show ?case by (cases p) (simp add: Let_def del: fun_upd_apply)
qed simp

lemma collect_pairs_order:
  "set (fst (collect_pairs pairs order latest))
     = set order \<union> (\<lambda>(k, v). to_ascii_lowercase k) ` set pairs"
proof (induction pairs arbitrary: order latest)
  case (Cons p pairs)
  then show ?case by (cases p) (auto simp add: Let_def simp del: fun_upd_apply)
qed simp

lemma collect_pairs_distinct:
  "distinct order \<Longrightarrow> distinct (fst (collect_pairs pairs order latest))"
proof (induction pairs arbitrary: order latest)
  case (Cons p pairs)
  then show ?case by (cases p) (simp add: Let_def)
qed simp

lemma last_value_None_iff:
  "last_value nm pairs = None \<longleftrightarrow> nm \<notin> (\<lambda>(k, v). to_ascii_lowercase k) ` set pairs"
  by (auto simp: last_value_def map_of_eq_None_iff) force+

lemma from_pairs_collected:
  obtains order where
    "from_pairs pairs = insert_parsed order (\<lambda>n. last_value n pairs) option_set_new"
    "distinct order" "\<forall>n \<in> set order. to_ascii_lowercase n = n"
    "set order = (\<lambda>(k, v). to_ascii_lowercase k) ` set pairs"
proof -
  obtain order latest where c: "collect_pairs pairs [] Map.empty = (order, latest)"
    by fastforce
  have "latest = (\<lambda>n. last_value n pairs)"
    using collect_pairs_latest [of pairs "[]" Map.empty] c by (simp add: last_value_def)
  moreover have o: "set order = (\<lambda>(k, v). to_ascii_lowercase k) ` set pairs"
    using collect_pairs_order [of pairs "[]" Map.empty] c by simp
  moreover have "distinct order"
    using collect_pairs_distinct [of "[]" pairs Map.empty] c by simp
  moreover have "\<forall>n \<in> set order. to_ascii_lowercase n = n"
    using o by auto
  ultimately show ?thesis
    using that [of order] c by (simp add: from_pairs_def)
qed

context option_field begin

text \<open>
  The accessor of a parsed set sees the last occurrence of its name: its value when that
  one parses, nothing otherwise (an earlier valid value does not come back).
\<close>

lemma get_from_pairs:
  "get (from_pairs pairs) =
     (case last_value nm pairs of
        None \<Rightarrow> None
      | Some value \<Rightarrow> (case option_parse nm value of Inr v \<Rightarrow> pick v | Inl _ \<Rightarrow> None))"
proof -
  obtain order where o: "from_pairs pairs = insert_parsed order (\<lambda>n. last_value n pairs) option_set_new"
    "distinct order" "\<forall>n \<in> set order. to_ascii_lowercase n = n"
    "set order = (\<lambda>(k, v). to_ascii_lowercase k) ` set pairs"
    by (rule from_pairs_collected)
  show ?thesis
    using get_insert_parsed [OF o(2,3), of "\<lambda>n. last_value n pairs" option_set_new]
      last_value_None_iff [of nm pairs] o(1,4)
    by (auto simp: get_new split: option.splits sum.splits)
qed

end

subsection \<open>Printing and parsing a set\<close>

definition option_pair :: "option_value \<Rightarrow> str \<times> str" where
  "option_pair v = (option_name v, option_value_string v)"

lemma collect_pairs_names:
  assumes "distinct (map option_name vs)" "option_name ` set vs \<inter> set order = {}"
  shows "fst (collect_pairs (map option_pair vs) order latest) = order @ map option_name vs"
  using assms
proof (induction vs arbitrary: order latest)
  case (Cons v vs)
  then show ?case by (auto simp: option_pair_def Let_def)
qed simp

lemma last_value_pairs:
  assumes "distinct (map option_name vs)" "v \<in> set vs"
  shows "last_value (option_name v) (map option_pair vs) = Some (option_value_string v)"
proof -
  have "map (\<lambda>(k, v). (to_ascii_lowercase k, v)) (map option_pair vs) = map option_pair vs"
    by (simp add: option_pair_def comp_def)
  moreover have "distinct (map fst (rev (map option_pair vs)))"
    using assms(1) by (simp add: option_pair_def comp_def flip: rev_map)
  moreover have "option_pair v \<in> set (rev (map option_pair vs))"
    using assms(2) by simp
  ultimately show ?thesis
    unfolding last_value_def by (metis map_of_is_SomeI option_pair_def)
qed

lemma insert_parsed_values:
  assumes "distinct (map option_name vs)" "option_name ` set vs \<inter> option_name ` set (items s) = {}"
    and "\<forall>v \<in> set vs. option_valid v \<and> latest (option_name v) = Some (option_value_string v)"
  shows "insert_parsed (map option_name vs) latest s = s\<lparr>items := items s @ vs\<rparr>"
  using assms
proof (induction vs arbitrary: s)
  case (Cons v vs)
  then have "option_set_insert v s = s\<lparr>items := items s @ [v]\<rparr>"
    by (auto simp: option_set_insert_def insert_item_fresh)
  with Cons show ?case by (auto simp: option_parse_roundtrip)
qed simp

lemma from_pairs_roundtrip:
  assumes "option_set_ok s"
  shows "from_pairs (map option_pair (items s)) = s"
proof -
  let ?ps = "map option_pair (items s)"
  have d: "distinct (map option_name (items s))" using assms by (simp add: option_set_ok_def)
  have "fst (collect_pairs ?ps [] Map.empty) = map option_name (items s)"
    using collect_pairs_names [OF d] by simp
  moreover have "snd (collect_pairs ?ps [] Map.empty) = (\<lambda>n. last_value n ?ps)"
    by (simp add: collect_pairs_latest last_value_def)
  moreover have "insert_parsed (map option_name (items s)) (\<lambda>n. last_value n ?ps) option_set_new
      = option_set_new\<lparr>items := items s\<rparr>"
    using insert_parsed_values [OF d, of option_set_new "\<lambda>n. last_value n ?ps"]
      last_value_pairs [OF d] assms
    by (simp add: option_set_new_def option_set_ok_def)
  ultimately show ?thesis
    by (cases "collect_pairs ?ps [] Map.empty") (simp add: from_pairs_def option_set_new_def)
qed

subsection \<open>Size of a set\<close>

lemma option_set_length: "option_set_ok s \<Longrightarrow> length (items s) \<le> 4"
proof -
  assume "option_set_ok s"
  then have "length (items s) = card (option_name ` set (items s))"
    by (metis option_set_ok_def distinct_card length_map set_map)
  also have "\<dots> \<le> card {ascii ''blksize'', ascii ''timeout'', ascii ''tsize'', ascii ''windowsize''}"
  proof (rule card_mono)
    have "option_name v \<in> {ascii ''blksize'', ascii ''timeout'', ascii ''tsize'', ascii ''windowsize''}"
      for v by (cases v) simp_all
    then show "option_name ` set (items s)
        \<subseteq> {ascii ''blksize'', ascii ''timeout'', ascii ''tsize'', ascii ''windowsize''}"
      by blast
  qed simp
  also have "\<dots> \<le> 4"
    using card_length [of "[ascii ''blksize'', ascii ''timeout'', ascii ''tsize'', ascii ''windowsize'']"]
    by simp
  finally show ?thesis .
qed

lemma option_value_string_length: "length (option_value_string v) \<le> 20"
proof -
  have w: "unat x < 10 ^ 20" if "LENGTH('a) \<le> 64" for x :: "'a::len word"
  proof -
    have "unat x < 2 ^ LENGTH('a)" by (rule unsigned_less)
    also have "\<dots> \<le> 2 ^ 64" using that by (intro power_increasing) auto
    finally show ?thesis by simp
  qed
  show ?thesis
    by (cases v) (auto intro!: length_to_decimal w)
qed

lemma option_name_length: "length (option_name v) \<le> 10"
  by (cases v) simp_all

subsection \<open>Properties\<close>

text \<open>Parsing an option accepts exactly the known names (in any case) with a number in the
  option's range, inverts printing, and fails only with \<open>InvalidOption\<close> on that pair.\<close>

lemma option_parse_exact:
  "(case option_parse name value of
      Inr v \<Rightarrow> to_ascii_lowercase name = option_name v \<and> option_valid v
    | Inl e \<Rightarrow> e = InvalidOption name value)
   \<and> option_parse (option_name v) (option_value_string v) =
     (if option_valid v then Inr v else Inl (InvalidOption (option_name v) (option_value_string v)))"
  using option_parse_printed [of v]
  by (auto dest: option_parse_Inr option_parse_Inl split: sum.splits)

text \<open>Of repeated options the last one counts, whatever the case of its name: each accessor
  of the parsed set yields the last value given for its name when that parses, else nothing.\<close>

lemma from_pairs_last_wins:
  "block_size (from_pairs ps) = (case last_value (ascii ''blksize'') ps of
       Some v \<Rightarrow> (case option_parse (ascii ''blksize'') v of Inr (BlockSize n) \<Rightarrow> Some n | _ \<Rightarrow> None)
     | None \<Rightarrow> None)
   \<and> timeout_opt (from_pairs ps) = (case last_value (ascii ''timeout'') ps of
       Some v \<Rightarrow> (case option_parse (ascii ''timeout'') v of Inr (TimeoutOpt n) \<Rightarrow> Some n | _ \<Rightarrow> None)
     | None \<Rightarrow> None)
   \<and> transfer_size (from_pairs ps) = (case last_value (ascii ''tsize'') ps of
       Some v \<Rightarrow> (case option_parse (ascii ''tsize'') v of Inr (TransferSize n) \<Rightarrow> Some n | _ \<Rightarrow> None)
     | None \<Rightarrow> None)
   \<and> window_size (from_pairs ps) = (case last_value (ascii ''windowsize'') ps of
       Some v \<Rightarrow> (case option_parse (ascii ''windowsize'') v of Inr (WindowSize n) \<Rightarrow> Some n | _ \<Rightarrow> None)
     | None \<Rightarrow> None)"
  unfolding blk.get_from_pairs tmo.get_from_pairs tsz.get_from_pairs win.get_from_pairs
  by (simp split: option.splits sum.splits option_value.splits)

text \<open>A parsed option set never holds two values of one option or a value out of range, has at
  most four entries, and every such set survives printing and parsing unchanged, order included.\<close>

lemma option_set_roundtrip:
  assumes "option_set_ok s"
  shows "from_pairs (map option_pair (items s)) = s \<and> length (items s) \<le> 4 \<and> option_set_ok (from_pairs ps)"
  using assms by (simp add: from_pairs_roundtrip option_set_length from_pairs_ok)

end
