(* ===== verification/Packet.thy ===== *)
theory Packet
  imports Options
begin

text \<open>
  \<^verbatim>\<open>proto/packet.rs\<close>: the packet type, \<open>decode\<close> with its field readers and \<open>encode_into\<close>.
  An output buffer is the byte list appended to; a cursor is the byte list still unread.

  The lemmas give the round trip on well-formed packets and show that \<open>decode\<close> only
  returns well-formed packets.
\<close>

datatype packet =
    Rrq str mode option_set
  | Wrq str mode option_set
  | Data u16 bytes
  | Ack u16
  | ErrorPkt error_code str
  | Oack option_set

subsection \<open>Encoding\<close>

definition put_cstr :: "bytes \<Rightarrow> bytes \<Rightarrow> bytes" where
  "put_cstr out s = (out @ s) @ [0]"

fun encode_options :: "option_value list \<Rightarrow> bytes \<Rightarrow> bytes" where
  "encode_options [] out = out"
| "encode_options (opt # opts) out =
     encode_options opts (put_cstr (put_cstr out (option_name opt)) (option_value_string opt))"

definition encode_request :: "opcode \<Rightarrow> str \<Rightarrow> mode \<Rightarrow> option_set \<Rightarrow> bytes \<Rightarrow> bytes" where
  "encode_request op filename m options out =
     encode_options (items options)
       (put_cstr (put_cstr (out @ put_u16 (opcode_u16 op)) filename) (mode_as_wire m))"

fun encode_into :: "packet \<Rightarrow> bytes \<Rightarrow> bytes" where
  "encode_into (Rrq filename m options) out = encode_request OpRrq filename m options out"
| "encode_into (Wrq filename m options) out = encode_request OpWrq filename m options out"
| "encode_into (Data block data) out =
     ((out @ put_u16 (opcode_u16 OpData)) @ put_u16 block) @ data"
| "encode_into (Ack block) out = (out @ put_u16 (opcode_u16 OpAck)) @ put_u16 block"
| "encode_into (ErrorPkt code msg) out =
     (((out @ put_u16 (opcode_u16 OpError)) @ put_u16 (error_code_u16 code)) @ msg) @ [0]"
| "encode_into (Oack options) out =
     encode_options (items options) (out @ put_u16 (opcode_u16 OpOack))"

text \<open>Every sender encodes into a fresh buffer.\<close>

definition encode :: "packet \<Rightarrow> bytes" where
  "encode p = encode_into p []"

subsection \<open>Decoding\<close>

fun position :: "('a \<Rightarrow> bool) \<Rightarrow> 'a list \<Rightarrow> nat option" where
  "position f [] = None"
| "position f (x # xs) = (if f x then Some 0 else map_option Suc (position f xs))"

definition take_cstr :: "bytes \<Rightarrow> error + (str \<times> bytes)" where
  "take_cstr cursor =
     (case position (\<lambda>b. b = 0) cursor of
        None \<Rightarrow> Inl MissingNul
      | Some nul \<Rightarrow>
          if \<not> utf8_valid (take nul cursor) then Inl InvalidUtf8
          else Inr (take nul cursor, drop (nul + 1) cursor))"

lemma position_zero: "0 \<notin> set s \<Longrightarrow> position (\<lambda>b. b = 0) (s @ 0 # r) = Some (length s)"
  by (induction s) auto

lemma position_zeroD:
  "position (\<lambda>b. b = 0) cur = Some n \<Longrightarrow> \<exists>s r. cur = s @ 0 # r \<and> 0 \<notin> set s \<and> n = length s"
proof (induction cur arbitrary: n)
  case (Cons b cur)
  show ?case
  proof (cases "b = 0")
    case True
    with Cons.prems show ?thesis by (auto intro!: exI [of _ "[]"])
  next
    case False
    with Cons.prems obtain m where "position (\<lambda>b. b = 0) cur = Some m" and n: "n = Suc m"
      by auto
    from Cons.IH [OF this(1)] obtain s r where "cur = s @ 0 # r \<and> 0 \<notin> set s \<and> m = length s"
      by blast
    with False n show ?thesis by (intro exI [of _ "b # s"] exI [of _ r]) auto
  qed
qed simp

lemma take_cstr_Inr:
  "take_cstr cur = Inr (s, rest) \<longleftrightarrow> cur = s @ 0 # rest \<and> 0 \<notin> set s \<and> utf8_valid s"
proof
  assume "take_cstr cur = Inr (s, rest)"
  then show "cur = s @ 0 # rest \<and> 0 \<notin> set s \<and> utf8_valid s"
    by (auto simp: take_cstr_def dest!: position_zeroD split: option.splits if_splits)
next
  assume "cur = s @ 0 # rest \<and> 0 \<notin> set s \<and> utf8_valid s"
  then show "take_cstr cur = Inr (s, rest)"
    by (simp add: take_cstr_def position_zero)
qed

function decode_pairs :: "bytes \<Rightarrow> error + (str \<times> str) list" where
  "decode_pairs cursor =
     (if cursor = [] then Inr []
      else (case take_cstr cursor of
              Inl e \<Rightarrow> Inl e
            | Inr (name, cursor1) \<Rightarrow>
                (case take_cstr cursor1 of
                   Inl e \<Rightarrow> Inl e
                 | Inr (value, cursor2) \<Rightarrow>
                     (case decode_pairs cursor2 of
                        Inl e \<Rightarrow> Inl e
                      | Inr pairs \<Rightarrow> Inr ((name, value) # pairs)))))"
  by pat_completeness auto
termination
  by (relation "measure length") (auto simp: take_cstr_Inr)

declare decode_pairs.simps [simp del]

definition decode_request :: "opcode \<Rightarrow> bytes \<Rightarrow> (error + packet) option" where
  "decode_request op body =
     (case take_cstr body of
        Inl e \<Rightarrow> Some (Inl e)
      | Inr (filename, cursor1) \<Rightarrow>
          (case take_cstr cursor1 of
             Inl e \<Rightarrow> Some (Inl e)
           | Inr (mode_str, cursor2) \<Rightarrow>
               (case mode_from_str mode_str of
                  Inl e \<Rightarrow> Some (Inl e)
                | Inr m \<Rightarrow>
                    (case decode_pairs cursor2 of
                       Inl e \<Rightarrow> Some (Inl e)
                     | Inr pairs \<Rightarrow>
                         (let options = from_pairs pairs in
                          case op of
                            OpRrq \<Rightarrow> Some (Inr (Rrq filename m options))
                          | OpWrq \<Rightarrow> Some (Inr (Wrq filename m options))
                          | _ \<Rightarrow> None)))))"

definition decode_data :: "bytes \<Rightarrow> error + packet" where
  "decode_data body =
     (case body of
        hi # lo # data \<Rightarrow> Inr (Data (u16_from_be hi lo) data)
      | _ \<Rightarrow> Inl (Malformed (ascii ''DATA missing block number'')))"

definition decode_ack :: "bytes \<Rightarrow> error + packet" where
  "decode_ack body =
     (case body of
        hi # lo # _ \<Rightarrow> Inr (Ack (u16_from_be hi lo))
      | _ \<Rightarrow> Inl (Malformed (ascii ''ACK missing block number'')))"

definition decode_error :: "bytes \<Rightarrow> error + packet" where
  "decode_error body =
     (case body of
        hi # lo # b # rest \<Rightarrow>
          (case take_cstr (b # rest) of
             Inl e \<Rightarrow> Inl e
           | Inr (msg, _) \<Rightarrow> Inr (ErrorPkt (error_code_from_u16 (u16_from_be hi lo)) msg))
      | _ \<Rightarrow> Inl (Malformed (ascii ''ERROR too short'')))"

definition decode_oack :: "bytes \<Rightarrow> error + packet" where
  "decode_oack body =
     (case decode_pairs body of
        Inl e \<Rightarrow> Inl e
      | Inr pairs \<Rightarrow> Inr (Oack (from_pairs pairs)))"

text \<open>
  \<open>decode_request\<close> has an \<open>unreachable!\<close> arm (\<open>None\<close>) for other opcodes; \<open>decode\<close> only
  calls it on requests.
\<close>

definition decode :: "bytes \<Rightarrow> error + packet" where
  "decode buf =
     (case buf of
        hi # lo # body \<Rightarrow>
          (case opcode_from_u16 (u16_from_be hi lo) of
             Inl e \<Rightarrow> Inl e
           | Inr op \<Rightarrow>
               (case op of
                  OpRrq \<Rightarrow> the (decode_request OpRrq body)
                | OpWrq \<Rightarrow> the (decode_request OpWrq body)
                | OpData \<Rightarrow> decode_data body
                | OpAck \<Rightarrow> decode_ack body
                | OpError \<Rightarrow> decode_error body
                | OpOack \<Rightarrow> decode_oack body))
      | _ \<Rightarrow> Inl (Malformed (ascii ''packet shorter than opcode'')))"

subsection \<open>Well-formed packets\<close>

definition cstr_ok :: "str \<Rightarrow> bool" where
  "cstr_ok s \<longleftrightarrow> utf8_valid s \<and> 0 \<notin> set s"

fun packet_ok :: "packet \<Rightarrow> bool" where
  "packet_ok (Rrq f m opts) \<longleftrightarrow> cstr_ok f \<and> option_set_ok opts"
| "packet_ok (Wrq f m opts) \<longleftrightarrow> cstr_ok f \<and> option_set_ok opts"
| "packet_ok (Data b d) \<longleftrightarrow> True"
| "packet_ok (Ack b) \<longleftrightarrow> True"
| "packet_ok (ErrorPkt c msg) \<longleftrightarrow> cstr_ok msg"
| "packet_ok (Oack opts) \<longleftrightarrow> option_set_ok opts"

lemma decode_request_reached:
  "op = OpRrq \<or> op = OpWrq \<Longrightarrow> decode_request op body \<noteq> None"
  by (auto simp: decode_request_def Let_def split: sum.splits prod.splits)

lemma decode_request_ok:
  "decode_request op body = Some (Inr p) \<Longrightarrow> packet_ok p"
  by (auto simp: decode_request_def Let_def take_cstr_Inr cstr_ok_def from_pairs_ok
      split: sum.splits prod.splits opcode.splits)

lemma decode_packet_ok: "decode buf = Inr p \<Longrightarrow> packet_ok p"
proof -
  assume a: "decode buf = Inr p"
  have r: "the (decode_request op body) = Inr p \<Longrightarrow> op = OpRrq \<or> op = OpWrq \<Longrightarrow> packet_ok p"
    for op body
    using decode_request_reached [of op body] decode_request_ok [of op body p] by auto
  show ?thesis
    using a r
    by (auto simp: decode_def decode_data_def decode_ack_def decode_error_def decode_oack_def
        take_cstr_Inr cstr_ok_def from_pairs_ok
        split: list.splits sum.splits opcode.splits prod.splits)
qed

lemma take_cstr_err: "take_cstr cur = Inl e \<Longrightarrow> e = MissingNul \<or> e = InvalidUtf8"
  by (auto simp: take_cstr_def split: option.splits if_splits)

lemma decode_pairs_err: "decode_pairs cur = Inl e \<Longrightarrow> e = MissingNul \<or> e = InvalidUtf8"
proof (induction cur rule: decode_pairs.induct)
  case (1 cur)
  then show ?case
    by (auto simp: decode_pairs.simps [of cur] dest: take_cstr_err split: if_splits sum.splits prod.splits)
qed

lemma decode_no_unknown:
  "decode_request op body \<noteq> Some (Inl (UnknownOpcode v))" "decode_data body \<noteq> Inl (UnknownOpcode v)"
  "decode_ack body \<noteq> Inl (UnknownOpcode v)" "decode_error body \<noteq> Inl (UnknownOpcode v)"
  "decode_oack body \<noteq> Inl (UnknownOpcode v)"
  by (auto simp: decode_request_def decode_data_def decode_ack_def decode_error_def decode_oack_def
      Let_def mode_from_str_def dest!: take_cstr_err decode_pairs_err
      split: sum.splits prod.splits list.splits opcode.splits if_splits)

lemma decode_request_no_unknown:
  "op = OpRrq \<or> op = OpWrq \<Longrightarrow> the (decode_request op body) \<noteq> Inl (UnknownOpcode v)"
  using decode_request_reached [of op body] decode_no_unknown(1) [of op body v] by auto

subsection \<open>Reading back what was written\<close>

lemma take_cstr_put: "cstr_ok s \<Longrightarrow> take_cstr (s @ 0 # rest) = Inr (s, rest)"
  by (simp add: take_cstr_Inr cstr_ok_def)

lemma ascii_cstr_ok: "\<forall>b \<in> set s. b < 128 \<and> b \<noteq> 0 \<Longrightarrow> cstr_ok s"
  by (auto simp: cstr_ok_def intro: utf8_valid_ascii)

lemma option_pair_cstr: "cstr_ok (option_name v)" "cstr_ok (option_value_string v)"
   apply (cases v; rule ascii_cstr_ok; simp add: ascii_lits)
  apply (cases v; rule ascii_cstr_ok; auto dest: to_decimal_chars)
  done

lemma mode_as_wire_cstr: "cstr_ok (mode_as_wire m)"
  by (cases m; rule ascii_cstr_ok; simp add: ascii_lits)

fun option_bytes :: "option_value list \<Rightarrow> bytes" where
  "option_bytes [] = []"
| "option_bytes (v # vs) = option_name v @ 0 # option_value_string v @ 0 # option_bytes vs"

lemma encode_options_eq: "encode_options vs out = out @ option_bytes vs"
  by (induction vs arbitrary: out) (simp_all add: put_cstr_def)

lemma decode_pairs_bytes: "decode_pairs (option_bytes vs) = Inr (map option_pair vs)"
  by (induction vs)
    (simp_all add: decode_pairs.simps take_cstr_put option_pair_cstr option_pair_def)

lemma encode_simps:
  "encode (Rrq f m opts) = put_u16 1 @ f @ 0 # mode_as_wire m @ 0 # option_bytes (items opts)"
  "encode (Wrq f m opts) = put_u16 2 @ f @ 0 # mode_as_wire m @ 0 # option_bytes (items opts)"
  "encode (Data b d) = put_u16 3 @ put_u16 b @ d"
  "encode (Ack b) = put_u16 4 @ put_u16 b"
  "encode (ErrorPkt c msg) = put_u16 5 @ put_u16 (error_code_u16 c) @ msg @ [0]"
  "encode (Oack opts) = put_u16 6 @ option_bytes (items opts)"
  by (simp_all add: encode_def encode_request_def encode_options_eq put_cstr_def)

lemma decode_put_u16:
  "decode (put_u16 (opcode_u16 op) @ body) =
     (case op of
        OpRrq \<Rightarrow> the (decode_request OpRrq body)
      | OpWrq \<Rightarrow> the (decode_request OpWrq body)
      | OpData \<Rightarrow> decode_data body
      | OpAck \<Rightarrow> decode_ack body
      | OpError \<Rightarrow> decode_error body
      | OpOack \<Rightarrow> decode_oack body)"
proof -
  obtain hi lo where b: "put_u16 (opcode_u16 op) = [hi, lo]" "u16_from_be hi lo = opcode_u16 op"
    by (simp add: put_u16_def)
  then show ?thesis by (simp add: decode_def)
qed

lemmas decode_op [simp] =
  decode_put_u16 [of OpRrq, simplified] decode_put_u16 [of OpWrq, simplified]
  decode_put_u16 [of OpData, simplified] decode_put_u16 [of OpAck, simplified]
  decode_put_u16 [of OpError, simplified] decode_put_u16 [of OpOack, simplified]

lemma decode_data_put [simp]: "decode_data (put_u16 b @ d) = Inr (Data b d)"
  by (simp add: decode_data_def put_u16_def)

lemma decode_ack_put [simp]: "decode_ack (put_u16 b) = Inr (Ack b)"
  by (simp add: decode_ack_def put_u16_def)

lemma decode_error_put:
  assumes "cstr_ok msg"
  shows "decode_error (put_u16 (error_code_u16 c) @ msg @ [0]) = Inr (ErrorPkt c msg)"
proof -
  have "take_cstr (msg @ [0]) = Inr (msg, [])"
    using take_cstr_put [OF assms, of "[]"] .
  then show ?thesis
    by (cases "msg @ [0]") (simp_all add: decode_error_def put_u16_def)
qed

lemma decode_request_put:
  assumes "cstr_ok f" "option_set_ok opts"
  shows "decode_request op (f @ 0 # mode_as_wire m @ 0 # option_bytes (items opts)) =
    (case op of OpRrq \<Rightarrow> Some (Inr (Rrq f m opts)) | OpWrq \<Rightarrow> Some (Inr (Wrq f m opts)) | _ \<Rightarrow> None)"
  using assms
  by (simp add: decode_request_def take_cstr_put mode_as_wire_cstr decode_pairs_bytes
      from_pairs_roundtrip)

lemma decode_encode: "packet_ok p \<Longrightarrow> decode (encode p) = Inr p"
  by (cases p)
    (simp_all add: encode_simps decode_request_put decode_error_put decode_oack_def
      decode_pairs_bytes from_pairs_roundtrip)

lemma decode_encode_data [simp]: "decode (encode (Data b d)) = Inr (Data b d)"
  by (rule decode_encode) simp

lemma decode_encode_ack [simp]: "decode (encode (Ack b)) = Inr (Ack b)"
  by (rule decode_encode) simp

lemma length_encode_data [simp]: "length (encode (Data b d)) = 4 + length d"
  by (simp add: encode_simps)

subsection \<open>Which bytes are DATA and ACK packets\<close>

lemma opcode_bytes: "opcode_from_u16 (u16_from_be hi lo) = Inr op \<Longrightarrow> [hi, lo] = put_u16 (opcode_u16 op)"
  by (simp add: opcode_from_u16_Inr flip: put_u16_from_be)

lemma decode_Data_iff: "decode d = Inr (Data b x) \<longleftrightarrow> d = encode (Data b x)"
proof
  assume a: "decode d = Inr (Data b x)"
  then obtain hi lo body op where d: "d = hi # lo # body"
    and op: "opcode_from_u16 (u16_from_be hi lo) = Inr op"
    by (auto simp: decode_def split: list.splits sum.splits)
  have r: "the (decode_request p bd) \<noteq> Inr (Data b x)" if "p = OpRrq \<or> p = OpWrq" for p bd
    using that by (auto simp: decode_request_def Let_def split: sum.splits prod.splits)
  from a d op r have "op = OpData"
    by (cases op) (auto simp: decode_def decode_ack_def decode_error_def decode_oack_def
        split: list.splits sum.splits prod.splits)
  with a d op obtain h l where "body = h # l # x" "b = u16_from_be h l"
    by (auto simp: decode_def decode_data_def split: list.splits)
  moreover have "[hi, lo] = put_u16 3" using opcode_bytes [OF op] \<open>op = OpData\<close> by simp
  ultimately show "d = encode (Data b x)"
    using d by (simp add: encode_simps put_u16_from_be flip: append_Cons)
qed simp

lemma decode_Ack_iff: "decode d = Inr (Ack b) \<longleftrightarrow> (\<exists>rest. d = encode (Ack b) @ rest)"
proof
  assume a: "decode d = Inr (Ack b)"
  then obtain hi lo body op where d: "d = hi # lo # body"
    and op: "opcode_from_u16 (u16_from_be hi lo) = Inr op"
    by (auto simp: decode_def split: list.splits sum.splits)
  have r: "the (decode_request p bd) \<noteq> Inr (Ack b)" if "p = OpRrq \<or> p = OpWrq" for p bd
    using that by (auto simp: decode_request_def Let_def split: sum.splits prod.splits)
  from a d op r have "op = OpAck"
    by (cases op) (auto simp: decode_def decode_data_def decode_error_def decode_oack_def
        split: list.splits sum.splits prod.splits)
  with a d op obtain h l rest where "body = h # l # rest" "b = u16_from_be h l"
    by (auto simp: decode_def decode_ack_def split: list.splits)
  moreover have "[hi, lo] = put_u16 4" using opcode_bytes [OF op] \<open>op = OpAck\<close> by simp
  ultimately have "d = encode (Ack b) @ rest"
    using d by (simp add: encode_simps put_u16_from_be)
  then show "\<exists>rest. d = encode (Ack b) @ rest" ..
next
  assume "\<exists>rest. d = encode (Ack b) @ rest"
  then show "decode d = Inr (Ack b)"
    by (auto simp: encode_simps decode_ack_def put_u16_def [of b])
qed

text \<open>The kind of an encoded packet is fixed by its first bytes, also when it is cut short.\<close>

lemma decode_take_not_Data:
  assumes "2 \<le> k" "decode (take k (encode p)) = Inr (Data b x)"
  shows "\<exists>b' x'. p = Data b' x'"
proof -
  have "take 2 (encode p) = take 2 (take k (encode p))" using assms(1) by (simp add: min_def)
  also have "\<dots> = put_u16 3"
    using assms(2) by (simp add: decode_Data_iff encode_simps)
  finally have t: "take 2 (encode p) = put_u16 3" .
  have "take 2 (put_u16 v @ ys) = put_u16 v" for v ys by simp
  with t show ?thesis
    by (cases p) (simp_all add: encode_simps put_u16_def)
qed

lemma decode_take_not_Ack:
  assumes "2 \<le> k" "decode (take k (encode p)) = Inr (Ack b)"
  shows "\<exists>b'. p = Ack b'"
proof -
  have "take 2 (encode p) = take 2 (take k (encode p))" using assms(1) by (simp add: min_def)
  also have "\<dots> = put_u16 4"
    using assms(2) by (auto simp: decode_Ack_iff encode_simps simp del: take_take)
  finally have t: "take 2 (encode p) = put_u16 4" .
  have "take 2 (put_u16 v @ ys) = put_u16 v" for v ys by simp
  with t show ?thesis
    by (cases p) (simp_all add: encode_simps put_u16_def)
qed

lemma decode_Oack_bytes: "decode d = Inr (Oack s) \<Longrightarrow> take 2 d = put_u16 6"
proof -
  assume a: "decode d = Inr (Oack s)"
  then obtain hi lo body op where d: "d = hi # lo # body"
    and op: "opcode_from_u16 (u16_from_be hi lo) = Inr op"
    by (auto simp: decode_def split: list.splits sum.splits)
  have r: "the (decode_request p bd) \<noteq> Inr (Oack s)" if "p = OpRrq \<or> p = OpWrq" for p bd
    using that by (auto simp: decode_request_def Let_def split: sum.splits prod.splits)
  from a d op r have "op = OpOack"
    by (cases op) (auto simp: decode_def decode_data_def decode_error_def decode_ack_def
        split: list.splits sum.splits prod.splits)
  with opcode_bytes [OF op] d show ?thesis by simp
qed

lemma decode_take_not_Oack:
  assumes "2 \<le> k" "decode (take k (encode p)) = Inr (Oack s)"
  shows "\<exists>s'. p = Oack s'"
proof -
  have "take 2 (encode p) = take 2 (take k (encode p))" using assms(1) by (simp add: min_def)
  also have "\<dots> = put_u16 6" using decode_Oack_bytes [OF assms(2)] .
  finally have t: "take 2 (encode p) = put_u16 6" .
  have "take 2 (put_u16 v @ ys) = put_u16 v" for v ys by simp
  with t show ?thesis
    by (cases p) (simp_all add: encode_simps put_u16_def)
qed

subsection \<open>Size of an OACK\<close>

lemma length_option_bytes: "length (option_bytes vs) \<le> 32 * length vs"
proof (induction vs)
  case (Cons v vs)
  then show ?case using option_name_length [of v] option_value_string_length [of v] by simp
qed simp

lemma length_encode_oack: "option_set_ok s \<Longrightarrow> length (encode (Oack s)) \<le> 130"
  using length_option_bytes [of "items s"] option_set_length [of s] by (simp add: encode_simps)

subsection \<open>Properties\<close>

text \<open>C17: Every well-formed packet (strings without NUL and valid UTF-8, a valid option set) is read
  back unchanged from its encoding.\<close>

theorem packet_roundtrip:
  assumes "packet_ok p"
  shows "decode (encode p) = Inr p"
  using assms by (rule decode_encode)

theorem packet_roundtrip_witness:
  "decode (encode (Rrq [97, 46, 98] NetAscii \<lparr>items = [BlockSize 1024, TransferSize 0]\<rparr>))
     = Inr (Rrq [97, 46, 98] NetAscii \<lparr>items = [BlockSize 1024, TransferSize 0]\<rparr>)"
  by (rule packet_roundtrip)
    (simp add: cstr_ok_def utf8_valid_ascii option_set_ok_def ascii_lits proto_consts)

text \<open>C18: Whatever bytes arrive, a packet that \<open>decode\<close> returns is well-formed, and encoding it
  gives a canonical form that decodes to the same packet.\<close>

theorem decode_canonical:
  assumes "decode buf = Inr p"
  shows "packet_ok p \<and> decode (encode p) = Inr p"
  using decode_packet_ok [OF assms] decode_encode by blast

theorem decode_canonical_witness:
  "packet_ok (Ack 258) \<and> decode (encode (Ack 258)) = Inr (Ack 258)"
  by (rule decode_canonical [of "[0, 4, 1, 2, 99]"])
    (simp add: decode_def opcode_from_u16_def u16_from_be_def decode_ack_def)

text \<open>\<open>decode\<close> never runs into the \<open>unreachable!\<close> of \<open>decode_request\<close>, reports an unknown
  opcode exactly for the opcodes outside 1 to 6, and recognises DATA and ACK by their exact bytes
  (trailing bytes after an ACK are ignored).\<close>

lemma decode_kinds:
  "decode_request OpRrq body \<noteq> None \<and> decode_request OpWrq body \<noteq> None
   \<and> (decode (hi # lo # body) = Inl (UnknownOpcode v)
        \<longleftrightarrow> v = u16_from_be hi lo \<and> v \<notin> {1, 2, 3, 4, 5, 6})
   \<and> (decode d = Inr (Data b x) \<longleftrightarrow> d = encode (Data b x))
   \<and> (decode d = Inr (Ack b) \<longleftrightarrow> (\<exists>rest. d = encode (Ack b) @ rest))"
proof -
  have "decode (hi # lo # body) = Inl (UnknownOpcode v)
      \<longleftrightarrow> opcode_from_u16 (u16_from_be hi lo) = Inl (UnknownOpcode v)"
    using decode_request_no_unknown [of OpRrq body v] decode_request_no_unknown [of OpWrq body v]
    by (auto simp: decode_def decode_no_unknown split: sum.splits opcode.splits)
  then show ?thesis
    using decode_request_reached [of OpRrq body] decode_request_reached [of OpWrq body]
      decode_Data_iff [of d b x] decode_Ack_iff [of d b]
    by (auto simp: opcode_from_u16_Inl)
qed

end
