(* ===== verification/Transport.thy ===== *)
theory Transport
  imports Packet
begin

text \<open>
  The socket as the transfers see it. The UDP socket and the timer are outside the
  repository, so nothing is assumed about them: what a \<open>recv_from\<close> under a deadline
  delivers is an input event \<open>rx\<close> (deadline passed, I/O error, datagram from an address),
  and whether a \<open>send_to\<close> succeeds is read from the list \<open>faults\<close> (sends succeed once it
  is used up). Theorems quantify over all events and all fault lists. The record \<open>net\<close>
  also keeps what was sent (\<open>outbox\<close>) and the duration of every deadline that was set.

  \<open>recv_one\<close>, \<open>send_error\<close> and \<open>send_ack\<close> are the helpers of \<^verbatim>\<open>server.rs\<close> and \<^verbatim>\<open>client.rs\<close>.
  A transfer task is a machine: a state that waits in a receive, and a step per event.
\<close>

datatype sockaddr = V4 u32 u16 | V6 "128 word" u16 u32 u32

text \<open>
  The local address of a transfer's socket (\<open>bind_local\<close> of the client, \<open>handle_initial\<close> of
  the server): any port, the address family of the argument.
\<close>

fun bind_addr_for :: "sockaddr \<Rightarrow> sockaddr" where
  "bind_addr_for (V4 _ _) = V4 0 0"
| "bind_addr_for (V6 _ _ _ _) = V6 0 0 0 0"

type_synonym datagram = "sockaddr \<times> bytes"

text \<open>A \<open>Duration\<close> is its number of nanoseconds.\<close>

type_synonym duration = nat

definition from_secs :: "nat \<Rightarrow> duration" where
  "from_secs s = s * 1000000000"

record net =
  outbox :: "datagram list"
  faults :: "io_error option list"
  deadlines :: "duration list"

definition net_new :: "io_error option list \<Rightarrow> net" where
  "net_new fs = \<lparr>outbox = [], faults = fs, deadlines = []\<rparr>"

definition send_to :: "sockaddr \<Rightarrow> bytes \<Rightarrow> net \<Rightarrow> (error + unit) \<times> net" where
  "send_to dst buf n =
     (case faults n of
        [] \<Rightarrow> (Inr (), n\<lparr>outbox := outbox n @ [(dst, buf)]\<rparr>)
      | None # fs \<Rightarrow> (Inr (), n\<lparr>outbox := outbox n @ [(dst, buf)], faults := fs\<rparr>)
      | Some e # fs \<Rightarrow> (Inl (Io e), n\<lparr>faults := fs\<rparr>))"

text \<open>\<open>Instant::now() + d\<close> followed by \<open>timeout_at\<close>.\<close>

definition arm :: "duration \<Rightarrow> net \<Rightarrow> net" where
  "arm d n = n\<lparr>deadlines := deadlines n @ [d]\<rparr>"

datatype rx = RxTimeout | RxError io_error | RxFrom sockaddr bytes

text \<open>A receive copies at most the buffer's length; the rest of a datagram is lost.\<close>

definition rx_buffer :: "bytes \<Rightarrow> bytes" where
  "rx_buffer d = take MAX_PACKET_SIZE d"

subsection \<open>Helpers of the transfers\<close>

datatype received = Elapsed | Failed error | Stray | Packet_From_Peer bytes

definition unknown_tid_packet :: bytes where
  "unknown_tid_packet = encode (ErrorPkt UnknownTid (ascii ''unknown transfer id''))"

text \<open>
  One turn of the loop of \<open>recv_one\<close>: a datagram from another address is answered, the
  result of that send is ignored, and the wait goes on under the same deadline (\<open>Stray\<close>).
\<close>

definition recv_one :: "sockaddr \<Rightarrow> rx \<Rightarrow> net \<Rightarrow> received \<times> net" where
  "recv_one expected ev n =
     (case ev of
        RxTimeout \<Rightarrow> (Elapsed, n)
      | RxError e \<Rightarrow> (Failed (Io e), n)
      | RxFrom src d \<Rightarrow>
          if src \<noteq> expected then (Stray, snd (send_to src unknown_tid_packet n))
          else (Packet_From_Peer (rx_buffer d), n))"

definition send_error :: "sockaddr \<Rightarrow> error_code \<Rightarrow> str \<Rightarrow> net \<Rightarrow> net" where
  "send_error peer code msg n = snd (send_to peer (encode (ErrorPkt code msg)) n)"

definition send_ack :: "sockaddr \<Rightarrow> u16 \<Rightarrow> net \<Rightarrow> (error + unit) \<times> net" where
  "send_ack peer block n = send_to peer (encode (Ack block)) n"

subsection \<open>Tasks as machines\<close>

text \<open>
  A task waits in a receive (\<open>Running\<close>), has returned (\<open>Done\<close>) or has panicked.
\<close>

datatype ('s, 'r) progress = Running 's | Done "error + 'r" 's | Panicked 's

fun drive :: "(rx \<Rightarrow> 's \<Rightarrow> ('s, 'r) progress) \<Rightarrow> ('s, 'r) progress \<Rightarrow> rx list \<Rightarrow> ('s, 'r) progress" where
  "drive step (Running s) (ev # evs) = drive step (step ev s) evs"
| "drive step p evs = p"

fun state_of :: "('s, 'r) progress \<Rightarrow> 's" where
  "state_of (Running s) = s"
| "state_of (Done r s) = s"
| "state_of (Panicked s) = s"

lemma drive_Nil [simp]: "drive step p [] = p"
  by (cases p) simp_all

lemma drive_Done [simp]: "drive step (Done r s) evs = Done r s"
  by simp

lemma drive_append: "drive step p (xs @ ys) = drive step (drive step p xs) ys"
proof (induction xs arbitrary: p)
  case (Cons x xs)
  then show ?case by (cases p) simp_all
qed simp

text \<open>An invariant of the machine: kept by every step, it holds after every run.\<close>

lemma drive_invariant:
  assumes "I (state_of p)"
    and "\<And>ev s. I s \<Longrightarrow> I (state_of (step ev s))"
  shows "I (state_of (drive step p evs))"
  using assms(1)
proof (induction evs arbitrary: p)
  case (Cons ev evs)
  then show ?case using assms(2) by (cases p) auto
qed simp

text \<open>An invariant of the waiting states only.\<close>

lemma drive_running:
  assumes "\<And>s. p = Running s \<Longrightarrow> I s"
    and "\<And>ev s s'. I s \<Longrightarrow> step ev s = Running s' \<Longrightarrow> I s'"
  shows "drive step p evs = Running s \<Longrightarrow> I s"
  using assms(1)
proof (induction evs arbitrary: p)
  case (Cons ev evs)
  then show ?case using assms(2) by (cases p) auto
qed simp

subsection \<open>Retransmission as an interface\<close>

text \<open>
  A waiting task with an attempt counter: below the retry limit a timeout resends and counts
  one attempt, at the limit it ends the task. \<open>ok\<close> is what the network state must satisfy
  for the resend to succeed.
\<close>

locale retrying =
  fixes step :: "rx \<Rightarrow> 's \<Rightarrow> ('s, 'r) progress" and st :: "u32 \<Rightarrow> net \<Rightarrow> 's"
    and ok :: "net \<Rightarrow> bool" and retries :: u32
  assumes resend: "ok n \<Longrightarrow> a < retries \<Longrightarrow>
      \<exists>n'. ok n' \<and> step RxTimeout (st a n) = Running (st (a + 1) n')"
    and give_up: "ok n \<Longrightarrow> \<exists>s'. step RxTimeout (st retries n) = Done (Inl (TimedOut retries)) s'"
begin

lemma silence_ends:
  "ok n \<Longrightarrow> a \<le> retries \<Longrightarrow>
   \<exists>s'. drive step (Running (st a n)) (replicate (unat retries - unat a + 1) RxTimeout)
     = Done (Inl (TimedOut retries)) s'"
proof (induction "unat retries - unat a" arbitrary: a n)
  case 0
  then have "a = retries" by (simp add: word_le_nat_alt word_unat_eq_iff)
  with give_up [OF 0(2)] show ?case by auto
next
  case (Suc k)
  then have lt: "a < retries" by (simp add: word_less_nat_alt)
  from resend [OF Suc.prems(1) this] obtain n' where
    n': "ok n'" "step RxTimeout (st a n) = Running (st (a + 1) n')" by blast
  note inc = unat_inc_no_overflow [OF lt]
  have "k = unat retries - unat (a + 1)" "a + 1 \<le> retries"
    using Suc.hyps(2) inc lt by (simp_all add: word_le_nat_alt word_less_nat_alt)
  from Suc.hyps(1) [OF this(1) n'(1) this(2)] obtain s' where
    "drive step (Running (st (a + 1) n')) (replicate (k + 1) RxTimeout) = Done (Inl (TimedOut retries)) s'"
    using \<open>k = _\<close> by auto
  moreover have "replicate (unat retries - unat a + 1) RxTimeout = RxTimeout # replicate (k + 1) RxTimeout"
    using Suc.hyps(2) by simp
  ultimately show ?case using n'(2) by auto
qed

end

subsection \<open>What a send does\<close>

lemma send_to_outbox:
  "outbox (snd (send_to dst buf n)) = outbox n @ [(dst, buf)]
   \<or> outbox (snd (send_to dst buf n)) = outbox n"
  by (auto simp: send_to_def split: list.splits option.splits)

lemma send_to_sent: "send_to dst buf n = (r, n') \<Longrightarrow> r = Inr u \<Longrightarrow> (dst, buf) \<in> set (outbox n')"
  by (auto simp: send_to_def split: list.splits option.splits)

lemma send_to_ok [simp]:
  "faults n = [] \<Longrightarrow> send_to dst buf n = (Inr (), n\<lparr>outbox := outbox n @ [(dst, buf)]\<rparr>)"
  by (simp add: send_to_def)

lemma send_to_deadlines [frame_simps]: "deadlines (snd (send_to dst buf n)) = deadlines n"
  by (simp add: send_to_def split: list.splits option.splits)

lemma arm_frame [simp, frame_simps]:
  "outbox (arm d n) = outbox n" "faults (arm d n) = faults n"
  "deadlines (arm d n) = deadlines n @ [d]"
  by (simp_all add: arm_def)

text \<open>
  \<open>sends_only P n n'\<close>: between \<open>n\<close> and \<open>n'\<close> only datagrams satisfying \<open>P\<close> were sent.
\<close>

definition sends_only :: "(datagram \<Rightarrow> bool) \<Rightarrow> net \<Rightarrow> net \<Rightarrow> bool" where
  "sends_only P n n' \<longleftrightarrow> (\<exists>new. outbox n' = outbox n @ new \<and> (\<forall>x \<in> set new. P x))"

lemma sends_only_refl [simp, intro]: "sends_only P n n"
  by (simp add: sends_only_def)

lemma sends_only_trans: "sends_only P n n' \<Longrightarrow> sends_only P n' n'' \<Longrightarrow> sends_only P n n''"
  by (fastforce simp: sends_only_def)

lemma sends_only_mono: "sends_only P n n' \<Longrightarrow> (\<And>x. P x \<Longrightarrow> Q x) \<Longrightarrow> sends_only Q n n'"
  by (fastforce simp: sends_only_def)

lemma sends_only_outbox:
  "sends_only P n n' \<Longrightarrow> x \<in> set (outbox n') \<Longrightarrow> x \<in> set (outbox n) \<or> P x"
  by (auto simp: sends_only_def)

lemma sends_only_keeps: "sends_only P n n' \<Longrightarrow> x \<in> set (outbox n) \<Longrightarrow> x \<in> set (outbox n')"
  by (auto simp: sends_only_def)

lemma sends_only_send: "P (dst, buf) \<Longrightarrow> sends_only P n (snd (send_to dst buf n))"
  using send_to_outbox [of dst buf n] by (auto simp: sends_only_def)

lemma sends_only_arm [simp]: "sends_only P n (arm d n') \<longleftrightarrow> sends_only P n n'"
  by (simp add: sends_only_def)

lemma sends_only_send_ack: "P (p, encode (Ack b)) \<Longrightarrow> sends_only P n (snd (send_ack p b n))"
  unfolding send_ack_def by (rule sends_only_send)

lemma sends_only_send_error:
  "P (p, encode (ErrorPkt c m)) \<Longrightarrow> sends_only P n (send_error p c m n)"
  unfolding send_error_def by (rule sends_only_send)

lemma recv_one_sends:
  "recv_one p ev n = (r, n') \<Longrightarrow> (\<And>src. src \<noteq> p \<Longrightarrow> P (src, unknown_tid_packet)) \<Longrightarrow> sends_only P n n'"
  by (auto simp: recv_one_def intro: sends_only_send split: rx.splits if_splits)

lemma recv_one_faults: "faults n = [] \<Longrightarrow> faults (snd (recv_one p ev n)) = []"
  by (auto simp: recv_one_def split: rx.splits)

lemma rx_buffer_short [simp]: "length d \<le> MAX_PACKET_SIZE \<Longrightarrow> rx_buffer d = d"
  by (simp add: rx_buffer_def)

lemma MAX_PACKET_SIZE_eq: "MAX_PACKET_SIZE = 65468"
  by (simp add: MAX_PACKET_SIZE_def MAX_BLOCK_SIZE_def)

lemma recv_one_deadlines [simp]: "deadlines (snd (recv_one p ev n)) = deadlines n"
  by (auto simp: recv_one_def send_to_deadlines split: rx.splits)

lemma send_error_deadlines [simp]: "deadlines (send_error p c m n) = deadlines n"
  by (simp add: send_error_def send_to_deadlines)

lemma send_ack_deadlines [simp]: "deadlines (snd (send_ack p b n)) = deadlines n"
  by (simp add: send_ack_def send_to_deadlines)

end
