(* ===== verification/Negotiation.thy ===== *)
theory Negotiation
  imports Transport
begin

text \<open>
  Configuration and option negotiation on both sides: \<open>Config\<close> and \<open>negotiate\<close> of
  \<^verbatim>\<open>server.rs\<close>, \<open>Options\<close>, \<open>build_request_options\<close> and \<open>merge_oack\<close> of \<^verbatim>\<open>client.rs\<close>, and
  the \<open>Negotiated\<close> record each of them has.

  \<open>Ord::clamp\<close> panics when its bounds are crossed: \<open>None\<close> is that panic, so \<open>negotiate\<close>
  returns an option.
\<close>

record config =
  cf_listen :: sockaddr
  cf_root :: bytes
  cf_allow_overwrite :: bool
  cf_timeout :: duration
  cf_retries :: u32
  cf_max_block_size :: u16
  cf_allow_windowsize :: bool

definition config_default :: config where
  "config_default =
     \<lparr>cf_listen = V4 0 69, cf_root = ascii ''.'', cf_allow_overwrite = False,
      cf_timeout = from_secs (unat DEFAULT_TIMEOUT_SECS), cf_retries = 5,
      cf_max_block_size = MAX_BLOCK_SIZE, cf_allow_windowsize = True\<rparr>"

record client_options =
  op_mode :: mode
  op_blksize :: "u16 option"
  op_timeout_secs :: "u8 option"
  op_windowsize :: "u16 option"
  op_request_tsize :: bool
  op_retries :: u32
  op_timeout :: duration

definition client_options_default :: client_options where
  "client_options_default =
     \<lparr>op_mode = Octet, op_blksize = None, op_timeout_secs = None, op_windowsize = None,
      op_request_tsize = False, op_retries = 5,
      op_timeout = from_secs (unat DEFAULT_TIMEOUT_SECS)\<rparr>"

record negotiated =
  ng_blksize :: u16
  ng_timeout :: duration
  ng_windowsize :: u16

definition negotiated_defaults :: negotiated where
  "negotiated_defaults =
     \<lparr>ng_blksize = DEFAULT_BLOCK_SIZE, ng_timeout = from_secs (unat DEFAULT_TIMEOUT_SECS),
      ng_windowsize = DEFAULT_WINDOW_SIZE\<rparr>"

definition clamp_u16 :: "u16 \<Rightarrow> u16 \<Rightarrow> u16 \<Rightarrow> u16 option" where
  "clamp_u16 x lo hi =
     (if hi < lo then None else Some (if x < lo then lo else if hi < x then hi else x))"

subsection \<open>The server's answer\<close>

definition negotiate_blksize ::
  "config \<Rightarrow> option_set \<Rightarrow> option_set \<times> negotiated \<Rightarrow> (option_set \<times> negotiated) option" where
  "negotiate_blksize cfg requested acc =
     (case acc of (out, neg) \<Rightarrow>
       case block_size requested of
         Some b \<Rightarrow>
           (case clamp_u16 b MIN_BLOCK_SIZE (cf_max_block_size cfg) of
              Some chosen \<Rightarrow>
                Some (option_set_insert (BlockSize chosen) out, neg\<lparr>ng_blksize := chosen\<rparr>)
            | None \<Rightarrow> None)
       | None \<Rightarrow> Some (out, neg))"

definition negotiate_timeout ::
  "option_set \<Rightarrow> option_set \<times> negotiated \<Rightarrow> option_set \<times> negotiated" where
  "negotiate_timeout requested acc =
     (case acc of (out, neg) \<Rightarrow>
       case timeout_opt requested of
         Some t \<Rightarrow>
           (let chosen = max t 1 in
            (option_set_insert (TimeoutOpt chosen) out, neg\<lparr>ng_timeout := from_secs (unat chosen)\<rparr>))
       | None \<Rightarrow> (out, neg))"

definition negotiate_tsize ::
  "option_set \<Rightarrow> u64 option \<Rightarrow> option_set \<times> negotiated \<Rightarrow> option_set \<times> negotiated" where
  "negotiate_tsize requested file_size acc =
     (case acc of (out, neg) \<Rightarrow>
       case transfer_size requested of
         Some claimed \<Rightarrow>
           (case file_size of
              Some sz \<Rightarrow> (option_set_insert (TransferSize sz) out, neg)
            | None \<Rightarrow> (option_set_insert (TransferSize claimed) out, neg))
       | None \<Rightarrow> (out, neg))"

definition negotiate_windowsize ::
  "config \<Rightarrow> option_set \<Rightarrow> option_set \<times> negotiated \<Rightarrow> option_set \<times> negotiated" where
  "negotiate_windowsize cfg requested acc =
     (case acc of (out, neg) \<Rightarrow>
       case window_size requested of
         Some w \<Rightarrow>
           (if cf_allow_windowsize cfg then
              (let chosen = max w 1 in
               (option_set_insert (WindowSize chosen) out, neg\<lparr>ng_windowsize := chosen\<rparr>))
            else (out, neg))
       | None \<Rightarrow> (out, neg))"

definition negotiate ::
  "config \<Rightarrow> option_set \<Rightarrow> u64 option \<Rightarrow> (option_set \<times> negotiated) option" where
  "negotiate cfg requested file_size =
     (case negotiate_blksize cfg requested (option_set_new, negotiated_defaults) of
        None \<Rightarrow> None
      | Some acc \<Rightarrow>
          Some (negotiate_windowsize cfg requested
                 (negotiate_tsize requested file_size (negotiate_timeout requested acc))))"

subsection \<open>The client's request and its reading of the OACK\<close>

definition build_request_options :: "client_options \<Rightarrow> u64 option \<Rightarrow> option_set" where
  "build_request_options opts tsize_for_put =
     (let s0 = option_set_new;
          s1 = (case op_blksize opts of Some b \<Rightarrow> option_set_insert (BlockSize b) s0 | None \<Rightarrow> s0);
          s2 = (case op_timeout_secs opts of Some t \<Rightarrow> option_set_insert (TimeoutOpt t) s1 | None \<Rightarrow> s1);
          s3 = (if op_request_tsize opts
                then option_set_insert
                       (TransferSize (case tsize_for_put of Some n \<Rightarrow> n | None \<Rightarrow> 0)) s2
                else s2)
      in case op_windowsize opts of Some w \<Rightarrow> option_set_insert (WindowSize w) s3 | None \<Rightarrow> s3)"

definition merge_oack :: "negotiated \<Rightarrow> option_set \<Rightarrow> negotiated" where
  "merge_oack initial oack =
     (let n1 = (case block_size oack of Some b \<Rightarrow> initial\<lparr>ng_blksize := b\<rparr> | None \<Rightarrow> initial);
          n2 = (case timeout_opt oack of Some t \<Rightarrow> n1\<lparr>ng_timeout := from_secs (unat t)\<rparr> | None \<Rightarrow> n1)
      in case window_size oack of Some w \<Rightarrow> n2\<lparr>ng_windowsize := w\<rparr> | None \<Rightarrow> n2)"

subsection \<open>Bounds\<close>

text \<open>The parameters a transfer may run with.\<close>

definition negotiated_ok :: "negotiated \<Rightarrow> bool" where
  "negotiated_ok n \<longleftrightarrow>
     MIN_BLOCK_SIZE \<le> ng_blksize n \<and> ng_blksize n \<le> MAX_BLOCK_SIZE \<and> ng_windowsize n \<noteq> 0"

lemma negotiated_defaults_ok [simp]: "negotiated_ok negotiated_defaults"
  by (simp add: negotiated_ok_def negotiated_defaults_def proto_consts)

lemma field_valid:
  assumes "option_set_ok s"
  shows "block_size s = Some b \<Longrightarrow> MIN_BLOCK_SIZE \<le> b \<and> b \<le> MAX_BLOCK_SIZE"
    and "timeout_opt s = Some t \<Longrightarrow> t \<noteq> 0"
    and "window_size s = Some w \<Longrightarrow> w \<noteq> 0"
  using assms
  by (force simp: option_set_ok_def dest!: blk.get_pick tmo.get_pick win.get_pick
      split: option_value.splits)+

lemma clamp_u16_bounds:
  "clamp_u16 x lo hi = Some c \<Longrightarrow> lo \<le> c \<and> c \<le> hi \<and> (lo \<le> x \<longrightarrow> c \<le> x)"
  by (auto simp: clamp_u16_def split: if_splits)

lemma clamp_u16_None_iff: "clamp_u16 x lo hi = None \<longleftrightarrow> hi < lo"
  by (simp add: clamp_u16_def)

lemma max_one_word: "(w :: 'a::len word) \<noteq> 0 \<Longrightarrow> max w 1 = w"
  unfolding max_def by unat_arith

lemma max_one_nonzero [simp]: "max (w :: 'a::len word) 1 \<noteq> 0"
  unfolding max_def by unat_arith

lemma negotiated_bsize_pos: "negotiated_ok n \<Longrightarrow> 0 < unat (ng_blksize n)"
  by (auto simp: negotiated_ok_def MIN_BLOCK_SIZE_def word_le_nat_alt)

lemma negotiated_window_pos: "negotiated_ok n \<Longrightarrow> 0 < unat (ng_windowsize n)"
  by (simp add: negotiated_ok_def unat_gt_0)

subsection \<open>What the negotiation guarantees\<close>

text \<open>Each step of \<open>negotiate\<close> writes its own field of the answer and of the parameters.\<close>

lemma negotiate_blksize_simps:
  assumes "negotiate_blksize cfg req acc = Some acc'"
  shows "timeout_opt (fst acc') = timeout_opt (fst acc)"
    "transfer_size (fst acc') = transfer_size (fst acc)"
    "window_size (fst acc') = window_size (fst acc)"
    "ng_timeout (snd acc') = ng_timeout (snd acc)"
    "ng_windowsize (snd acc') = ng_windowsize (snd acc)"
    "block_size req = None \<Longrightarrow> acc' = acc"
    "block_size req = Some b \<Longrightarrow>
       block_size (fst acc') = clamp_u16 b MIN_BLOCK_SIZE (cf_max_block_size cfg)
       \<and> block_size (fst acc') = Some (ng_blksize (snd acc'))"
  using assms by (auto simp: negotiate_blksize_def split: prod.splits option.splits)

lemma negotiate_timeout_simps [simp]:
  "block_size (fst (negotiate_timeout req acc)) = block_size (fst acc)"
  "transfer_size (fst (negotiate_timeout req acc)) = transfer_size (fst acc)"
  "window_size (fst (negotiate_timeout req acc)) = window_size (fst acc)"
  "timeout_opt (fst (negotiate_timeout req acc)) =
     (case timeout_opt req of Some t \<Rightarrow> Some (max t 1) | None \<Rightarrow> timeout_opt (fst acc))"
  "ng_blksize (snd (negotiate_timeout req acc)) = ng_blksize (snd acc)"
  "ng_windowsize (snd (negotiate_timeout req acc)) = ng_windowsize (snd acc)"
  "ng_timeout (snd (negotiate_timeout req acc)) =
     (case timeout_opt req of Some t \<Rightarrow> from_secs (unat (max t 1)) | None \<Rightarrow> ng_timeout (snd acc))"
  by (simp_all add: negotiate_timeout_def Let_def split: prod.splits option.splits)

lemma negotiate_tsize_simps [simp]:
  "block_size (fst (negotiate_tsize req fs acc)) = block_size (fst acc)"
  "timeout_opt (fst (negotiate_tsize req fs acc)) = timeout_opt (fst acc)"
  "window_size (fst (negotiate_tsize req fs acc)) = window_size (fst acc)"
  "transfer_size (fst (negotiate_tsize req fs acc)) =
     (case transfer_size req of
        Some claimed \<Rightarrow> (case fs of Some sz \<Rightarrow> Some sz | None \<Rightarrow> Some claimed)
      | None \<Rightarrow> transfer_size (fst acc))"
  "snd (negotiate_tsize req fs acc) = snd acc"
  by (simp_all add: negotiate_tsize_def split: prod.splits option.splits)

lemma negotiate_windowsize_simps [simp]:
  "block_size (fst (negotiate_windowsize cfg req acc)) = block_size (fst acc)"
  "timeout_opt (fst (negotiate_windowsize cfg req acc)) = timeout_opt (fst acc)"
  "transfer_size (fst (negotiate_windowsize cfg req acc)) = transfer_size (fst acc)"
  "window_size (fst (negotiate_windowsize cfg req acc)) =
     (if window_size req = None \<or> \<not> cf_allow_windowsize cfg then window_size (fst acc)
      else Some (max (the (window_size req)) 1))"
  "ng_blksize (snd (negotiate_windowsize cfg req acc)) = ng_blksize (snd acc)"
  "ng_timeout (snd (negotiate_windowsize cfg req acc)) = ng_timeout (snd acc)"
  "ng_windowsize (snd (negotiate_windowsize cfg req acc)) =
     (if window_size req = None \<or> \<not> cf_allow_windowsize cfg then ng_windowsize (snd acc)
      else max (the (window_size req)) 1)"
  by (auto simp: negotiate_windowsize_def Let_def split: prod.splits option.splits)

lemma negotiate_panics_iff:
  "negotiate cfg req fs = None \<longleftrightarrow> block_size req \<noteq> None \<and> cf_max_block_size cfg < MIN_BLOCK_SIZE"
proof (cases "block_size req")
  case (Some b)
  then show ?thesis
    using clamp_u16_None_iff [of b MIN_BLOCK_SIZE "cf_max_block_size cfg"]
    by (auto simp: negotiate_def negotiate_blksize_def split: option.splits)
qed (simp add: negotiate_def negotiate_blksize_def)

text \<open>Each field of the answer as a function of the request, and the parameters from it.\<close>

lemma negotiate_fields:
  assumes "negotiate cfg req fs = Some (out, neg)"
  shows "block_size out = Option.bind (block_size req)
            (\<lambda>b. clamp_u16 b MIN_BLOCK_SIZE (cf_max_block_size cfg))"
    and "timeout_opt out = map_option (\<lambda>t. max t 1) (timeout_opt req)"
    and "transfer_size out =
           (if transfer_size req = None then None else if fs = None then transfer_size req else fs)"
    and "window_size out =
           (if cf_allow_windowsize cfg then map_option (\<lambda>w. max w 1) (window_size req) else None)"
    and "ng_blksize neg = (case block_size out of Some b \<Rightarrow> b | None \<Rightarrow> DEFAULT_BLOCK_SIZE)"
    and "ng_timeout neg = from_secs (unat (case timeout_opt out of Some t \<Rightarrow> t | None \<Rightarrow> DEFAULT_TIMEOUT_SECS))"
    and "ng_windowsize neg = (case window_size out of Some w \<Rightarrow> w | None \<Rightarrow> DEFAULT_WINDOW_SIZE)"
proof -
  obtain acc where b: "negotiate_blksize cfg req (option_set_new, negotiated_defaults) = Some acc"
    and on: "(out, neg) = negotiate_windowsize cfg req
      (negotiate_tsize req fs (negotiate_timeout req acc))"
    using assms by (auto simp: negotiate_def split: option.splits)
  have o: "out = fst (negotiate_windowsize cfg req (negotiate_tsize req fs (negotiate_timeout req acc)))"
    and n: "neg = snd (negotiate_windowsize cfg req (negotiate_tsize req fs (negotiate_timeout req acc)))"
    by (simp_all flip: on)
  note frame = negotiate_blksize_simps(1-5) [OF b]
  have bs: "block_size (fst acc) = Option.bind (block_size req)
       (\<lambda>b. clamp_u16 b MIN_BLOCK_SIZE (cf_max_block_size cfg))
     \<and> ng_blksize (snd acc) = (case block_size (fst acc) of Some b \<Rightarrow> b | None \<Rightarrow> DEFAULT_BLOCK_SIZE)"
    using negotiate_blksize_simps(6,7) [OF b]
    by (cases "block_size req") (auto simp: negotiated_defaults_def dest: sym split: option.splits)
  show "block_size out = Option.bind (block_size req)
            (\<lambda>b. clamp_u16 b MIN_BLOCK_SIZE (cf_max_block_size cfg))"
    using bs by (simp add: o)
  show "timeout_opt out = map_option (\<lambda>t. max t 1) (timeout_opt req)"
    by (simp add: o frame split: option.splits)
  show "transfer_size out =
      (if transfer_size req = None then None else if fs = None then transfer_size req else fs)"
    by (auto simp: o frame split: option.splits)
  show "window_size out =
      (if cf_allow_windowsize cfg then map_option (\<lambda>w. max w 1) (window_size req) else None)"
    by (auto simp: o frame)
  show "ng_blksize neg = (case block_size out of Some b \<Rightarrow> b | None \<Rightarrow> DEFAULT_BLOCK_SIZE)"
    using bs by (simp add: o n)
  show "ng_timeout neg = from_secs (unat (case timeout_opt out of Some t \<Rightarrow> t | None \<Rightarrow> DEFAULT_TIMEOUT_SECS))"
    by (simp add: o n frame negotiated_defaults_def split: option.splits)
  show "ng_windowsize neg = (case window_size out of Some w \<Rightarrow> w | None \<Rightarrow> DEFAULT_WINDOW_SIZE)"
    by (auto simp: o n frame negotiated_defaults_def)
qed

lemma merge_oack_fields:
  "ng_blksize (merge_oack n oack) = (case block_size oack of Some b \<Rightarrow> b | None \<Rightarrow> ng_blksize n)"
  "ng_timeout (merge_oack n oack) =
     (case timeout_opt oack of Some t \<Rightarrow> from_secs (unat t) | None \<Rightarrow> ng_timeout n)"
  "ng_windowsize (merge_oack n oack) = (case window_size oack of Some w \<Rightarrow> w | None \<Rightarrow> ng_windowsize n)"
  by (simp_all add: merge_oack_def Let_def split: option.splits)

lemma negotiate_merge:
  assumes "negotiate cfg req fs = Some (out, neg)"
  shows "merge_oack negotiated_defaults out = neg"
  using negotiate_fields(5-7) [OF assms]
  by (intro negotiated.equality)
    (simp_all add: merge_oack_fields negotiated_defaults_def split: option.splits)

lemma merge_oack_ok: "option_set_ok oack \<Longrightarrow> negotiated_ok n \<Longrightarrow> negotiated_ok (merge_oack n oack)"
  using field_valid [of oack]
  by (auto simp: merge_oack_fields negotiated_ok_def split: option.splits)

lemma negotiate_set_ok:
  assumes "negotiate cfg req fs = Some (out, neg)" "option_set_ok req"
  shows "option_set_ok out"
proof -
  obtain acc where b: "negotiate_blksize cfg req (option_set_new, negotiated_defaults) = Some acc"
    and on: "(out, neg) = negotiate_windowsize cfg req
      (negotiate_tsize req fs (negotiate_timeout req acc))"
    using assms(1) by (auto simp: negotiate_def split: option.splits)
  have "option_set_ok (fst acc)"
    using b clamp_u16_bounds field_valid(1) [OF assms(2)]
    by (fastforce simp: negotiate_blksize_def intro!: option_set_insert_ok split: option.splits)
  then have "option_set_ok (fst (negotiate_timeout req acc))"
    by (auto simp: negotiate_timeout_def Let_def intro!: option_set_insert_ok
        split: prod.splits option.splits)
  then have "option_set_ok (fst (negotiate_tsize req fs (negotiate_timeout req acc)))"
    by (auto simp: negotiate_tsize_def intro!: option_set_insert_ok
        split: prod.splits option.splits)
  then have "option_set_ok (fst (negotiate_windowsize cfg req
      (negotiate_tsize req fs (negotiate_timeout req acc))))"
    by (auto simp: negotiate_windowsize_def Let_def intro!: option_set_insert_ok
        split: prod.splits option.splits)
  then show ?thesis by (simp flip: on)
qed

lemma negotiate_neg_ok:
  assumes "negotiate cfg req fs = Some (out, neg)" "option_set_ok req"
  shows "negotiated_ok neg"
  using merge_oack_ok [OF negotiate_set_ok [OF assms] negotiated_defaults_ok]
  by (simp add: negotiate_merge [OF assms(1)])

lemma build_request_options_fields:
  "block_size (build_request_options opts sz) = op_blksize opts"
  "timeout_opt (build_request_options opts sz) = op_timeout_secs opts"
  "transfer_size (build_request_options opts sz) =
     (if op_request_tsize opts then Some (case sz of Some n \<Rightarrow> n | None \<Rightarrow> 0) else None)"
  "window_size (build_request_options opts sz) = op_windowsize opts"
  by (simp_all add: build_request_options_def Let_def split: option.splits)

lemma option_set_insert_nonempty [simp]: "\<not> option_set_is_empty (option_set_insert v s)"
  by (cases "items s") (simp_all add: option_set_is_empty_def option_set_insert_def)

lemma option_set_new_empty [simp]: "option_set_is_empty option_set_new"
  by (simp add: option_set_is_empty_def option_set_new_def)

lemma build_request_options_empty:
  "option_set_is_empty (build_request_options opts sz) \<longleftrightarrow>
     op_blksize opts = None \<and> op_timeout_secs opts = None \<and> op_windowsize opts = None
     \<and> \<not> op_request_tsize opts"
  by (auto simp: build_request_options_def Let_def split: option.splits)

lemma negotiate_nothing:
  "option_set_is_empty req \<Longrightarrow> negotiate cfg req fs = Some (option_set_new, negotiated_defaults)"
  by (simp add: option_set_is_empty_def negotiate_def negotiate_blksize_def negotiate_timeout_def
      negotiate_tsize_def negotiate_windowsize_def block_size_def timeout_opt_def transfer_size_def
      window_size_def)

text \<open>The client options whose request survives the wire.\<close>

definition client_options_ok :: "client_options \<Rightarrow> bool" where
  "client_options_ok opts \<longleftrightarrow>
     (case op_blksize opts of Some b \<Rightarrow> MIN_BLOCK_SIZE \<le> b \<and> b \<le> MAX_BLOCK_SIZE | None \<Rightarrow> True)
     \<and> op_timeout_secs opts \<noteq> Some 0 \<and> op_windowsize opts \<noteq> Some 0"

lemma build_request_options_ok:
  assumes "client_options_ok opts"
  shows "option_set_ok (build_request_options opts sz)"
proof -
  have add: "option_set_ok (case x of Some b \<Rightarrow> option_set_insert (C b) s | None \<Rightarrow> s)"
    if "option_set_ok s" "\<And>b. x = Some b \<Longrightarrow> option_valid (C b)" for s C and x :: "'x option"
    using that by (auto intro: option_set_insert_ok split: option.splits)
  show ?thesis
    using assms unfolding build_request_options_def Let_def client_options_ok_def
    by (auto intro!: add option_set_insert_ok split: option.splits)
qed

lemma negotiated_timeout:
  assumes "negotiate cfg req fs = Some (oack, neg)" "option_set_ok req"
  shows "ng_timeout neg = from_secs (case timeout_opt req of Some t \<Rightarrow> unat t | None \<Rightarrow> 5)"
  using negotiate_fields(2,6) [OF assms(1)] field_valid(2) [OF assms(2)]
  by (auto simp: max_one_word DEFAULT_TIMEOUT_SECS_def split: option.splits)

subsection \<open>Properties\<close>

text \<open>C21: The server and the client leave the handshake with the same parameters: merging the OACK
  into the client's defaults gives the server's negotiated block size, timeout and window. The OACK
  names an option exactly if the request did (a window only if the server allows it), and a request
  without options is answered without an OACK and served with the defaults.\<close>

theorem negotiation_agrees:
  assumes "negotiate cfg req fs = Some (oack, neg)"
  shows "merge_oack negotiated_defaults oack = neg
    \<and> (block_size oack \<noteq> None \<longleftrightarrow> block_size req \<noteq> None)
    \<and> (timeout_opt oack \<noteq> None \<longleftrightarrow> timeout_opt req \<noteq> None)
    \<and> (transfer_size oack \<noteq> None \<longleftrightarrow> transfer_size req \<noteq> None)
    \<and> (window_size oack \<noteq> None \<longleftrightarrow> window_size req \<noteq> None \<and> cf_allow_windowsize cfg)
    \<and> (option_set_is_empty req \<longrightarrow> option_set_is_empty oack \<and> neg = negotiated_defaults)"
proof -
  have "option_set_is_empty req \<longrightarrow> option_set_is_empty oack \<and> neg = negotiated_defaults"
    using negotiate_nothing [of req cfg fs] assms by (auto simp: option_set_is_empty_def option_set_new_def)
  moreover have "block_size oack \<noteq> None \<longleftrightarrow> block_size req \<noteq> None"
    using negotiate_fields(1) [OF assms] assms negotiate_panics_iff [of cfg req fs]
      clamp_u16_None_iff [of _ MIN_BLOCK_SIZE "cf_max_block_size cfg"]
    by (cases "block_size req") auto
  ultimately show ?thesis using negotiate_merge [OF assms] negotiate_fields(2-4) [OF assms] by auto
qed

theorem negotiation_agrees_witness:
  "\<exists>oack neg. negotiate config_default \<lparr>items = [BlockSize 1428, WindowSize 8]\<rparr> (Some 9) = Some (oack, neg)
     \<and> ng_blksize neg = 1428 \<and> merge_oack negotiated_defaults oack = neg"
proof -
  obtain oack neg where n: "negotiate config_default \<lparr>items = [BlockSize 1428, WindowSize 8]\<rparr> (Some 9)
      = Some (oack, neg)"
    using negotiate_panics_iff [of config_default "\<lparr>items = [BlockSize 1428, WindowSize 8]\<rparr>" "Some 9"]
    by (auto simp: config_default_def proto_consts)
  have "ng_blksize neg = 1428"
    using negotiate_fields(1,5) [OF n]
    by (simp add: block_size_def clamp_u16_def config_default_def proto_consts)
  with n negotiation_agrees [OF n] show ?thesis by blast
qed

text \<open>C22: The negotiated parameters are in range and never exceed what was asked for or configured:
  a block size between 8 and 65464, at most the configured cap and (for a request of a valid size) at
  most the requested one; a window of at least one block, refused when the server does not allow it.\<close>

theorem negotiation_bounds:
  assumes "negotiate cfg req fs = Some (oack, neg)" "option_set_ok req"
  shows "negotiated_ok neg \<and> option_set_ok oack
    \<and> (\<forall>b. block_size req = Some b \<longrightarrow> ng_blksize neg \<le> b \<and> ng_blksize neg \<le> cf_max_block_size cfg)
    \<and> (block_size req = None \<longrightarrow> ng_blksize neg = DEFAULT_BLOCK_SIZE)
    \<and> ng_windowsize neg =
        (case window_size req of Some w \<Rightarrow> if cf_allow_windowsize cfg then w else 1 | None \<Rightarrow> 1)
    \<and> ng_timeout neg = from_secs (case timeout_opt req of Some t \<Rightarrow> unat t | None \<Rightarrow> 5)"
proof -
  note f = negotiate_fields [OF assms(1)] and v = field_valid [OF assms(2)]
  have "ng_blksize neg \<le> b \<and> ng_blksize neg \<le> cf_max_block_size cfg" if "block_size req = Some b" for b
    using f(1,5) v(1) [OF that] that assms(1) negotiate_panics_iff [of cfg req fs]
      clamp_u16_bounds [of b MIN_BLOCK_SIZE "cf_max_block_size cfg"]
      clamp_u16_None_iff [of b MIN_BLOCK_SIZE "cf_max_block_size cfg"]
    by (cases "clamp_u16 b MIN_BLOCK_SIZE (cf_max_block_size cfg)") auto
  moreover have "block_size req = None \<Longrightarrow> ng_blksize neg = DEFAULT_BLOCK_SIZE"
    using f(1,5) by simp
  moreover have "ng_windowsize neg =
      (case window_size req of Some w \<Rightarrow> if cf_allow_windowsize cfg then w else 1 | None \<Rightarrow> 1)"
    using f(4,7) v(3) by (auto simp: max_one_word DEFAULT_WINDOW_SIZE_def split: option.splits)
  ultimately show ?thesis
    using negotiate_neg_ok [OF assms] negotiate_set_ok [OF assms] negotiated_timeout [OF assms] by blast
qed

theorem negotiation_bounds_witness:
  "\<exists>oack neg. negotiate (config_default\<lparr>cf_max_block_size := 1024\<rparr>) \<lparr>items = [BlockSize 8000]\<rparr> None
       = Some (oack, neg) \<and> negotiated_ok neg \<and> ng_blksize neg \<le> 1024"
proof -
  let ?cfg = "config_default\<lparr>cf_max_block_size := 1024\<rparr>" and ?req = "\<lparr>items = [BlockSize 8000]\<rparr>"
  obtain oack neg where n: "negotiate ?cfg ?req None = Some (oack, neg)"
    using negotiate_panics_iff [of ?cfg ?req None] by (auto simp: proto_consts)
  moreover have "option_set_ok ?req" by (simp add: option_set_ok_def proto_consts)
  ultimately show ?thesis
    using negotiation_bounds [OF n] by (auto simp: block_size_def)
qed

text \<open>C26: Negotiation panics exactly when the request has a block size and the configured
  maximum is below 8: \<open>clamp\<close> is then called with crossed bounds.\<close>

theorem negotiation_panics:
  "negotiate cfg req fs = None \<longleftrightarrow> block_size req \<noteq> None \<and> cf_max_block_size cfg < 8"
  by (simp add: negotiate_panics_iff MIN_BLOCK_SIZE_def)

end
