(* ===== verification/Path_Safe.thy ===== *)
theory Path_Safe
  imports Errors
begin

text \<open>
  \<^verbatim>\<open>path_safe.rs\<close>: resolving a requested filename against the server root. A path is the
  byte string of a Unix \<open>Path\<close>; \<open>components\<close>, \<open>is_absolute\<close> and \<open>path_join\<close> are the
  parts of \<open>std::path\<close> the function calls (Unix rules: separator \<open>/\<close>, no prefixes;
  empty and inner \<open>.\<close> components are skipped, a leading \<open>.\<close> is kept).

  The lemmas show which requests are refused, and that the components of an accepted path
  are those of the root followed by plain names.
\<close>

definition SEP :: u8 where "SEP = 47"
definition DOT :: u8 where "DOT = 46"

datatype component = RootDir | CurDir | ParentDir | Normal bytes

subsection \<open>What is used of \<open>std::path\<close>\<close>

fun split_sep :: "bytes \<Rightarrow> bytes list" where
  "split_sep [] = [[]]"
| "split_sep (b # bs) =
     (if b = SEP then [] # split_sep bs
      else (case split_sep bs of s # ss \<Rightarrow> (b # s) # ss | [] \<Rightarrow> [[b]]))"

definition body_component :: "bytes \<Rightarrow> component option" where
  "body_component s =
     (if s = [] \<or> s = [DOT] then None
      else if s = [DOT, DOT] then Some ParentDir
      else Some (Normal s))"

definition body_components :: "bytes \<Rightarrow> component list" where
  "body_components p = List.map_filter body_component (split_sep p)"

definition is_absolute :: "bytes \<Rightarrow> bool" where
  "is_absolute p \<longleftrightarrow> (case p of b # _ \<Rightarrow> b = SEP | [] \<Rightarrow> False)"

definition leading_cur_dir :: "bytes \<Rightarrow> bool" where
  "leading_cur_dir p \<longleftrightarrow> hd (split_sep p) = [DOT]"

definition components :: "bytes \<Rightarrow> component list" where
  "components p =
     (if is_absolute p then [RootDir] else if leading_cur_dir p then [CurDir] else [])
       @ body_components p"

definition path_join :: "bytes \<Rightarrow> bytes \<Rightarrow> bytes" where
  "path_join root p =
     (if is_absolute p then p
      else if root \<noteq> [] \<and> last root \<noteq> SEP then root @ [SEP] @ p
      else root @ p)"

subsection \<open>The resolver\<close>

fun reject_components :: "str \<Rightarrow> component list \<Rightarrow> error option" where
  "reject_components requested [] = None"
| "reject_components requested (c # cs) =
     (case c of
        Normal _ \<Rightarrow> reject_components requested cs
      | CurDir \<Rightarrow> reject_components requested cs
      | _ \<Rightarrow> Some (InvalidPath requested))"

definition resolve :: "bytes \<Rightarrow> str \<Rightarrow> error + bytes" where
  "resolve root requested =
     (if requested = [] \<or> 0 \<in> set requested then Inl (InvalidPath requested)
      else if is_absolute requested then Inl (InvalidPath requested)
      else (case reject_components requested (components requested) of
              Some e \<Rightarrow> Inl e
            | None \<Rightarrow> Inr (path_join root requested)))"

subsection \<open>Splitting and joining\<close>

definition is_normal :: "component \<Rightarrow> bool" where
  "is_normal c \<longleftrightarrow> (case c of Normal _ \<Rightarrow> True | _ \<Rightarrow> False)"

lemma split_sep_nonempty [simp]: "split_sep p \<noteq> []"
  by (induction p) (auto split: list.splits)

lemma split_sep_append_sep: "split_sep (p @ SEP # q) = split_sep p @ split_sep q"
  by (induction p) (auto split: list.splits)

lemma map_filter_append [simp]:
  "List.map_filter f (xs @ ys) = List.map_filter f xs @ List.map_filter f ys"
  by (simp add: List.map_filter_def)

lemma body_components_append_sep:
  "body_components (p @ SEP # q) = body_components p @ body_components q"
  by (simp add: body_components_def split_sep_append_sep)

lemma body_components_snoc_sep: "body_components (p @ [SEP]) = body_components p"
  using body_components_append_sep [of p "[]"]
  by (simp add: body_components_def body_component_def List.map_filter_def)

lemma body_components_join:
  assumes "root \<noteq> []" "\<not> is_absolute p"
  shows "body_components (path_join root p) = body_components root @ body_components p"
proof (cases "last root = SEP")
  case True
  with assms(1) obtain r where r: "root = r @ [SEP]"
    by (metis append_butlast_last_id)
  then show ?thesis
    using assms body_components_append_sep [of r p]
    by (simp add: path_join_def body_components_snoc_sep)
next
  case False
  then show ?thesis
    using assms body_components_append_sep [of root p] by (simp add: path_join_def)
qed

lemma leading_join:
  assumes "is_absolute root" "\<not> is_absolute p"
  shows "is_absolute (path_join root p)"
  using assms by (auto simp: path_join_def is_absolute_def split: list.splits)

lemma reject_components_eq:
  "reject_components r cs =
     (if \<forall>c \<in> set cs. is_normal c \<or> c = CurDir then None else Some (InvalidPath r))"
  by (induction cs) (auto simp: is_normal_def split: component.splits)

lemma body_component_not_root: "body_component s \<noteq> Some RootDir \<and> body_component s \<noteq> Some CurDir"
  by (simp add: body_component_def)

lemma set_body_components:
  "c \<in> set (body_components p) \<longleftrightarrow> (\<exists>s \<in> set (split_sep p). body_component s = Some c)"
  by (force simp: body_components_def List.map_filter_def image_iff)

lemma body_components_kinds:
  "c \<in> set (body_components p) \<Longrightarrow> is_normal c \<or> c = ParentDir"
  using body_component_not_root
  by (cases c) (auto simp: set_body_components is_normal_def)

lemma parent_in_components:
  "ParentDir \<in> set (components p) \<longleftrightarrow> [DOT, DOT] \<in> set (split_sep p)"
proof -
  have "ParentDir \<in> set (body_components p) \<longleftrightarrow> [DOT, DOT] \<in> set (split_sep p)"
    by (auto simp: set_body_components body_component_def split: if_splits intro!: bexI [of _ "[DOT, DOT]"])
  then show ?thesis by (auto simp: components_def)
qed

lemma components_safe_iff:
  assumes "\<not> is_absolute p"
  shows "(\<forall>c \<in> set (components p). is_normal c \<or> c = CurDir) \<longleftrightarrow> [DOT, DOT] \<notin> set (split_sep p)"
proof -
  have "\<not> is_normal ParentDir" by (simp add: is_normal_def)
  then show ?thesis
    using assms body_components_kinds [of _ p]
    by (auto simp: components_def simp flip: parent_in_components)
qed

lemma resolve_ok_iff:
  "resolve root r = Inr q \<longleftrightarrow>
     r \<noteq> [] \<and> 0 \<notin> set r \<and> \<not> is_absolute r \<and> [DOT, DOT] \<notin> set (split_sep r) \<and> q = path_join root r"
  using components_safe_iff [of r]
  by (auto simp: resolve_def reject_components_eq split: option.splits)

lemma resolve_err: "resolve root r = Inl e \<Longrightarrow> e = InvalidPath r"
  by (auto simp: resolve_def reject_components_eq split: if_splits option.splits)

lemma resolve_ok_body:
  assumes "resolve root r = Inr q"
  shows "\<forall>c \<in> set (body_components r). is_normal c"
proof -
  have "ParentDir \<notin> set (body_components r)"
    using assms parent_in_components [of r] by (auto simp: resolve_ok_iff components_def)
  then show ?thesis using body_components_kinds by blast
qed

text \<open>The path the root and a list of plain names stand for, walked component by component.\<close>

fun walk :: "bytes list \<Rightarrow> component list \<Rightarrow> bytes list" where
  "walk dir [] = dir"
| "walk dir (c # cs) =
     (case c of
        RootDir \<Rightarrow> walk [] cs
      | CurDir \<Rightarrow> walk dir cs
      | ParentDir \<Rightarrow> walk (butlast dir) cs
      | Normal s \<Rightarrow> walk (dir @ [s]) cs)"

lemma walk_append: "walk dir (xs @ ys) = walk (walk dir xs) ys"
  by (induction dir xs rule: walk.induct) (auto split: component.splits)

lemma walk_normal:
  "\<forall>c \<in> set cs. is_normal c \<Longrightarrow> \<exists>names. walk dir cs = dir @ names \<and> map Normal names = cs"
proof (induction cs arbitrary: dir)
  case (Cons c cs)
  then obtain s where c: "c = Normal s"
    by (auto simp: is_normal_def split: component.splits)
  from Cons.prems have "\<forall>c \<in> set cs. is_normal c" by simp
  from Cons.IH [OF this, of "dir @ [s]"]
  obtain names where "walk (dir @ [s]) cs = (dir @ [s]) @ names" "map Normal names = cs"
    by blast
  with c show ?case by (auto intro!: exI [of _ "s # names"])
qed simp

subsection \<open>Properties\<close>

text \<open>C20: Exactly the empty names, the names with a NUL, the absolute paths and the paths with a
  \<open>..\<close> component are refused, all with \<open>InvalidPath\<close>; any other name is joined to the root.\<close>

theorem resolve_decides:
  "resolve root r =
     (if r = [] \<or> 0 \<in> set r \<or> is_absolute r \<or> [DOT, DOT] \<in> set (split_sep r)
      then Inl (InvalidPath r) else Inr (path_join root r))"
proof (cases "resolve root r")
  case (Inl e)
  with resolve_err [OF Inl] resolve_ok_iff [of root r "path_join root r"] show ?thesis by auto
next
  case (Inr q)
  with resolve_ok_iff [of root r q] show ?thesis by auto
qed

text \<open>C19: An accepted name cannot leave the root: walking the resolved path from the file system's
  root arrives at the directory of the server root followed by the plain names of the request.\<close>

theorem resolve_confined:
  assumes "is_absolute root" "resolve root r = Inr q"
  shows "\<exists>names. walk [] (components q) = walk [] (components root) @ names
     \<and> map Normal names = body_components r"
proof -
  have ok: "\<not> is_absolute r" "q = path_join root r" and ne: "root \<noteq> []"
    using assms by (auto simp: resolve_ok_iff is_absolute_def)
  have "components q = components root @ body_components r"
    using leading_join [OF assms(1) ok(1)] body_components_join [OF ne ok(1)] ok(2) assms(1)
    by (simp add: components_def)
  with walk_normal [OF resolve_ok_body [OF assms(2)], of "walk [] (components root)"]
  show ?thesis by (simp add: walk_append)
qed

theorem resolve_confined_witness:
  "\<exists>names. walk [] (components [47, 115, 47, 97]) = walk [] (components [47, 115]) @ names
     \<and> map Normal names = body_components [97]"
  by (rule resolve_confined)
    (simp_all add: is_absolute_def SEP_def resolve_ok_iff DOT_def path_join_def)

end
