(* ===== verification/Netascii.thy ===== *)
theory Netascii
  imports Prelude
begin

text \<open>
  \<^verbatim>\<open>netascii.rs\<close>: the streaming translators between disk bytes and netascii wire bytes.
  \<open>to_wire_translate\<close> and \<open>from_wire_translate\<close> follow the two \<open>translate\<close> loops, which
  append to an output vector; \<open>from_wire_finish\<close> flushes a trailing CR. The functions
  \<open>encode_chunk\<close>, \<open>decode_chunk\<close> and \<open>decode_tail\<close> are the four-line \<open>match\<close> on the
  optional translator that the senders and receivers share.
\<close>

definition CR :: u8 where "CR = 13"
definition LF :: u8 where "LF = 10"

subsection \<open>Disk to wire\<close>

datatype to_wire = ToWire

fun to_wire_loop :: "bytes \<Rightarrow> bytes \<Rightarrow> bytes" where
  "to_wire_loop [] out = out"
| "to_wire_loop (b # input) out =
     to_wire_loop input
       (if b = LF then (out @ [CR]) @ [LF]
        else if b = CR then (out @ [CR]) @ [0]
        else out @ [b])"

definition to_wire_translate :: "to_wire \<Rightarrow> bytes \<Rightarrow> bytes \<Rightarrow> nat \<times> bytes" where
  "to_wire_translate e input out = (length input, to_wire_loop input out)"

subsection \<open>Wire to disk\<close>

record from_wire =
  pending_cr :: bool

definition from_wire_new :: from_wire where
  "from_wire_new = \<lparr>pending_cr = False\<rparr>"

fun from_wire_translate :: "from_wire \<Rightarrow> bytes \<Rightarrow> bytes \<Rightarrow> from_wire \<times> bytes" where
  "from_wire_translate d [] out = (d, out)"
| "from_wire_translate d (b # input) out =
     (if pending_cr d then
        from_wire_translate (d\<lparr>pending_cr := False\<rparr>) input
          (if b = LF then out @ [LF]
           else if b = 0 then out @ [CR]
           else (out @ [CR]) @ [b])
      else if b = CR then from_wire_translate (d\<lparr>pending_cr := True\<rparr>) input out
      else from_wire_translate d input (out @ [b]))"

definition from_wire_finish :: "from_wire \<Rightarrow> bytes \<Rightarrow> from_wire \<times> bytes" where
  "from_wire_finish d out =
     (if pending_cr d then (d\<lparr>pending_cr := False\<rparr>, out @ [CR]) else (d, out))"

text \<open>A decoder fed one block after the other and then finished, as the receivers do.\<close>

fun from_wire_blocks :: "from_wire \<Rightarrow> bytes list \<Rightarrow> bytes \<Rightarrow> bytes" where
  "from_wire_blocks d [] out = snd (from_wire_finish d out)"
| "from_wire_blocks d (c # cs) out =
     (case from_wire_translate d c out of (d', out') \<Rightarrow> from_wire_blocks d' cs out')"

subsection \<open>The optional translator of a transfer\<close>

definition encode_chunk :: "to_wire option \<Rightarrow> bytes \<Rightarrow> bytes \<Rightarrow> bytes" where
  "encode_chunk enc chunk pending =
     (case enc of Some e \<Rightarrow> snd (to_wire_translate e chunk pending) | None \<Rightarrow> pending @ chunk)"

definition decode_chunk :: "from_wire option \<Rightarrow> bytes \<Rightarrow> from_wire option \<times> bytes" where
  "decode_chunk dec data =
     (case dec of
        Some d \<Rightarrow> (case from_wire_translate d data [] of (d', out) \<Rightarrow> (Some d', out))
      | None \<Rightarrow> (None, data))"

definition decode_tail :: "from_wire option \<Rightarrow> from_wire option \<times> bytes" where
  "decode_tail dec =
     (case dec of
        Some d \<Rightarrow> (case from_wire_finish d [] of (d', tail) \<Rightarrow> (Some d', tail))
      | None \<Rightarrow> (None, []))"

subsection \<open>What the encoder computes\<close>

text \<open>The wire form of a byte string, without the output vector.\<close>

fun wire_byte :: "u8 \<Rightarrow> bytes" where
  "wire_byte b = (if b = LF then [CR, LF] else if b = CR then [CR, 0] else [b])"

definition netascii_wire :: "bytes \<Rightarrow> bytes" where
  "netascii_wire s = concat (map wire_byte s)"

lemma CR_neq_LF [simp]: "CR \<noteq> LF" "LF \<noteq> CR" "CR \<noteq> 0" "LF \<noteq> 0" "0 \<noteq> CR" "0 \<noteq> LF"
  by (simp_all add: CR_def LF_def)

lemma netascii_wire_simps [simp]:
  "netascii_wire [] = []"
  "netascii_wire (b # s) = wire_byte b @ netascii_wire s"
  "netascii_wire (s @ t) = netascii_wire s @ netascii_wire t"
  by (simp_all add: netascii_wire_def)

lemma to_wire_loop_eq: "to_wire_loop s out = out @ netascii_wire s"
  by (induction s arbitrary: out) auto

lemma to_wire_translate_eq [simp]:
  "to_wire_translate e s out = (length s, out @ netascii_wire s)"
  by (simp add: to_wire_translate_def to_wire_loop_eq)

lemma netascii_wire_length:
  "length s \<le> length (netascii_wire s)" "length (netascii_wire s) \<le> 2 * length s"
  by (induction s) auto

lemma netascii_wire_Nil_iff [simp]: "netascii_wire s = [] \<longleftrightarrow> s = []"
  by (cases s) auto

subsection \<open>The decoder as a function of the bytes seen\<close>

lemma from_wire_translate_append:
  "from_wire_translate d (s @ t) out =
     (case from_wire_translate d s out of (d', out') \<Rightarrow> from_wire_translate d' t out')"
  by (induction d s out rule: from_wire_translate.induct) auto

lemma from_wire_translate_out:
  "from_wire_translate d s (pre @ out) = apsnd (append pre) (from_wire_translate d s out)"
proof (induction d s out rule: from_wire_translate.induct)
  case (2 d b input out)
  then show ?case
    by (cases "pending_cr d"; cases "b = CR"; cases "b = LF"; cases "b = 0") simp_all
qed simp

lemma from_wire_translate_out':
  "from_wire_translate d s out = apsnd (append out) (from_wire_translate d s [])"
  using from_wire_translate_out [of d s out "[]"] by simp

lemma from_wire_blocks_concat:
  "from_wire_blocks d cs out =
     (case from_wire_translate d (concat cs) out of (d', out') \<Rightarrow> snd (from_wire_finish d' out'))"
  by (induction cs arbitrary: d out)
    (simp_all add: from_wire_translate_append split: prod.splits)

lemma from_wire_of_wire:
  "from_wire_translate from_wire_new (netascii_wire s) out = (from_wire_new, out @ s)"
  by (induction s arbitrary: out) (auto simp: from_wire_new_def)

lemma from_wire_translate_length:
  "length (snd (from_wire_translate d s out)) + (if pending_cr (fst (from_wire_translate d s out)) then 1 else 0)
     \<le> length out + length s + (if pending_cr d then 1 else 0)"
proof (induction d s out rule: from_wire_translate.induct)
  case (2 d b input out)
  then show ?case
    by (cases "pending_cr d"; cases "b = CR") (auto split: if_splits)
qed simp

subsection \<open>Properties\<close>

text \<open>C39: A netascii transfer gives back the original bytes, wherever the encoded stream is cut
  into blocks (also between the two bytes of an escape).\<close>

theorem netascii_roundtrip:
  assumes "concat cs = snd (to_wire_translate ToWire s [])"
  shows "from_wire_blocks from_wire_new cs [] = s"
  using assms by (simp add: from_wire_blocks_concat from_wire_of_wire from_wire_finish_def)
    (simp add: from_wire_new_def)

theorem netascii_roundtrip_witness:
  "from_wire_blocks from_wire_new [[65, 13], [10, 13], [0, 66]] [] = [65, 10, 13, 66]"
  by (rule netascii_roundtrip) (simp add: CR_def LF_def)

end
