(* ===== verification/Blocks.thy ===== *)
theory Blocks
  imports Netascii Errors
begin

text \<open>
  The data side of a sender, shared by the server's \<open>RrqSender::read_one_block\<close> and the
  client's \<open>Sender::next_block\<close>: the loop that reads chunks until a block is complete
  (\<open>pull_chunks\<close>), the cut of the pending bytes into one block (\<open>cut_block\<close>), and the
  window of blocks in flight with its cumulative acknowledgement.

  Files are tokio's and outside the repository: a read is a parameter \<open>rd\<close>, and the locale
  \<open>byte_source\<close> states its documented contract. \<open>block_stream\<close> is the contract of a block
  producer, \<open>ack_loop\<close> that of the acknowledgement loop; both are interpreted on the
  server's and on the client's code.
\<close>

type_synonym ('f) reader = "'f \<Rightarrow> nat \<Rightarrow> (io_error + bytes) \<times> 'f"
type_synonym flight = "(u16 \<times> bytes) list"

definition encode_all :: "to_wire option \<Rightarrow> bytes \<Rightarrow> bytes" where
  "encode_all enc s = (case enc of Some _ \<Rightarrow> netascii_wire s | None \<Rightarrow> s)"

lemma encode_chunk_eq: "encode_chunk enc s pending = pending @ encode_all enc s"
  by (simp add: encode_chunk_def encode_all_def split: option.splits)

lemma encode_all_simps [simp]:
  "encode_all enc [] = []"
  "encode_all enc (s @ t) = encode_all enc s @ encode_all enc t"
  "encode_all enc s = [] \<longleftrightarrow> s = []"
  "encode_all None s = s"
  by (simp_all add: encode_all_def split: option.splits)

subsection \<open>Filling the pending buffer\<close>

text \<open>
  \<open>while pending.len() < blksize && !eof\<close>: read a chunk; an error leaves the loop, an
  empty read sets \<open>eof\<close>, anything else is translated onto the end of \<open>pending\<close>.
  Every other turn adds at least one byte, so the loop ends whatever the file does.
\<close>

function pull_chunks ::
  "'f reader \<Rightarrow> to_wire option \<Rightarrow> nat \<Rightarrow> 'f \<Rightarrow> bytes \<Rightarrow> bool \<Rightarrow> (error + unit) \<times> 'f \<times> bytes \<times> bool"
where
  "pull_chunks rd enc blksize file pending eof =
     (if length pending < blksize \<and> \<not> eof then
        (case rd file blksize of
           (Inl e, file') \<Rightarrow> (Inl (Io e), file', pending, eof)
         | (Inr chunk, file') \<Rightarrow>
             if chunk = [] then (Inr (), file', pending, True)
             else pull_chunks rd enc blksize file' (encode_chunk enc chunk pending) eof)
      else (Inr (), file, pending, eof))"
  by pat_completeness auto
termination
  by (relation "measure (\<lambda>(rd, enc, blksize, file, pending, eof). blksize - length pending)")
    (auto simp: encode_chunk_eq intro!: diff_less_mono2)

declare pull_chunks.simps [simp del]

text \<open>\<open>pending.drain(..take)\<close> with \<open>take = min(pending.len(), blksize)\<close>.\<close>

definition cut_block :: "nat \<Rightarrow> bytes \<Rightarrow> bytes \<times> bytes" where
  "cut_block blksize pending =
     (let k = min (length pending) blksize in (take k pending, drop k pending))"

lemma cut_block_eq: "cut_block k p = (take k p, drop k p)"
  by (simp add: cut_block_def Let_def min_def)

subsection \<open>The contract of a file that is read\<close>

locale byte_source =
  fixes rd :: "'f reader" and remaining :: "'f \<Rightarrow> bytes"
  assumes rd_bytes: "rd f k = (Inr bs, f') \<Longrightarrow> remaining f = bs @ remaining f' \<and> length bs \<le> k"
    and rd_eof: "rd f k = (Inr [], f') \<Longrightarrow> 0 < k \<Longrightarrow> remaining f = []"
begin

lemma pull_chunks_stream:
  assumes "pull_chunks rd enc k f p e = (Inr (), f', p', e')" "e \<Longrightarrow> remaining f = []" "0 < k"
  shows "p' @ encode_all enc (remaining f') = p @ encode_all enc (remaining f)
    \<and> (e' \<longrightarrow> remaining f' = []) \<and> (k \<le> length p' \<or> e')"
  using assms
proof (induction "k - length p" arbitrary: f p rule: less_induct)
  case less
  show ?case
  proof (cases "length p < k \<and> \<not> e")
    case False
    with less.prems show ?thesis
      by (auto simp: pull_chunks.simps [of rd enc k f p])
  next
    case True
    obtain r f1 where r: "rd f k = (r, f1)" by fastforce
    with less.prems(1) True obtain chunk where c: "r = Inr chunk"
      by (cases r) (auto simp: pull_chunks.simps [of rd enc k f p])
    have rem: "remaining f = chunk @ remaining f1" using rd_bytes r c by blast
    show ?thesis
    proof (cases "chunk = []")
      case True
      with r c less.prems \<open>length p < k \<and> \<not> e\<close> rem rd_eof [of f k f1] show ?thesis
        by (auto simp: pull_chunks.simps [of rd enc k f p])
    next
      case False
      let ?q = "encode_chunk enc chunk p"
      have run: "pull_chunks rd enc k f1 ?q e = (Inr (), f', p', e')"
        using less.prems(1) True False r c by (simp add: pull_chunks.simps [of rd enc k f p])
      have "length p < length ?q" using False by (simp add: encode_chunk_eq)
      then have "k - length ?q < k - length p" using True by linarith
      from less.hyps [OF this run] less.prems(3) True rem show ?thesis
        by (simp add: encode_chunk_eq)
    qed
  qed
qed

end

text \<open>A byte vector read as a file.\<close>

definition vec_read :: "bytes reader" where
  "vec_read v k = (Inr (take k v), drop k v)"

interpretation vecr: byte_source vec_read "\<lambda>v. v"
  by unfold_locales (auto simp: vec_read_def)

subsection \<open>The blocks of a transfer\<close>

text \<open>
  The specification of the cut: full blocks, then one shorter block that ends the transfer
  (empty when the length is a multiple of the block size).
\<close>

function blocks_of :: "nat \<Rightarrow> bytes \<Rightarrow> bytes list" where
  "blocks_of k s = (if k = 0 \<or> length s < k then [s] else take k s # blocks_of k (drop k s))"
  by pat_completeness auto
termination
  by (relation "measure (\<lambda>(k, s). length s)") auto

declare blocks_of.simps [simp del]

lemma blocks_of_short: "length s < k \<Longrightarrow> blocks_of k s = [s]"
  by (subst blocks_of.simps) simp

lemma blocks_of_long: "0 < k \<Longrightarrow> k \<le> length s \<Longrightarrow> blocks_of k s = take k s # blocks_of k (drop k s)"
  by (subst blocks_of.simps) simp

lemma blocks_of_nonempty [simp]: "blocks_of k s \<noteq> []"
  by (subst blocks_of.simps) simp

lemma concat_blocks_of [simp]: "concat (blocks_of k s) = s"
proof (induction k s rule: blocks_of.induct)
  case (1 k s)
  then show ?case by (subst blocks_of.simps) simp
qed

lemma length_blocks_of: "0 < k \<Longrightarrow> length (blocks_of k s) = length s div k + 1"
proof (induction k s rule: blocks_of.induct)
  case (1 k s)
  show ?case
  proof (cases "length s < k")
    case True
    then show ?thesis by (simp add: blocks_of_short)
  next
    case False
    with 1 have "length (blocks_of k (drop k s)) = (length s - k) div k + 1" by simp
    with False 1 show ?thesis
      by (simp add: blocks_of_long le_div_geq)
  qed
qed

lemma blocks_of_sizes:
  assumes "0 < k" "i < length (blocks_of k s)"
  shows "length (blocks_of k s ! i) = k \<longleftrightarrow> i + 1 < length (blocks_of k s)"
    "length (blocks_of k s ! i) \<le> k"
  using assms
proof (induction k s arbitrary: i rule: blocks_of.induct)
  case (1 k s)
  {
    case 1
    then show ?case
      using "1.IH"(1)
      by (cases "length s < k"; cases i) (auto simp: blocks_of_short blocks_of_long)
  next
    case 2
    then show ?case
      using "1.IH"(2)
      by (cases "length s < k"; cases i) (auto simp: blocks_of_short blocks_of_long)
  }
qed

text \<open>
  The contract of a block producer: \<open>next_block\<close> yields the next \<open>bsize\<close> bytes of the
  stream, is finished after the first short block, and yields nothing from then on.
\<close>

locale block_stream =
  fixes nxt :: "'s \<Rightarrow> (error + bytes option) \<times> 's"
    and stream :: "'s \<Rightarrow> bytes"
    and finished :: "'s \<Rightarrow> bool"
    and ready :: "'s \<Rightarrow> bool"
    and bsize :: "'s \<Rightarrow> nat"
  assumes nxt_finished: "finished s \<Longrightarrow> nxt s = (Inr None, s)"
    and nxt_block: "ready s \<Longrightarrow> \<not> finished s \<Longrightarrow> nxt s = (Inr r, s') \<Longrightarrow>
      r = Some (take (bsize s) (stream s)) \<and> stream s' = drop (bsize s) (stream s)
      \<and> finished s' = (length (stream s) < bsize s) \<and> ready s' \<and> bsize s' = bsize s"
    and ready_bsize: "ready s \<Longrightarrow> 0 < bsize s"
begin

text \<open>\<open>s\<close> has yielded the first \<open>hi - 1\<close> of the blocks \<open>B\<close> and will yield the others.\<close>

definition at_block :: "bytes list \<Rightarrow> nat \<Rightarrow> 's \<Rightarrow> bool" where
  "at_block B hi s \<longleftrightarrow> ready s \<and> 1 \<le> hi \<and>
     (if finished s then hi = length B + 1
      else hi \<le> length B \<and> blocks_of (bsize s) (stream s) = drop (hi - 1) B)"

lemma at_block_start:
  "ready s \<Longrightarrow> \<not> finished s \<Longrightarrow> at_block (blocks_of (bsize s) (stream s)) 1 s"
  by (simp add: at_block_def Suc_le_eq)

lemma at_block_bound: "at_block B hi s \<Longrightarrow> 1 \<le> hi \<and> hi \<le> length B + 1"
  by (auto simp: at_block_def split: if_splits)

lemma at_block_finished: "at_block B hi s \<Longrightarrow> finished s \<longleftrightarrow> hi = length B + 1"
  by (auto simp: at_block_def split: if_splits)

lemma at_block_None: "at_block B hi s \<Longrightarrow> nxt s = (Inr None, s') \<Longrightarrow> hi = length B + 1 \<and> s' = s"
  using nxt_finished [of s] nxt_block [of s None s'] by (auto simp: at_block_def split: if_splits)

lemma at_block_Some:
  assumes "at_block B hi s" "nxt s = (Inr (Some b), s')"
  shows "b = B ! (hi - 1) \<and> hi \<le> length B \<and> at_block B (hi + 1) s'"
proof -
  let ?k = "bsize s"
  have nf: "\<not> finished s" using assms(2) nxt_finished [of s] by auto
  with assms have rdy: "ready s" and hi: "1 \<le> hi" "hi \<le> length B"
    and bl: "blocks_of ?k (stream s) = drop (hi - 1) B"
    by (auto simp: at_block_def)
  note n = nxt_block [OF rdy nf assms(2)] ready_bsize [OF rdy]
  have d: "drop (hi - 1) B = B ! (hi - 1) # drop hi B"
    using hi Cons_nth_drop_Suc [of "hi - 1" B] by simp
  show ?thesis
  proof (cases "length (stream s) < ?k")
    case True
    with bl d have "stream s = B ! (hi - 1)" "drop hi B = []"
      by (simp_all add: blocks_of_short)
    with n True hi show ?thesis by (auto simp: at_block_def)
  next
    case False
    with bl d n have "take ?k (stream s) = B ! (hi - 1)"
      "blocks_of ?k (drop ?k (stream s)) = drop hi B"
      by (simp_all add: blocks_of_long)
    moreover from this(2) have "hi < length B"
      using blocks_of_nonempty [of ?k "drop ?k (stream s)"] by (metis drop_all not_le)
    ultimately show ?thesis
      using n False hi by (auto simp: at_block_def)
  qed
qed

end

subsection \<open>The window of blocks in flight\<close>

text \<open>Blocks \<open>lo, \<dots>, hi - 1\<close> of \<open>B\<close> (counted from 1), each under its 16-bit number.\<close>

definition flight_of :: "bytes list \<Rightarrow> nat \<Rightarrow> nat \<Rightarrow> flight" where
  "flight_of B lo hi = map (\<lambda>i. (of_nat i, B ! (i - 1))) [lo..<hi]"

lemma length_flight_of [simp]: "length (flight_of B lo hi) = hi - lo"
  by (simp add: flight_of_def)

lemma flight_of_Nil_iff [simp]: "flight_of B lo hi = [] \<longleftrightarrow> hi \<le> lo"
  by (auto simp: flight_of_def)

lemma flight_of_Nil: "hi \<le> lo \<Longrightarrow> flight_of B lo hi = []"
  by simp

lemma flight_of_snoc: "lo \<le> hi \<Longrightarrow> flight_of B lo hi @ [(of_nat hi, B ! (hi - 1))] = flight_of B lo (hi + 1)"
  by (simp add: flight_of_def)

lemma flight_of_Cons:
  "lo < hi \<Longrightarrow> flight_of B lo hi = (of_nat lo, B ! (lo - 1)) # flight_of B (lo + 1) hi"
  by (simp add: flight_of_def upt_conv_Cons)

text \<open>
  The contract of the loop that pops acknowledged blocks: the block itself ends it, a
  block less than a window behind is popped and the loop goes on, anything else stops it.
\<close>

locale ack_loop =
  fixes pops :: "u16 \<Rightarrow> u16 \<Rightarrow> bool \<Rightarrow> flight \<Rightarrow> bool \<times> flight"
  assumes pops_Nil: "pops ack w adv [] = (adv, [])"
    and pops_hit: "pops ack w adv ((ack, d) # fl) = (True, fl)"
    and pops_behind: "bn \<noteq> ack \<Longrightarrow> 0 < ack - bn \<Longrightarrow> ack - bn < w \<Longrightarrow>
      pops ack w adv ((bn, d) # fl) = pops ack w True fl"
    and pops_other: "bn \<noteq> ack \<Longrightarrow> \<not> (0 < ack - bn \<and> ack - bn < w) \<Longrightarrow>
      pops ack w adv ((bn, d) # fl) = (adv, (bn, d) # fl)"
begin

text \<open>The closed form on a window of consecutive blocks.\<close>

lemma pops_window:
  "pops ack w adv (flight_of B lo hi) =
     (let d = unat (ack - of_nat lo) in
      if lo < hi \<and> (d = 0 \<or> d < unat w) then (True, flight_of B (min hi (lo + d + 1)) hi)
      else (adv, flight_of B lo hi))"
proof (induction "hi - lo" arbitrary: lo adv)
  case 0
  then show ?case by (simp add: flight_of_Nil pops_Nil)
next
  case (Suc m)
  then have lt: "lo < hi" by simp
  let ?d = "unat (ack - of_nat lo)"
  note front = flight_of_Cons [OF lt, of B]
  show ?case
  proof (cases "ack = of_nat lo")
    case True
    with lt show ?thesis by (simp add: front pops_hit)
  next
    case False
    then have d0: "?d \<noteq> 0" by (simp add: unat_eq_0)
    show ?thesis
    proof (cases "?d < unat w")
      case True
      have "ack - of_nat (lo + 1) = ack - of_nat lo - 1" by simp
      with d0 have d1: "unat (ack - of_nat (lo + 1)) = ?d - 1"
        by (metis unat_minus_one unat_0)
      have "0 < ack - of_nat lo" "ack - of_nat lo < w"
        using d0 True by (simp_all add: word_less_nat_alt)
      then have p: "pops ack w adv (flight_of B lo hi) = pops ack w True (flight_of B (lo + 1) hi)"
        using False by (simp add: front pops_behind)
      have "m = hi - (lo + 1)" using Suc.hyps(2) by simp
      note IH = Suc.hyps(1) [OF this, of True]
      show ?thesis
        using p IH d1 d0 True lt by (auto simp: Let_def min_def flight_of_Nil)
    next
      case ge: False
      then have "\<not> (0 < ack - of_nat lo \<and> ack - of_nat lo < w)"
        by (simp add: word_less_nat_alt)
      with False d0 ge lt show ?thesis
        by (simp add: front pops_other)
    qed
  qed
qed

end

end
