(* ===== verification/Window_Spec.thy ===== *)
theory Window_Spec
  imports Prelude
begin

text \<open>
  The abstract specification of a transfer: a sliding window over the blocks below \<open>N\<close>. Its state
  \<open>(lo, M, hi)\<close> counts the blocks that are acknowledged, accepted and sent, each as the first block of
  which that does not hold (block 0 stands for the handshake). The sender may fill its window of \<open>W\<close> blocks,
  the receiver accepts what was sent, in order, and an ACK moves the window up to what was accepted.
\<close>

type_synonym window = "nat \<times> nat \<times> nat"

inductive window_step :: "nat \<Rightarrow> nat \<Rightarrow> window \<Rightarrow> window \<Rightarrow> bool" for W N
where
  window_send: "hi < N \<Longrightarrow> hi - lo < W \<Longrightarrow> window_step W N (lo, M, hi) (lo, M, hi + 1)"
| window_accept: "M < hi \<Longrightarrow> window_step W N (lo, M, hi) (lo, M + 1, hi)"
| window_ack: "lo < k \<Longrightarrow> k \<le> M \<Longrightarrow> window_step W N (lo, M, hi) (k, M, hi)"

inductive_simps window_step_iff: "window_step W N (lo, M, hi) w"

abbreviation window_run :: "nat \<Rightarrow> nat \<Rightarrow> window \<Rightarrow> window \<Rightarrow> bool" where
  "window_run W N \<equiv> (window_step W N)\<^sup>*\<^sup>*"

text \<open>What is sent but not acknowledged fits the window; counters do not run ahead of each other, nor back.\<close>

definition window_ok :: "nat \<Rightarrow> nat \<Rightarrow> window \<Rightarrow> bool" where
  "window_ok W N w \<longleftrightarrow> (case w of (lo, M, hi) \<Rightarrow> lo \<le> M \<and> M \<le> hi \<and> hi \<le> N \<and> hi - lo \<le> W)"

fun window_le :: "window \<Rightarrow> window \<Rightarrow> bool" where
  "window_le (lo, M, hi) (lo', M', hi') \<longleftrightarrow> lo \<le> lo' \<and> M \<le> M' \<and> hi \<le> hi'"

lemma window_run_ok:
  assumes "window_run W N w w'" "window_ok W N w"
  shows "window_ok W N w' \<and> window_le w w'"
  using assms
proof (induction rule: rtranclp_induct)
  case base
  then show ?case by (cases w) simp
next
  case (step v v')
  obtain lo M hi lo' M' hi' where w: "w = (lo, M, hi)" and v: "v = (lo', M', hi')" by (cases w; cases v)
  from step.IH [OF step.prems] step.hyps(2) show ?case
    unfolding w v by (auto simp: window_step_iff window_ok_def)
qed

text \<open>The moves of a sender and of a receiver, composed of such steps.\<close>

lemma window_fill:
  assumes "hi \<le> hi'" "lo \<le> hi" "hi' \<le> N" "hi' - lo \<le> W"
  shows "window_run W N (lo, M, hi) (lo, M, hi')"
  using assms
proof (induction hi' rule: dec_induct)
  case (step h)
  then have "window_run W N (lo, M, hi) (lo, M, h)" "window_step W N (lo, M, h) (lo, M, h + 1)"
    by (auto simp: window_step_iff)
  then show ?case by simp
qed simp

lemma window_sender:
  assumes "lo \<le> lo'" "lo' \<le> M" "M \<le> hi" "hi \<le> hi'" "hi' \<le> N" "hi' - lo' \<le> W"
  shows "window_run W N (lo, M, hi) (lo', M, hi')"
proof (cases "lo = lo'")
  case True
  with window_fill [of hi hi' lo N W M] assms show ?thesis by simp
next
  case False
  with assms have "window_step W N (lo, M, hi) (lo', M, hi)" by (simp add: window_step_iff)
  moreover have "window_run W N (lo', M, hi) (lo', M, hi')" using assms by (intro window_fill) simp_all
  ultimately show ?thesis by (rule converse_rtranclp_into_rtranclp)
qed

lemma window_receiver:
  assumes "M \<le> M'" "M' \<le> hi"
  shows "window_run W N (lo, M, hi) (lo, M', hi)"
  using assms
proof (induction M' rule: dec_induct)
  case (step m)
  then have "window_run W N (lo, M, hi) (lo, m, hi)" "window_step W N (lo, m, hi) (lo, m + 1, hi)"
    by (simp_all add: window_step_iff)
  then show ?case by simp
qed simp

end
