(* ===== verification/Transfer_System.thy ===== *)
theory Transfer_System
  imports Transport Blocks Window_Spec
begin

text \<open>
  Two tasks and the network between them. Everything a task has sent is in its \<open>outbox\<close>;
  the network may deliver any of it, any number of times, in any order, or never. Besides,
  either task may see any event that \<open>others\<close> allows (timeouts, I/O errors, datagrams from
  other addresses).

  The locale \<open>transfer\<close> is the assume-guarantee contract between a data sender and a data
  receiver: \<open>G hi\<close> is what the sender promises of its datagrams before it sends block \<open>hi\<close>,
  \<open>A m\<close> what the receiver promises of the datagrams it sends after accepting \<open>m\<close> blocks. Its
  theorems are proved once and used for downloads and for uploads.
\<close>

type_synonym ('s, 'r, 't, 'q) system = "('s, 'r) progress \<times> ('t, 'q) progress"

inductive sys_step ::
  "(rx \<Rightarrow> 's \<Rightarrow> ('s, 'r) progress) \<Rightarrow> (rx \<Rightarrow> 't \<Rightarrow> ('t, 'q) progress) \<Rightarrow>
   ('s \<Rightarrow> datagram list) \<Rightarrow> ('t \<Rightarrow> datagram list) \<Rightarrow> sockaddr \<Rightarrow> sockaddr \<Rightarrow>
   ('s \<Rightarrow> rx \<Rightarrow> bool) \<Rightarrow> ('t \<Rightarrow> rx \<Rightarrow> bool) \<Rightarrow>
   ('s, 'r, 't, 'q) system \<Rightarrow> ('s, 'r, 't, 'q) system \<Rightarrow> bool"
  for sstep rstep sout rout sa ra senv renv
where
  to_receiver: "(ra, d) \<in> set (sout (state_of P)) \<Longrightarrow>
    sys_step sstep rstep sout rout sa ra senv renv (P, Running t) (P, rstep (RxFrom sa d) t)"
| to_sender: "(sa, d) \<in> set (rout (state_of Q)) \<Longrightarrow>
    sys_step sstep rstep sout rout sa ra senv renv (Running s, Q) (sstep (RxFrom ra d) s, Q)"
| other_sender: "senv s ev \<Longrightarrow>
    sys_step sstep rstep sout rout sa ra senv renv (Running s, Q) (sstep ev s, Q)"
| other_receiver: "renv t ev \<Longrightarrow>
    sys_step sstep rstep sout rout sa ra senv renv (P, Running t) (P, rstep ev t)"

inductive_cases sys_stepE: "sys_step sstep rstep sout rout sa ra senv renv (P, Q) S"

inductive sys_reach ::
  "(rx \<Rightarrow> 's \<Rightarrow> ('s, 'r) progress) \<Rightarrow> (rx \<Rightarrow> 't \<Rightarrow> ('t, 'q) progress) \<Rightarrow>
   ('s \<Rightarrow> datagram list) \<Rightarrow> ('t \<Rightarrow> datagram list) \<Rightarrow> sockaddr \<Rightarrow> sockaddr \<Rightarrow>
   ('s \<Rightarrow> rx \<Rightarrow> bool) \<Rightarrow> ('t \<Rightarrow> rx \<Rightarrow> bool) \<Rightarrow>
   ('s, 'r, 't, 'q) system \<Rightarrow> ('s, 'r, 't, 'q) system \<Rightarrow> bool"
  for sstep rstep sout rout sa ra senv renv S0
where
  reach_start: "sys_reach sstep rstep sout rout sa ra senv renv S0 S0"
| reach_step: "sys_reach sstep rstep sout rout sa ra senv renv S0 S \<Longrightarrow>
    sys_step sstep rstep sout rout sa ra senv renv S S' \<Longrightarrow>
    sys_reach sstep rstep sout rout sa ra senv renv S0 S'"

lemma sys_reach_trans:
  assumes "sys_reach sstep rstep sout rout sa ra senv renv S1 S2"
    and "sys_reach sstep rstep sout rout sa ra senv renv S0 S1"
  shows "sys_reach sstep rstep sout rout sa ra senv renv S0 S2"
  using assms by (induction rule: sys_reach.induct) (auto intro: sys_reach.reach_step)

text \<open>The four moves as rules on runs.\<close>

lemma reach_to_receiver:
  assumes "sys_reach sstep rstep sout rout sa ra senv renv S0 (P, Running t)"
    and "(ra, d) \<in> set (sout (state_of P))" "rstep (RxFrom sa d) t = Q"
  shows "sys_reach sstep rstep sout rout sa ra senv renv S0 (P, Q)"
  unfolding assms(3) [symmetric] using assms(2)
  by (rule reach_step [OF assms(1) to_receiver])

lemma reach_to_sender:
  assumes "sys_reach sstep rstep sout rout sa ra senv renv S0 (Running s, Q)"
    and "(sa, d) \<in> set (rout (state_of Q))" "sstep (RxFrom ra d) s = P"
  shows "sys_reach sstep rstep sout rout sa ra senv renv S0 (P, Q)"
  unfolding assms(3) [symmetric] using assms(2)
  by (rule reach_step [OF assms(1) to_sender])

lemma reach_other_receiver:
  assumes "sys_reach sstep rstep sout rout sa ra senv renv S0 (P, Running t)"
    and "renv t ev" "rstep ev t = Q"
  shows "sys_reach sstep rstep sout rout sa ra senv renv S0 (P, Q)"
  unfolding assms(3) [symmetric] using assms(2)
  by (rule reach_step [OF assms(1) other_receiver])

lemma reach_other_sender:
  assumes "sys_reach sstep rstep sout rout sa ra senv renv S0 (Running s, Q)"
    and "senv s ev" "sstep ev s = P"
  shows "sys_reach sstep rstep sout rout sa ra senv renv S0 (P, Q)"
  unfolding assms(3) [symmetric] using assms(2)
  by (rule reach_step [OF assms(1) other_sender])

text \<open>
  Two environments: one delivers no datagram at all, the other anything but a datagram from
  the address \<open>p\<close> of the other party.
\<close>

fun quiet :: "rx \<Rightarrow> bool" where
  "quiet (RxFrom _ _) = False"
| "quiet _ = True"

fun not_from :: "sockaddr \<Rightarrow> rx \<Rightarrow> bool" where
  "not_from p (RxFrom src _) \<longleftrightarrow> src \<noteq> p"
| "not_from p _ \<longleftrightarrow> True"

lemma not_from_iff: "not_from p ev \<longleftrightarrow> (\<nexists>d. ev = RxFrom p d)"
  by (cases ev) auto

lemma quiet_not_from: "quiet ev \<Longrightarrow> not_from p ev"
  by (cases ev) auto

subsection \<open>The contract\<close>

text \<open>
  \<open>M\<close> counts the receiver's progress: 0 before its handshake is complete, \<open>m + 1\<close> once it
  has accepted \<open>m\<close> blocks. \<open>lo\<close> is the first block the sender does not know to be accepted,
  0 before its own handshake, and \<open>hi\<close> the first one it has not sent. Both sides end at \<open>N\<close>, the
  number of blocks plus one; \<open>lo \<le> M \<le> hi\<close> at any time, and at most \<open>W\<close> blocks are in flight.
\<close>

locale transfer =
  fixes sstep :: "rx \<Rightarrow> 's \<Rightarrow> ('s, 'r) progress"
    and rstep :: "rx \<Rightarrow> 't \<Rightarrow> ('t, 'q) progress"
    and sout :: "'s \<Rightarrow> datagram list" and rout :: "'t \<Rightarrow> datagram list"
    and sa :: sockaddr and ra :: sockaddr
    and senv :: "'s \<Rightarrow> rx \<Rightarrow> bool" and renv :: "'t \<Rightarrow> rx \<Rightarrow> bool"
    and G :: "nat \<Rightarrow> bytes \<Rightarrow> bool" and A :: "nat \<Rightarrow> bytes \<Rightarrow> bool"
    and srel :: "nat \<Rightarrow> nat \<Rightarrow> 's \<Rightarrow> bool" and rrel :: "nat \<Rightarrow> 't \<Rightarrow> bool"
    and rend :: "'t \<Rightarrow> bool" and W :: nat and N :: nat and result :: "'q \<Rightarrow> 't \<Rightarrow> bool"
  assumes A_mono: "A M d \<Longrightarrow> M \<le> M' \<Longrightarrow> A M' d"
    and G_mono: "G hi d \<Longrightarrow> hi \<le> hi' \<Longrightarrow> G hi' d"
    and rrel_bound: "rrel M t \<Longrightarrow> M < N"
    and sender_step: "srel lo hi s \<Longrightarrow> lo \<le> M \<Longrightarrow> M = 0 \<longrightarrow> hi = 1 \<Longrightarrow>
      senv s ev \<or> (\<exists>d. ev = RxFrom ra d \<and> A M d) \<Longrightarrow>
      \<exists>lo' hi' new. lo \<le> lo' \<and> lo' \<le> M \<and> hi \<le> hi' \<and> hi' \<le> N \<and> hi' - lo' \<le> W \<and> (M = 0 \<longrightarrow> hi' = 1)
        \<and> (\<forall>s'. sstep ev s = Running s' \<longrightarrow> srel lo' hi' s')
        \<and> (\<forall>r s'. sstep ev s = Done (Inr r) s' \<longrightarrow> lo' = N)
        \<and> sout (state_of (sstep ev s)) = sout s @ new \<and> (\<forall>d. (ra, d) \<in> set new \<longrightarrow> G hi' d)"
    and receiver_step: "rrel M t \<Longrightarrow> M \<le> hi \<Longrightarrow> M = 0 \<longrightarrow> hi = 1 \<Longrightarrow>
      renv t ev \<or> (\<exists>d. ev = RxFrom sa d \<and> G hi d) \<Longrightarrow>
      \<exists>M' new. M \<le> M' \<and> M' \<le> hi
        \<and> (\<forall>t'. rstep ev t = Running t' \<longrightarrow> rrel M' t')
        \<and> (\<forall>t'. rstep ev t \<noteq> Panicked t')
        \<and> (\<forall>r t'. rstep ev t = Done r t' \<longrightarrow> M' = N \<longrightarrow> rend t')
        \<and> (\<forall>r t'. rstep ev t = Done (Inr r) t' \<longrightarrow> M' = N \<and> result r t')
        \<and> rout (state_of (rstep ev t)) = rout t @ new \<and> (\<forall>d. (sa, d) \<in> set new \<longrightarrow> A M' d)"
begin

definition sys_inv :: "nat \<Rightarrow> nat \<Rightarrow> nat \<Rightarrow> ('s, 'r, 't, 'q) system \<Rightarrow> bool" where
  "sys_inv lo M hi S \<longleftrightarrow>
     (case S of (P, Q) \<Rightarrow>
       window_ok W N (lo, M, hi) \<and> (M = 0 \<longrightarrow> hi = 1)
       \<and> (\<forall>s. P = Running s \<longrightarrow> srel lo hi s) \<and> (\<forall>r s. P = Done (Inr r) s \<longrightarrow> lo = N)
       \<and> (\<forall>t. Q = Running t \<longrightarrow> rrel M t) \<and> (\<forall>t. Q \<noteq> Panicked t)
       \<and> (\<forall>r t. Q = Done r t \<longrightarrow> M = N \<longrightarrow> rend t)
       \<and> (\<forall>r t. Q = Done (Inr r) t \<longrightarrow> M = N \<and> result r t)
       \<and> (\<forall>d. (ra, d) \<in> set (sout (state_of P)) \<longrightarrow> G hi d)
       \<and> (\<forall>d. (sa, d) \<in> set (rout (state_of Q)) \<longrightarrow> A M d))"

lemma sys_inv_bounds: "sys_inv lo M hi S \<Longrightarrow> lo \<le> M \<and> M \<le> hi \<and> hi \<le> N \<and> hi - lo \<le> W \<and> (M = 0 \<longrightarrow> hi = 1)"
  by (auto simp: sys_inv_def window_ok_def split: prod.splits)

text \<open>Every step of the system is a run of the abstract window.\<close>

lemma sender_moves:
  assumes "sys_inv lo M hi (Running s, Q)" "senv s ev \<or> (\<exists>d. ev = RxFrom ra d \<and> A M d)"
  shows "\<exists>lo' hi'. window_run W N (lo, M, hi) (lo', M, hi') \<and> sys_inv lo' M hi' (sstep ev s, Q)"
proof -
  note b = sys_inv_bounds [OF assms(1)]
  have "srel lo hi s" using assms(1) by (simp add: sys_inv_def)
  with b sender_step [OF this _ _ assms(2)] obtain lo' hi' new where
    lo': "lo \<le> lo'" "lo' \<le> M" "hi \<le> hi'" "hi' \<le> N" "hi' - lo' \<le> W" "M = 0 \<longrightarrow> hi' = 1"
    and post: "\<forall>s'. sstep ev s = Running s' \<longrightarrow> srel lo' hi' s'"
    "\<forall>r s'. sstep ev s = Done (Inr r) s' \<longrightarrow> lo' = N"
    "sout (state_of (sstep ev s)) = sout s @ new" "\<forall>d. (ra, d) \<in> set new \<longrightarrow> G hi' d"
    by auto
  have "window_ok W N (lo', M, hi')" using b lo' by (simp add: window_ok_def)
  with lo'(6) post have "sys_inv lo' M hi' (sstep ev s, Q)"
    using assms(1) G_mono [OF _ lo'(3)] unfolding sys_inv_def by auto
  with window_sender [OF lo'(1,2) _ lo'(3-5)] b show ?thesis by blast
qed

lemma receiver_moves:
  assumes "sys_inv lo M hi (P, Running t)" "renv t ev \<or> (\<exists>d. ev = RxFrom sa d \<and> G hi d)"
  shows "\<exists>M'. window_run W N (lo, M, hi) (lo, M', hi) \<and> sys_inv lo M' hi (P, rstep ev t)"
proof -
  note b = sys_inv_bounds [OF assms(1)]
  have "rrel M t" using assms(1) by (simp add: sys_inv_def)
  with b receiver_step [OF this _ _ assms(2)] obtain M' new where m': "M \<le> M'" "M' \<le> hi"
    and post: "\<forall>t'. rstep ev t = Running t' \<longrightarrow> rrel M' t'"
    "\<forall>t'. rstep ev t \<noteq> Panicked t'" "\<forall>r t'. rstep ev t = Done r t' \<longrightarrow> M' = N \<longrightarrow> rend t'"
    "\<forall>r t'. rstep ev t = Done (Inr r) t' \<longrightarrow> M' = N \<and> result r t'"
    "rout (state_of (rstep ev t)) = rout t @ new" "\<forall>d. (sa, d) \<in> set new \<longrightarrow> A M' d"
    by auto
  have "window_ok W N (lo, M', hi)" "M' = 0 \<longrightarrow> hi = 1" using b m' by (simp_all add: window_ok_def)
  with post have "sys_inv lo M' hi (P, rstep ev t)"
    using assms(1) A_mono [OF _ m'(1)] unfolding sys_inv_def by auto
  with window_receiver [OF m'] show ?thesis by blast
qed

lemma sys_step_inv:
  assumes "sys_step sstep rstep sout rout sa ra senv renv S S'" "sys_inv lo M hi S"
  shows "\<exists>lo' M' hi'. window_run W N (lo, M, hi) (lo', M', hi') \<and> sys_inv lo' M' hi' S'"
  using assms
proof (induction rule: sys_step.induct)
  case (to_receiver d P t)
  then have "G hi d" by (simp add: sys_inv_def)
  with receiver_moves [OF to_receiver(2)] show ?case by blast
next
  case (to_sender d Q s)
  then have "A M d" by (simp add: sys_inv_def)
  with sender_moves [OF to_sender(2)] show ?case by blast
next
  case (other_sender s ev Q)
  with sender_moves [OF other_sender(2)] show ?case by blast
next
  case (other_receiver t ev P)
  with receiver_moves [OF other_receiver(2)] show ?case by blast
qed

lemma sys_reach_window:
  assumes "sys_reach sstep rstep sout rout sa ra senv renv S0 S" "sys_inv lo M hi S0"
  shows "\<exists>lo' M' hi'. window_run W N (lo, M, hi) (lo', M', hi') \<and> sys_inv lo' M' hi' S"
  using assms(1)
proof (induction rule: sys_reach.induct)
  case reach_start
  then show ?case using assms(2) by blast
next
  case (reach_step S S')
  then show ?case using sys_step_inv by (meson rtranclp_trans)
qed

lemma sys_reach_inv:
  assumes "sys_reach sstep rstep sout rout sa ra senv renv S0 S" "sys_inv lo M hi S0"
  shows "\<exists>lo' M' hi'. sys_inv lo' M' hi' S"
  using sys_reach_window [OF assms] by blast

text \<open>What a returned receiver holds, and what a returned sender knows of the receiver.\<close>

lemma receiver_result:
  assumes "sys_reach sstep rstep sout rout sa ra senv renv S0 (P, Done (Inr r) t)" "sys_inv lo M hi S0"
  shows "result r t"
  using sys_reach_inv [OF assms] by (auto simp: sys_inv_def)

lemma sender_result:
  assumes "sys_reach sstep rstep sout rout sa ra senv renv S0 (Done (Inr r) s, Q)" "sys_inv lo M hi S0"
  shows "\<exists>q t. Q = Done q t \<and> rend t \<and> (\<forall>x. q = Inr x \<longrightarrow> result x t)"
proof -
  obtain lo' M' hi' where inv: "sys_inv lo' M' hi' (Done (Inr r) s, Q)"
    using sys_reach_inv [OF assms] by blast
  then have "lo' = N" by (simp add: sys_inv_def)
  with sys_inv_bounds [OF inv] have "M' = N" by simp
  with inv rrel_bound [of M'] show ?thesis
    by (cases Q) (fastforce simp: sys_inv_def)+
qed

end

subsection \<open>The two sides of the contract on blocks\<close>

text \<open>
  A datagram is genuine when, read as DATA, it carries one of the blocks below \<open>hi\<close> under its number.
  An ACK is genuine when it carries the number of a block accepted before (or 0, once the
  handshake is complete).
\<close>

definition genuine_data :: "bytes list \<Rightarrow> nat \<Rightarrow> bytes \<Rightarrow> bool" where
  "genuine_data B hi d \<longleftrightarrow> (\<forall>b x. decode (rx_buffer d) = Inr (Data b x) \<longrightarrow>
     (\<exists>k. 1 \<le> k \<and> k < hi \<and> k \<le> length B \<and> b = of_nat k \<and> x = B ! (k - 1)))"

definition genuine_ack :: "nat \<Rightarrow> bytes \<Rightarrow> bool" where
  "genuine_ack M d \<longleftrightarrow> (\<forall>b. decode (rx_buffer d) = Inr (Ack b) \<longrightarrow> (\<exists>j < M. b = of_nat j))"

lemma genuine_ack_mono: "genuine_ack M d \<Longrightarrow> M \<le> M' \<Longrightarrow> genuine_ack M' d"
  by (meson genuine_ack_def less_le_trans)

lemma genuine_data_mono: "genuine_data B hi d \<Longrightarrow> hi \<le> hi' \<Longrightarrow> genuine_data B hi' d"
  by (meson genuine_data_def less_le_trans)

lemma genuine_data_packet: "(\<forall>b x. p \<noteq> Data b x) \<Longrightarrow> genuine_data B hi (encode p)"
  using decode_take_not_Data [of MAX_PACKET_SIZE p]
  by (auto simp: genuine_data_def rx_buffer_def MAX_PACKET_SIZE_eq)

lemma genuine_ack_packet: "(\<forall>b. p \<noteq> Ack b) \<Longrightarrow> genuine_ack M (encode p)"
  using decode_take_not_Ack [of MAX_PACKET_SIZE p]
  by (auto simp: genuine_ack_def rx_buffer_def MAX_PACKET_SIZE_eq)

lemma length_encode_ack [simp]: "length (encode (Ack b)) = 4"
  by (simp add: encode_simps)

lemma genuine_ack_ack: "j < M \<Longrightarrow> genuine_ack M (encode (Ack (of_nat j)))"
  by (auto simp: genuine_ack_def MAX_PACKET_SIZE_eq)

lemma genuine_data_block:
  assumes "1 \<le> k" "k \<le> length B" "length (B ! (k - 1)) \<le> 65464" "k < hi"
  shows "genuine_data B hi (encode (Data (of_nat k) (B ! (k - 1))))"
  using assms by (auto simp: genuine_data_def MAX_PACKET_SIZE_eq)

text \<open>An OACK is read as the option set it was made from, no other packet as an OACK.\<close>

definition genuine_oack :: "option_set \<Rightarrow> bytes \<Rightarrow> bool" where
  "genuine_oack oack d \<longleftrightarrow> (\<forall>s. decode (rx_buffer d) = Inr (Oack s) \<longrightarrow>
     s = oack \<and> \<not> option_set_is_empty oack)"

lemma genuine_oack_packet: "(\<forall>s. p \<noteq> Oack s) \<Longrightarrow> genuine_oack oack (encode p)"
  using decode_take_not_Oack [of MAX_PACKET_SIZE p]
  by (auto simp: genuine_oack_def rx_buffer_def MAX_PACKET_SIZE_eq)

lemma genuine_oack_oack:
  assumes "option_set_ok oack" "\<not> option_set_is_empty oack"
  shows "genuine_oack oack (encode (Oack oack))"
  using assms length_encode_oack [OF assms(1)] decode_encode [of "Oack oack"]
  by (simp add: genuine_oack_def MAX_PACKET_SIZE_eq)

text \<open>
  What a sender promises of its datagrams, and how a server's handshake answer and the ACKs of
  a receiver are read.
\<close>

definition sender_promise :: "bytes list \<Rightarrow> option_set \<Rightarrow> nat \<Rightarrow> bytes \<Rightarrow> bool" where
  "sender_promise B oack hi d \<longleftrightarrow> genuine_data B hi d \<and> genuine_oack oack d"

definition receiver_promise :: "option_set \<Rightarrow> nat \<Rightarrow> bytes \<Rightarrow> bool" where
  "receiver_promise oack M d \<longleftrightarrow> genuine_ack M d \<and> genuine_oack oack d"

lemma sender_promise_mono: "sender_promise B oack hi d \<Longrightarrow> hi \<le> hi' \<Longrightarrow> sender_promise B oack hi' d"
  using genuine_data_mono by (auto simp: sender_promise_def)

lemma receiver_promise_mono: "receiver_promise oack M d \<Longrightarrow> M \<le> M' \<Longrightarrow> receiver_promise oack M' d"
  using genuine_ack_mono by (auto simp: receiver_promise_def)

text \<open>
  The arithmetic of a cumulative ACK: a genuine one never moves the window past what the
  receiver accepted, provided a stale number cannot be taken for one ahead.
\<close>

lemma ack_in_bounds:
  assumes "j < M" "lo \<le> M" "lo + w \<le> 65536" "0 < w"
    and "unat ((of_nat j :: u16) - of_nat lo) = 0 \<or> unat ((of_nat j :: u16) - of_nat lo) < w"
  shows "lo + unat ((of_nat j :: u16) - of_nat lo) + 1 \<le> M"
proof (cases "lo \<le> j")
  case True
  have "unat ((of_nat j :: u16) - of_nat lo) = j - lo \<or> 65536 \<le> j - lo"
    using True by (cases "j - lo < 65536") (auto intro: unat_diff_of_nat_u16)
  moreover have "unat ((of_nat j :: u16) - of_nat lo) < 65536" by (rule unat_u16_less)
  ultimately show ?thesis using True assms by linarith
next
  case False
  then have lt: "j < lo" "lo < 65536" using assms by auto
  have "(of_nat j :: u16) - of_nat lo = of_nat (65536 + j) - of_nat lo" by simp
  also have "unat \<dots> = 65536 + j - lo"
    using lt by (intro unat_diff_of_nat_u16) auto
  finally show ?thesis using assms lt by linarith
qed

end
