(* ===== verification/Server_Rrq.thy ===== *)
theory Server_Rrq
  imports Negotiation Path_Safe Transfer_System
begin

text \<open>
  The server as data sender (\<^verbatim>\<open>server.rs\<close>, \<open>serve_rrq\<close> and \<open>RrqSender\<close>). A task is either
  waiting for ACK(0) after its OACK or waiting for an ACK of the window in flight; each
  received event is one step. \<open>rd\<close> reads the file, \<open>opn\<close> and \<open>flen\<close> open it and give its
  length.
\<close>

record 'f rrq_sender =
  rs_peer :: sockaddr
  rs_cfg :: config
  rs_neg :: negotiated
  rs_file :: 'f
  rs_encoder :: "to_wire option"
  rs_pending :: bytes
  rs_eof :: bool
  rs_in_flight :: flight
  rs_next_block :: u16
  rs_last_sent_short :: bool

subsection \<open>Producing blocks\<close>

definition read_one_block ::
  "'f reader \<Rightarrow> 'f rrq_sender \<Rightarrow> (error + bytes option) \<times> 'f rrq_sender" where
  "read_one_block rd s =
     (let blksize = unat (ng_blksize (rs_neg s)) in
      if rs_last_sent_short s then (Inr None, s)
      else (case pull_chunks rd (rs_encoder s) blksize (rs_file s) (rs_pending s) (rs_eof s) of
              (r, file, pending, eof) \<Rightarrow>
                let s1 = s\<lparr>rs_file := file, rs_pending := pending, rs_eof := eof\<rparr> in
                case r of
                  Inl e \<Rightarrow> (Inl e, s1)
                | Inr _ \<Rightarrow>
                    if pending = [] \<and> eof then (Inr (Some []), s1\<lparr>rs_last_sent_short := True\<rparr>)
                    else (case cut_block blksize pending of
                            (block, rest) \<Rightarrow>
                              let s2 = s1\<lparr>rs_pending := rest\<rparr> in
                              (Inr (Some block),
                               if length block < blksize then s2\<lparr>rs_last_sent_short := True\<rparr>
                               else s2))))"

lemma read_one_block_frame:
  assumes "read_one_block rd s = (r, s')"
  shows "rs_peer s' = rs_peer s" "rs_cfg s' = rs_cfg s" "rs_neg s' = rs_neg s"
    "rs_encoder s' = rs_encoder s" "rs_in_flight s' = rs_in_flight s"
    "rs_next_block s' = rs_next_block s"
  using assms
  by (auto simp: read_one_block_def Let_def split: if_splits prod.splits sum.splits)

function fill_window ::
  "'f reader \<Rightarrow> 'f rrq_sender \<Rightarrow> (error + unit) \<times> 'f rrq_sender" where
  "fill_window rd s =
     (if length (rs_in_flight s) < unat (ng_windowsize (rs_neg s)) then
        (case read_one_block rd s of
           (Inl e, s1) \<Rightarrow> (Inl e, s1)
         | (Inr None, s1) \<Rightarrow> (Inr (), s1)
         | (Inr (Some block), s1) \<Rightarrow>
             fill_window rd
               (s1\<lparr>rs_in_flight := rs_in_flight s1 @ [(rs_next_block s1, block)],
                   rs_next_block := rs_next_block s1 + 1\<rparr>))
      else (Inr (), s))"
  by pat_completeness auto
termination
  by (relation "measure (\<lambda>(rd, s). unat (ng_windowsize (rs_neg s)) - length (rs_in_flight s))")
    (auto simp: read_one_block_frame [OF sym])

declare fill_window.simps [simp del]

subsection \<open>Sending and acknowledging\<close>

fun send_flight :: "sockaddr \<Rightarrow> flight \<Rightarrow> net \<Rightarrow> (error + unit) \<times> net" where
  "send_flight peer [] n = (Inr (), n)"
| "send_flight peer ((bn, data) # fl) n =
     (case send_to peer (encode (Data bn data)) n of
        (Inl e, n') \<Rightarrow> (Inl e, n')
      | (Inr _, n') \<Rightarrow> send_flight peer fl n')"

definition send_window :: "'f rrq_sender \<Rightarrow> net \<Rightarrow> (error + unit) \<times> net" where
  "send_window s n = send_flight (rs_peer s) (rs_in_flight s) n"

definition u16_le_in_window :: "u16 \<Rightarrow> u16 \<Rightarrow> u16 \<Rightarrow> bool" where
  "u16_le_in_window bn ack windowsize = (let diff = ack - bn in 0 < diff \<and> diff < windowsize)"

fun server_pop_acked :: "u16 \<Rightarrow> u16 \<Rightarrow> bool \<Rightarrow> flight \<Rightarrow> bool \<times> flight" where
  "server_pop_acked ack windowsize advanced [] = (advanced, [])"
| "server_pop_acked ack windowsize advanced ((bn, d) # fl) =
     (if bn = ack then (True, fl)
      else if u16_le_in_window bn ack windowsize then server_pop_acked ack windowsize True fl
      else (advanced, (bn, d) # fl))"

definition server_consume_ack :: "'f rrq_sender \<Rightarrow> u16 \<Rightarrow> bool \<times> 'f rrq_sender" where
  "server_consume_ack s ack =
     (case server_pop_acked ack (ng_windowsize (rs_neg s)) False (rs_in_flight s) of
        (advanced, fl) \<Rightarrow>
          let s1 = s\<lparr>rs_in_flight := fl\<rparr> in
          if advanced \<and> fl = [] \<and> rs_last_sent_short s then (True, s1) else (advanced, s1))"

interpretation srv_ack: ack_loop server_pop_acked
  by unfold_locales (auto simp: u16_le_in_window_def Let_def)

subsection \<open>The task\<close>

datatype 'f rrq_task =
    RrqClosed
  | RrqOack "'f rrq_sender" option_set u32
  | RrqData "'f rrq_sender" u32

type_synonym 'f rrq_state = "'f rrq_task \<times> net"

text \<open>
  The two loops of \<open>run\<close>. \<open>rrq_send\<close> is the top of the inner loop (send the window, set the
  deadline), \<open>rrq_next_window\<close> the top of the outer one (refill, return when nothing is in
  flight, start with attempt 0).
\<close>

definition rrq_send :: "'f rrq_sender \<Rightarrow> u32 \<Rightarrow> net \<Rightarrow> ('f rrq_state, unit) progress" where
  "rrq_send s attempt n =
     (case send_window s n of
        (Inl e, n') \<Rightarrow> Done (Inl e) (RrqData s attempt, n')
      | (Inr _, n') \<Rightarrow> Running (RrqData s attempt, arm (ng_timeout (rs_neg s)) n'))"

definition rrq_next_window ::
  "'f reader \<Rightarrow> 'f rrq_sender \<Rightarrow> net \<Rightarrow> ('f rrq_state, unit) progress" where
  "rrq_next_window rd s n =
     (case fill_window rd s of
        (Inl e, s1) \<Rightarrow> Done (Inl e) (RrqData s1 0, n)
      | (Inr _, s1) \<Rightarrow>
          if rs_in_flight s1 = [] then Done (Inr ()) (RrqData s1 0, n)
          else rrq_send s1 0 n)"

definition rrq_data_event ::
  "'f reader \<Rightarrow> rx \<Rightarrow> 'f rrq_sender \<Rightarrow> u32 \<Rightarrow> net \<Rightarrow> ('f rrq_state, unit) progress" where
  "rrq_data_event rd ev s attempt n =
     (case recv_one (rs_peer s) ev n of
        (Failed e, n') \<Rightarrow> Done (Inl e) (RrqData s attempt, n')
      | (Stray, n') \<Rightarrow> Running (RrqData s attempt, n')
      | (Elapsed, n') \<Rightarrow>
          if cf_retries (rs_cfg s) \<le> attempt then
            Done (Inl (TimedOut attempt))
              (RrqData s attempt, send_error (rs_peer s) NotDefined (ascii ''timed out'') n')
          else rrq_send s (attempt + 1) n'
      | (Packet_From_Peer d, n') \<Rightarrow>
          (case decode d of
             Inr (Ack block) \<Rightarrow>
               (case server_consume_ack s block of
                  (advanced, s1) \<Rightarrow>
                    if advanced then rrq_next_window rd s1 n' else rrq_send s1 attempt n')
           | Inr (ErrorPkt code msg) \<Rightarrow> Done (Inl (Peer code msg)) (RrqData s attempt, n')
           | _ \<Rightarrow> rrq_send s attempt n'))"

text \<open>
  \<open>send_oack_and_wait_ack0\<close>: attempts \<open>0..=retries\<close>, each one send and one receive;
  anything but ACK(0), ERROR or a timeout uses up its attempt.
\<close>

definition rrq_send_oack ::
  "'f rrq_sender \<Rightarrow> option_set \<Rightarrow> u32 \<Rightarrow> net \<Rightarrow> ('f rrq_state, unit) progress" where
  "rrq_send_oack s oack attempt n =
     (case send_to (rs_peer s) (encode (Oack oack)) n of
        (Inl e, n') \<Rightarrow> Done (Inl e) (RrqOack s oack attempt, n')
      | (Inr _, n') \<Rightarrow> Running (RrqOack s oack attempt, arm (ng_timeout (rs_neg s)) n'))"

definition rrq_oack_retry ::
  "'f rrq_sender \<Rightarrow> option_set \<Rightarrow> u32 \<Rightarrow> net \<Rightarrow> ('f rrq_state, unit) progress" where
  "rrq_oack_retry s oack attempt n =
     (if attempt = cf_retries (rs_cfg s) then
        Done (Inl (TimedOut (cf_retries (rs_cfg s)))) (RrqOack s oack attempt, n)
      else rrq_send_oack s oack (attempt + 1) n)"

definition rrq_oack_event ::
  "'f reader \<Rightarrow> rx \<Rightarrow> 'f rrq_sender \<Rightarrow> option_set \<Rightarrow> u32 \<Rightarrow> net \<Rightarrow> ('f rrq_state, unit) progress" where
  "rrq_oack_event rd ev s oack attempt n =
     (case recv_one (rs_peer s) ev n of
        (Failed e, n') \<Rightarrow> Done (Inl e) (RrqOack s oack attempt, n')
      | (Stray, n') \<Rightarrow> Running (RrqOack s oack attempt, n')
      | (Elapsed, n') \<Rightarrow>
          if attempt = cf_retries (rs_cfg s) then
            Done (Inl (TimedOut attempt)) (RrqOack s oack attempt, n')
          else rrq_oack_retry s oack attempt n'
      | (Packet_From_Peer d, n') \<Rightarrow>
          (case decode d of
             Inr (Ack block) \<Rightarrow>
               if block = 0 then rrq_next_window rd s n' else rrq_oack_retry s oack attempt n'
           | Inr (ErrorPkt code msg) \<Rightarrow> Done (Inl (Peer code msg)) (RrqOack s oack attempt, n')
           | _ \<Rightarrow> rrq_oack_retry s oack attempt n'))"

fun rrq_event :: "'f reader \<Rightarrow> rx \<Rightarrow> 'f rrq_state \<Rightarrow> ('f rrq_state, unit) progress" where
  "rrq_event rd ev (RrqOack s oack attempt, n) = rrq_oack_event rd ev s oack attempt n"
| "rrq_event rd ev (RrqData s attempt, n) = rrq_data_event rd ev s attempt n"
| "rrq_event rd ev (RrqClosed, n) = Running (RrqClosed, n)"

subsection \<open>Starting the task\<close>

definition map_io_to_error :: "sockaddr \<Rightarrow> io_error \<Rightarrow> net \<Rightarrow> error \<times> net" where
  "map_io_to_error peer err n =
     (let (code, msg) = (case kind err of
            KNotFound \<Rightarrow> (FileNotFound, ascii ''file not found'')
          | KPermissionDenied \<Rightarrow> (AccessViolation, ascii ''access violation'')
          | KAlreadyExists \<Rightarrow> (FileExists, ascii ''file already exists'')
          | KOther _ \<Rightarrow> (NotDefined, ascii ''i/o error''))
      in (Io err, send_error peer code msg n))"

definition rrq_sender_new ::
  "sockaddr \<Rightarrow> config \<Rightarrow> negotiated \<Rightarrow> 'f \<Rightarrow> mode \<Rightarrow> 'f rrq_sender" where
  "rrq_sender_new peer cfg neg file m =
     \<lparr>rs_peer = peer, rs_cfg = cfg, rs_neg = neg, rs_file = file,
      rs_encoder = (if m = NetAscii then Some ToWire else None), rs_pending = [],
      rs_eof = False, rs_in_flight = [], rs_next_block = 1, rs_last_sent_short = False\<rparr>"

definition serve_rrq ::
  "'f reader \<Rightarrow> (bytes \<Rightarrow> io_error + 'f) \<Rightarrow> ('f \<Rightarrow> io_error + u64) \<Rightarrow> config \<Rightarrow> sockaddr \<Rightarrow> str \<Rightarrow>
   mode \<Rightarrow> option_set \<Rightarrow> net \<Rightarrow> ('f rrq_state, unit) progress" where
  "serve_rrq rd opn flen cfg peer filename m options n =
     (case resolve (cf_root cfg) filename of
        Inl e \<Rightarrow>
          Done (Inl e) (RrqClosed, send_error peer AccessViolation (ascii ''access violation'') n)
      | Inr path \<Rightarrow>
          (case opn path of
             Inl err \<Rightarrow>
               (case map_io_to_error peer err n of (e, n') \<Rightarrow> Done (Inl e) (RrqClosed, n'))
           | Inr file \<Rightarrow>
               (case flen file of
                  Inl err \<Rightarrow> Done (Inl (Io err)) (RrqClosed, n)
                | Inr file_size \<Rightarrow>
                    (case negotiate cfg options (Some file_size) of
                       None \<Rightarrow> Panicked (RrqClosed, n)
                     | Some (oack, neg) \<Rightarrow>
                         let sender = rrq_sender_new peer cfg neg file m in
                         if \<not> option_set_is_empty oack then rrq_send_oack sender oack 0 n
                         else rrq_next_window rd sender n))))"

subsection \<open>The block producer keeps its contract\<close>

definition rrq_stream :: "('f \<Rightarrow> bytes) \<Rightarrow> 'f rrq_sender \<Rightarrow> bytes" where
  "rrq_stream rem s = rs_pending s @ encode_all (rs_encoder s) (rem (rs_file s))"

definition rrq_ready :: "('f \<Rightarrow> bytes) \<Rightarrow> 'f rrq_sender \<Rightarrow> bool" where
  "rrq_ready rem s \<longleftrightarrow> 0 < unat (ng_blksize (rs_neg s)) \<and> (rs_eof s \<longrightarrow> rem (rs_file s) = [])"

definition rrq_bsize :: "'f rrq_sender \<Rightarrow> nat" where
  "rrq_bsize s = unat (ng_blksize (rs_neg s))"

context byte_source begin

lemma read_one_block_contract:
  assumes "rrq_ready remaining s" "\<not> rs_last_sent_short s" "read_one_block rd s = (Inr r, s')"
  shows "r = Some (take (rrq_bsize s) (rrq_stream remaining s))
    \<and> rrq_stream remaining s' = drop (rrq_bsize s) (rrq_stream remaining s)
    \<and> rs_last_sent_short s' = (length (rrq_stream remaining s) < rrq_bsize s)
    \<and> rrq_ready remaining s' \<and> rrq_bsize s' = rrq_bsize s"
proof -
  let ?k = "unat (ng_blksize (rs_neg s))"
  let ?E = "encode_all (rs_encoder s)"
  obtain q f p e where pull:
    "pull_chunks rd (rs_encoder s) ?k (rs_file s) (rs_pending s) (rs_eof s) = (q, f, p, e)"
    using prod_cases4 by blast
  with assms(2,3) have q: "q = Inr ()"
    by (cases q) (auto simp: read_one_block_def Let_def)
  have k: "0 < ?k" and eof: "rs_eof s \<Longrightarrow> remaining (rs_file s) = []"
    using assms(1) by (auto simp: rrq_ready_def)
  have stream: "p @ ?E (remaining f) = rrq_stream remaining s"
    and e: "e \<Longrightarrow> remaining f = []" and full: "?k \<le> length p \<or> e"
    using pull_chunks_stream [OF pull [unfolded q] eof k] by (simp_all add: rrq_stream_def)
  have run: "r = Some (take ?k p)
    \<and> s' = s\<lparr>rs_file := f, rs_eof := e, rs_pending := drop ?k p, rs_last_sent_short := length p < ?k\<rparr>"
    using assms(2,3) pull k
    by (cases s) (auto simp: read_one_block_def Let_def q cut_block_eq split: if_splits)
  have short: "length (rrq_stream remaining s) < ?k \<longleftrightarrow> length p < ?k"
    "take ?k (rrq_stream remaining s) = take ?k p"
    "drop ?k (rrq_stream remaining s) = drop ?k p @ ?E (remaining f)"
    using full e by (auto simp flip: stream)
  show ?thesis
    unfolding rrq_bsize_def short using run k e
    by (simp add: rrq_ready_def rrq_stream_def)
qed

end

sublocale byte_source \<subseteq> srv: block_stream "read_one_block rd" "rrq_stream remaining"
  rs_last_sent_short "rrq_ready remaining" rrq_bsize
proof unfold_locales
  fix s :: "'f rrq_sender" and s' r
  show "rs_last_sent_short s \<Longrightarrow> read_one_block rd s = (Inr None, s)"
    by (simp add: read_one_block_def)
  show "rrq_ready remaining s \<Longrightarrow> 0 < rrq_bsize s"
    by (simp add: rrq_ready_def rrq_bsize_def)
  show "rrq_ready remaining s \<Longrightarrow> \<not> rs_last_sent_short s \<Longrightarrow> read_one_block rd s = (Inr r, s') \<Longrightarrow>
    r = Some (take (rrq_bsize s) (rrq_stream remaining s))
    \<and> rrq_stream remaining s' = drop (rrq_bsize s) (rrq_stream remaining s)
    \<and> rs_last_sent_short s' = (length (rrq_stream remaining s) < rrq_bsize s)
    \<and> rrq_ready remaining s' \<and> rrq_bsize s' = rrq_bsize s"
    by (rule read_one_block_contract)
qed

subsection \<open>The window\<close>

lemma fill_window_frame:
  assumes "fill_window rd s = (r, s')"
  shows "rs_peer s' = rs_peer s \<and> rs_cfg s' = rs_cfg s \<and> rs_neg s' = rs_neg s"
  using assms
proof (induction "unat (ng_windowsize (rs_neg s)) - length (rs_in_flight s)" arbitrary: s rule: less_induct)
  case less
  note unf = fill_window.simps [of rd s]
  show ?case
  proof (cases "length (rs_in_flight s) < unat (ng_windowsize (rs_neg s))")
    case True
    obtain q s1 where q: "read_one_block rd s = (q, s1)" by fastforce
    note frame = read_one_block_frame [OF q]
    show ?thesis
    proof (cases "\<exists>b. q = Inr (Some b)")
      case Some: True
      then obtain b where b: "q = Inr (Some b)" by blast
      let ?s = "s1\<lparr>rs_in_flight := rs_in_flight s1 @ [(rs_next_block s1, b)], rs_next_block := rs_next_block s1 + 1\<rparr>"
      have "fill_window rd ?s = (r, s')"
        using less.prems True q b unf by simp
      moreover have "unat (ng_windowsize (rs_neg ?s)) - length (rs_in_flight ?s)
          < unat (ng_windowsize (rs_neg s)) - length (rs_in_flight s)"
        using True frame by simp
      ultimately show ?thesis using less.hyps [of ?s] frame by simp
    next
      case False
      with less.prems True q unf have "s' = s1"
        by (cases q) (auto split: option.splits)
      with frame show ?thesis by simp
    qed
  next
    case False
    with less.prems unf show ?thesis by simp
  qed
qed

context byte_source begin

text \<open>Blocks \<open>lo, \<dots>, hi - 1\<close> of \<open>B\<close> are in flight, the later ones still to be read.\<close>

definition rrq_rel :: "bytes list \<Rightarrow> nat \<Rightarrow> nat \<Rightarrow> 'f rrq_sender \<Rightarrow> bool" where
  "rrq_rel B lo hi s \<longleftrightarrow> rs_in_flight s = flight_of B lo hi \<and> rs_next_block s = of_nat hi
     \<and> 1 \<le> lo \<and> lo \<le> hi \<and> srv.at_block B hi s"

lemma rrq_rel_bound: "rrq_rel B lo hi s \<Longrightarrow> 1 \<le> lo \<and> lo \<le> hi \<and> hi \<le> length B + 1"
  using srv.at_block_bound by (auto simp: rrq_rel_def)

lemma rrq_rel_push:
  assumes "rrq_rel B lo hi s" "read_one_block rd s = (Inr (Some b), s1)"
  shows "rrq_rel B lo (hi + 1)
      (s1\<lparr>rs_in_flight := rs_in_flight s1 @ [(rs_next_block s1, b)], rs_next_block := rs_next_block s1 + 1\<rparr>)
    \<and> hi \<le> length B"
proof -
  have at: "srv.at_block B hi s" "lo \<le> hi" using assms(1) by (simp_all add: rrq_rel_def)
  have "srv.at_block B (hi + 1) (s1\<lparr>rs_in_flight := fl, rs_next_block := nb\<rparr>) = srv.at_block B (hi + 1) s1"
    for fl nb
    by (simp add: srv.at_block_def rrq_ready_def rrq_stream_def rrq_bsize_def)
  with srv.at_block_Some [OF at(1) assms(2)] read_one_block_frame [OF assms(2)] assms(1)
  show ?thesis
    using flight_of_snoc [OF at(2), of B] by (simp add: rrq_rel_def add.commute)
qed

lemma fill_window_rel:
  assumes "rrq_rel B lo hi s" "fill_window rd s = (Inr u, s')"
  shows "rrq_rel B lo (max hi (min (lo + unat (ng_windowsize (rs_neg s))) (length B + 1))) s'"
  using assms
proof (induction "unat (ng_windowsize (rs_neg s)) - (hi - lo)" arbitrary: s hi)
  case 0
  then have "\<not> length (rs_in_flight s) < unat (ng_windowsize (rs_neg s))"
    by (simp add: rrq_rel_def)
  moreover have "max hi (min (lo + unat (ng_windowsize (rs_neg s))) (length B + 1)) = hi"
    using 0 rrq_rel_bound [OF 0(2)] by auto
  ultimately show ?case
    using 0 by (simp add: fill_window.simps [of rd s])
next
  case (Suc k)
  have "length (rs_in_flight s) = hi - lo" using Suc.prems(1) by (simp add: rrq_rel_def)
  with Suc.hyps(2) have lt: "length (rs_in_flight s) < unat (ng_windowsize (rs_neg s))"
    by linarith
  obtain q s1 where q: "read_one_block rd s = (q, s1)" by fastforce
  with Suc.prems(2) lt obtain ob where ob: "q = Inr ob"
    by (cases q) (simp_all add: fill_window.simps [of rd s])
  show ?case
  proof (cases ob)
    case None
    then have "hi = length B + 1 \<and> s1 = s"
      using srv.at_block_None [of B hi s s1] Suc.prems(1) q ob by (simp add: rrq_rel_def)
    with None q ob lt Suc.prems show ?thesis
      by (simp add: fill_window.simps [of rd s])
  next
    case (Some b)
    let ?s = "s1\<lparr>rs_in_flight := rs_in_flight s1 @ [(rs_next_block s1, b)], rs_next_block := rs_next_block s1 + 1\<rparr>"
    note push = rrq_rel_push [OF Suc.prems(1) q [unfolded ob Some]]
    have run: "fill_window rd ?s = (Inr u, s')"
      using Suc.prems(2) lt q ob Some by (simp add: fill_window.simps [of rd s])
    have neg: "rs_neg ?s = rs_neg s" using read_one_block_frame [OF q] by simp
    have "k = unat (ng_windowsize (rs_neg ?s)) - (hi + 1 - lo)"
      using Suc.hyps(2) rrq_rel_bound [OF Suc.prems(1)] by (simp add: neg)
    from Suc.hyps(1) [OF this _ run] push
    have "rrq_rel B lo (max (hi + 1) (min (lo + unat (ng_windowsize (rs_neg s))) (length B + 1))) s'"
      by (simp add: neg)
    moreover have "max (hi + 1) (min (lo + unat (ng_windowsize (rs_neg s))) (length B + 1))
        = max hi (min (lo + unat (ng_windowsize (rs_neg s))) (length B + 1))"
      using lt push Suc.prems(1) by (auto simp: rrq_rel_def)
    ultimately show ?thesis by simp
  qed
qed

lemma server_consume_ack_rel:
  assumes "rrq_rel B lo hi s" "server_consume_ack s ack = (adv, s')"
  shows "let d = unat (ack - of_nat lo);
             hit = (lo < hi \<and> (d = 0 \<or> d < unat (ng_windowsize (rs_neg s)))) in
    adv = hit \<and> rrq_rel B (if hit then min hi (lo + d + 1) else lo) hi s'
    \<and> rs_peer s' = rs_peer s \<and> rs_cfg s' = rs_cfg s \<and> rs_neg s' = rs_neg s"
proof -
  have "srv.at_block B hi (s\<lparr>rs_in_flight := fl\<rparr>) = srv.at_block B hi s" for fl
    by (simp add: srv.at_block_def rrq_ready_def rrq_stream_def rrq_bsize_def)
  with assms show ?thesis
    by (auto simp: server_consume_ack_def srv_ack.pops_window rrq_rel_def Let_def min_def
        split: if_splits)
qed

end

subsection \<open>Retransmission\<close>

lemma send_flight_ok:
  "faults n = [] \<Longrightarrow> send_flight peer fl n =
     (Inr (), n\<lparr>outbox := outbox n @ map (\<lambda>(bn, d). (peer, encode (Data bn d))) fl\<rparr>)"
  by (induction peer fl n rule: send_flight.induct) auto

text \<open>A flight is in transit when all of it has been sent; it is no longer than the window \<open>w\<close>.\<close>

definition in_transit :: "sockaddr \<Rightarrow> flight \<Rightarrow> u16 \<Rightarrow> net \<Rightarrow> bool" where
  "in_transit peer fl w n \<longleftrightarrow> fl \<noteq> [] \<and> length fl \<le> unat w
     \<and> (\<forall>(bn, d) \<in> set fl. (peer, encode (Data bn d)) \<in> set (outbox n))"

lemma in_transit_flight: "in_transit p (flight_of B lo hi) w n \<Longrightarrow> lo < hi \<and> hi - lo \<le> unat w"
  by (auto simp: in_transit_def)

lemma in_transit_later: "in_transit peer fl w n \<Longrightarrow> sends_only P n n' \<Longrightarrow> in_transit peer fl w n'"
  by (fastforce simp: in_transit_def sends_only_def)

lemma in_transit_arm [simp]: "in_transit peer fl w (arm d n) = in_transit peer fl w n"
  by (simp add: in_transit_def arm_def)

lemma send_flight_transit:
  assumes "send_flight peer fl n = (Inr u, n')"
  shows "set (outbox n) \<subseteq> set (outbox n') \<and> (\<forall>(bn, d) \<in> set fl. (peer, encode (Data bn d)) \<in> set (outbox n'))"
  using assms
proof (induction peer fl n rule: send_flight.induct)
  case (2 peer bn data fl n)
  obtain q n1 where s: "send_to peer (encode (Data bn data)) n = (q, n1)" by fastforce
  with 2(2) obtain v where q: "q = Inr v" by (cases q) simp_all
  then have "outbox n1 = outbox n @ [(peer, encode (Data bn data))]"
    using s by (auto simp: send_to_def split: list.splits option.splits)
  with 2(1) [OF s [symmetric] q] 2(2) s q show ?case by auto
qed simp

interpretation rrq_retry: retrying "rrq_event rd" "\<lambda>a n. (RrqData s a, n)" "\<lambda>n. faults n = []"
  "cf_retries (rs_cfg s)" for rd s
  by unfold_locales
    (auto simp: rrq_data_event_def recv_one_def rrq_send_def send_window_def send_flight_ok)

interpretation oack_retry: retrying "rrq_event rd" "\<lambda>a n. (RrqOack s oack a, n)" "\<lambda>n. faults n = []"
  "cf_retries (rs_cfg s)" for rd s oack
  by unfold_locales
    (auto simp: rrq_oack_event_def recv_one_def rrq_oack_retry_def rrq_send_oack_def)

subsection \<open>The sender's side of the transfer contract\<close>

text \<open>
  What a download sends to its peer: the blocks below \<open>hi\<close> under their numbers, the OACK, or
  an ERROR.
\<close>

definition rrq_datagram :: "bytes list \<Rightarrow> option_set \<Rightarrow> nat \<Rightarrow> bytes \<Rightarrow> bool" where
  "rrq_datagram B oack hi d \<longleftrightarrow>
     (\<exists>k. 1 \<le> k \<and> k < hi \<and> k \<le> length B \<and> d = encode (Data (of_nat k) (B ! (k - 1))))
     \<or> (\<not> option_set_is_empty oack \<and> d = encode (Oack oack)) \<or> (\<exists>c msg. d = encode (ErrorPkt c msg))"

lemma rrq_datagram_block [intro]:
  "1 \<le> k \<Longrightarrow> k < hi \<Longrightarrow> k \<le> length B \<Longrightarrow>
   rrq_datagram B oack hi (encode (Data (of_nat k) (B ! (k - 1))))"
  by (auto simp: rrq_datagram_def)

text \<open>How the client reads such a datagram.\<close>

lemma rrq_datagram_genuine:
  assumes "rrq_datagram B oack hi d" "option_set_ok oack" "\<forall>b \<in> set B. length b \<le> 65464"
  shows "sender_promise B oack hi d"
  using assms(1) unfolding rrq_datagram_def
proof (elim disjE exE conjE)
  fix k
  assume k: "1 \<le> k" "k < hi" "k \<le> length B" "d = encode (Data (of_nat k) (B ! (k - 1)))"
  have "k - 1 < length B" using k by linarith
  with assms(3) have "length (B ! (k - 1)) \<le> 65464" by simp
  with k genuine_data_block [of k B hi] genuine_oack_packet [of "Data (of_nat k) (B ! (k - 1))" oack]
  show ?thesis by (simp add: sender_promise_def)
next
  assume "\<not> option_set_is_empty oack" "d = encode (Oack oack)"
  with genuine_oack_oack [OF assms(2)] genuine_data_packet [of "Oack oack"]
  show ?thesis by (simp add: sender_promise_def)
next
  fix c msg
  assume "d = encode (ErrorPkt c msg)"
  with genuine_oack_packet [of "ErrorPkt c msg" oack] genuine_data_packet [of "ErrorPkt c msg"]
  show ?thesis by (simp add: sender_promise_def)
qed

definition rrq_sends :: "bytes list \<Rightarrow> option_set \<Rightarrow> nat \<Rightarrow> sockaddr \<Rightarrow> net \<Rightarrow> net \<Rightarrow> bool" where
  "rrq_sends B oack hi peer = sends_only (\<lambda>x. fst x = peer \<longrightarrow> rrq_datagram B oack hi (snd x))"

lemma send_flight_sends:
  "(\<And>bn d. (bn, d) \<in> set fl \<Longrightarrow> P (peer, encode (Data bn d))) \<Longrightarrow>
   sends_only P n (snd (send_flight peer fl n))"
proof (induction peer fl n rule: send_flight.induct)
  case (2 peer bn data fl n)
  obtain r n1 where s: "send_to peer (encode (Data bn data)) n = (r, n1)" by fastforce
  with 2 have one: "sends_only P n n1" using sends_only_send [of P peer] by (metis list.set_intros(1) snd_conv)
  show ?case
  proof (cases r)
    case (Inl e)
    with s one show ?thesis by simp
  next
    case (Inr u)
    with 2 s have "sends_only P n1 (snd (send_flight peer fl n1))" by simp
    with one s Inr show ?thesis by (auto intro: sends_only_trans)
  qed
qed simp

lemma flight_of_mem:
  "(bn, d) \<in> set (flight_of B lo hi) \<Longrightarrow> 1 \<le> lo \<Longrightarrow> hi \<le> length B + 1 \<Longrightarrow>
   \<exists>k. bn = of_nat k \<and> d = B ! (k - 1) \<and> 1 \<le> k \<and> k < hi \<and> k \<le> length B"
  by (auto simp: flight_of_def)

lemma send_window_sends:
  assumes "rs_in_flight s = flight_of B lo hi" "1 \<le> lo" "hi \<le> length B + 1"
  shows "rrq_sends B oack hi (rs_peer s) n (snd (send_window s n))"
  unfolding rrq_sends_def send_window_def
proof (rule send_flight_sends)
  fix bn d
  assume "(bn, d) \<in> set (rs_in_flight s)"
  then obtain k where "bn = of_nat k" "d = B ! (k - 1)" "1 \<le> k" "k < hi" "k \<le> length B"
    using flight_of_mem [of bn d B lo hi] assms by auto
  then show "fst (rs_peer s, encode (Data bn d)) = rs_peer s \<longrightarrow>
      rrq_datagram B oack hi (snd (rs_peer s, encode (Data bn d)))"
    using rrq_datagram_block [of k hi B oack] by simp
qed

lemma rrq_recv_sends:
  "recv_one peer ev n = (r, n') \<Longrightarrow> rrq_sends B oack hi peer n n'"
  unfolding rrq_sends_def by (rule recv_one_sends) auto

lemma rrq_sends_trans [trans]:
  "rrq_sends B oack hi p n n' \<Longrightarrow> rrq_sends B oack hi p n' n'' \<Longrightarrow> rrq_sends B oack hi p n n''"
  unfolding rrq_sends_def by (rule sends_only_trans)

lemma rrq_sends_refl [simp]: "rrq_sends B oack hi p n n"
  by (simp add: rrq_sends_def)

lemma rrq_sends_arm [simp]: "rrq_sends B oack hi p n (arm d n') = rrq_sends B oack hi p n n'"
  by (simp add: rrq_sends_def)

lemma rrq_sends_error: "rrq_sends B oack hi p n (send_error p c msg n)"
  unfolding rrq_sends_def by (rule sends_only_send_error) (auto simp: rrq_datagram_def)

context byte_source begin

text \<open>
  The invariant of a waiting task whose peer has acknowledged the blocks below \<open>lo\<close> and which has
  sent those below \<open>hi\<close>, and the postcondition of a step.
\<close>

definition rrq_srel ::
  "bytes list \<Rightarrow> option_set \<Rightarrow> sockaddr \<Rightarrow> negotiated \<Rightarrow> nat \<Rightarrow> nat \<Rightarrow> 'f rrq_state \<Rightarrow> bool" where
  "rrq_srel B oack peer neg lo hi st \<longleftrightarrow>
     (case fst st of
        RrqData s _ \<Rightarrow> rrq_rel B lo hi s \<and> rs_peer s = peer \<and> rs_neg s = neg
          \<and> in_transit peer (rs_in_flight s) (ng_windowsize neg) (snd st)
      | RrqOack s oack' _ \<Rightarrow> lo = 0 \<and> hi = 1 \<and> rrq_rel B 1 1 s \<and> rs_peer s = peer \<and> rs_neg s = neg
          \<and> oack' = oack \<and> \<not> option_set_is_empty oack
          \<and> (peer, encode (Oack oack)) \<in> set (outbox (snd st))
      | RrqClosed \<Rightarrow> False)"

definition rrq_post ::
  "bytes list \<Rightarrow> option_set \<Rightarrow> sockaddr \<Rightarrow> negotiated \<Rightarrow> nat \<Rightarrow> nat \<Rightarrow> net \<Rightarrow>
   ('f rrq_state, unit) progress \<Rightarrow> bool" where
  "rrq_post B oack peer neg lo hi n p \<longleftrightarrow>
     (\<forall>st. p = Running st \<longrightarrow> rrq_srel B oack peer neg lo hi st)
     \<and> (\<forall>r st. p = Done (Inr r) st \<longrightarrow> lo = length B + 1)
     \<and> hi \<le> length B + 1 \<and> hi - lo \<le> unat (ng_windowsize neg)
     \<and> rrq_sends B oack hi peer n (snd (state_of p))"

lemma rrq_post_trans:
  "rrq_sends B oack hi peer n n' \<Longrightarrow> rrq_post B oack peer neg lo hi n' p \<Longrightarrow>
   rrq_post B oack peer neg lo hi n p"
  unfolding rrq_post_def using rrq_sends_trans by blast

lemma rrq_post_failed: "rrq_sends B oack hi peer n (snd st) \<Longrightarrow> hi \<le> length B + 1 \<Longrightarrow> hi - lo \<le> unat (ng_windowsize neg) \<Longrightarrow>
   rrq_post B oack peer neg lo hi n (Done (Inl e) st)"
  by (simp add: rrq_post_def)

lemma rrq_send_post:
  assumes "rrq_rel B lo hi s" "lo < hi" "hi - lo \<le> unat (ng_windowsize (rs_neg s))"
  shows "rrq_post B oack (rs_peer s) (rs_neg s) lo hi n (rrq_send s a n)"
proof -
  have "rrq_sends B oack hi (rs_peer s) n (snd (send_window s n))"
    using assms rrq_rel_bound [OF assms(1)] by (intro send_window_sends) (auto simp: rrq_rel_def)
  moreover have "in_transit (rs_peer s) (rs_in_flight s) (ng_windowsize (rs_neg s)) n'"
    if "send_window s n = (Inr u, n')" for u n'
    using send_flight_transit [OF that [unfolded send_window_def]] assms
    by (auto simp: in_transit_def rrq_rel_def)
  ultimately show ?thesis
    using assms(1,3) rrq_rel_bound [OF assms(1)]
    by (auto simp: rrq_send_def rrq_post_def rrq_srel_def split: prod.splits sum.splits)
qed

lemma rrq_next_window_post:
  assumes "rrq_rel B lo hi s" "0 < unat (ng_windowsize (rs_neg s))"
    and "hi - lo \<le> unat (ng_windowsize (rs_neg s))"
  shows "\<exists>hi' \<ge> hi. rrq_post B oack (rs_peer s) (rs_neg s) lo hi' n (rrq_next_window rd s n)"
proof -
  obtain r s1 where f: "fill_window rd s = (r, s1)" by fastforce
  note frame = fill_window_frame [OF f]
  show ?thesis
  proof (cases r)
    case (Inl e)
    with f rrq_rel_bound [OF assms(1)] assms(3) show ?thesis by (auto simp: rrq_next_window_def rrq_post_def)
  next
    case (Inr u)
    let ?hi = "max hi (min (lo + unat (ng_windowsize (rs_neg s))) (length B + 1))"
    from f Inr have rel: "rrq_rel B lo ?hi s1"
      using fill_window_rel [OF assms(1)] by simp
    show ?thesis
    proof (cases "rs_in_flight s1 = []")
      case True
      have "rs_in_flight s1 = flight_of B lo ?hi" using rel unfolding rrq_rel_def by blast
      with True have "?hi \<le> lo" by (metis flight_of_Nil_iff)
      with assms(2) rrq_rel_bound [OF assms(1)] have "lo = length B + 1" by linarith
      with f Inr True rrq_rel_bound [OF assms(1)] assms(3) show ?thesis by (auto simp: rrq_next_window_def rrq_post_def)
    next
      case False
      with f Inr have "rrq_next_window rd s n = rrq_send s1 0 n"
        by (simp add: rrq_next_window_def)
      moreover have "rs_in_flight s1 = flight_of B lo ?hi" using rel unfolding rrq_rel_def by blast
      with False have "lo < ?hi" by (metis flight_of_Nil_iff not_le)
      moreover have "?hi - lo \<le> unat (ng_windowsize (rs_neg s))" using assms(3) by linarith
      ultimately show ?thesis using rrq_send_post [OF rel] frame by (intro exI [of _ ?hi]) simp
    qed
  qed
qed

lemma rrq_ack_post:
  assumes "rrq_rel B lo hi s" "lo \<le> M" "length B + 1 + unat (ng_windowsize (rs_neg s)) \<le> 65536"
    and "0 < unat (ng_windowsize (rs_neg s))" "j < M" "lo < hi" "hi - lo \<le> unat (ng_windowsize (rs_neg s))"
  shows "\<exists>lo' \<in> {lo..M}. \<exists>hi' \<ge> hi. rrq_post B oack (rs_peer s) (rs_neg s) lo' hi' n
     (case server_consume_ack s (of_nat j) of
        (advanced, s1) \<Rightarrow> if advanced then rrq_next_window rd s1 n else rrq_send s1 a n)"
proof -
  let ?w = "unat (ng_windowsize (rs_neg s))"
  let ?d = "unat (of_nat j - of_nat lo :: u16)"
  let ?hit = "lo < hi \<and> (?d = 0 \<or> ?d < ?w)"
  obtain adv s1 where c: "server_consume_ack s (of_nat j) = (adv, s1)" by fastforce
  note r = server_consume_ack_rel [OF assms(1) c, unfolded Let_def]
  show ?thesis
  proof (cases ?hit)
    case True
    let ?lo = "min hi (lo + ?d + 1)"
    have "lo + ?w \<le> 65536" using rrq_rel_bound [OF assms(1)] assms(3) by linarith
    then have "lo + ?d + 1 \<le> M"
      using assms(2,4,5) True by (intro ack_in_bounds) auto
    with True have lo: "?lo \<in> {lo..M}" by simp
    have "\<exists>hi' \<ge> hi. rrq_post B oack (rs_peer s1) (rs_neg s1) ?lo hi' n (rrq_next_window rd s1 n)"
      using r True assms(4,7) by (intro rrq_next_window_post) auto
    with lo show ?thesis using c r True by (intro bexI [of _ ?lo]) simp_all
  next
    case False
    then have "rrq_post B oack (rs_peer s1) (rs_neg s1) lo hi n (rrq_send s1 a n)"
      using r assms(6,7) by (intro rrq_send_post) auto
    then show ?thesis using c r False assms(2) by (intro bexI [of _ lo] exI [of _ hi]) simp_all
  qed
qed

text \<open>The answer to any event in the data phase; whatever is not an ACK resends the window.\<close>

lemma rrq_data_event_post:
  assumes "rrq_rel B lo hi s" "lo \<le> M" "length B + 1 + unat (ng_windowsize (rs_neg s)) \<le> 65536"
    and "0 < unat (ng_windowsize (rs_neg s))"
    and transit: "in_transit (rs_peer s) (rs_in_flight s) (ng_windowsize (rs_neg s)) n"
    and ack: "\<forall>d. ev = RxFrom (rs_peer s) d \<longrightarrow> genuine_ack M d"
  shows "\<exists>lo' \<in> {lo..M}. \<exists>hi' \<ge> hi. rrq_post B oack (rs_peer s) (rs_neg s) lo' hi' n (rrq_data_event rd ev s a n)"
proof -
  obtain r n' where rx: "recv_one (rs_peer s) ev n = (r, n')" by fastforce
  note snt = rrq_recv_sends [OF rx, of B oack]
  have len: "lo < hi" "hi - lo \<le> unat (ng_windowsize (rs_neg s))"
    using transit assms(1) by (auto simp: in_transit_def rrq_rel_def)
  have rel: "rrq_srel B oack (rs_peer s) (rs_neg s) lo hi (RrqData s a, n')"
    using assms(1) in_transit_later [OF transit] snt by (auto simp: rrq_srel_def rrq_sends_def)
  let ?post = "rrq_post B oack (rs_peer s) (rs_neg s) lo hi n"
  have hi: "hi \<le> length B + 1" using rrq_rel_bound [OF assms(1)] by simp
  have again: "?post (rrq_send s a' n')" for a'
    using rrq_post_trans [OF snt rrq_send_post [OF assms(1) len]] .
  have failed: "?post (Done (Inl e) (t, n'))" for e t
    using snt hi len(2) by (simp add: rrq_post_failed)
  have told: "?post (Done (Inl e) (t, send_error (rs_peer s) c msg n'))" for e t c msg
    using rrq_sends_trans [OF snt rrq_sends_error] hi len(2) by (simp add: rrq_post_failed)
  show ?thesis
  proof (cases "\<exists>d b. r = Packet_From_Peer d \<and> decode d = Inr (Ack b)")
    case True
    then obtain d b where d: "r = Packet_From_Peer d" "decode d = Inr (Ack b)" by blast
    then obtain d' where "ev = RxFrom (rs_peer s) d'" "d = rx_buffer d'"
      using rx by (auto simp: recv_one_def split: rx.splits if_splits)
    with ack d obtain j where j: "j < M" "b = of_nat j" by (auto simp: genuine_ack_def)
    from rrq_ack_post [OF assms(1-4) j(1) len, of oack n' a] obtain lo' hi' where "lo' \<in> {lo..M}" "hi \<le> hi'"
      "rrq_post B oack (rs_peer s) (rs_neg s) lo' hi' n
        (case server_consume_ack s (of_nat j) of
           (advanced, s1) \<Rightarrow> if advanced then rrq_next_window rd s1 n' else rrq_send s1 a n')"
      using rrq_post_trans [OF snt] by blast
    then show ?thesis using rx d j by (auto simp: rrq_data_event_def)
  next
    case no: False
    have "?post (rrq_data_event rd ev s a n)"
    proof (cases r)
      case (Packet_From_Peer d)
      with rx no again [of a] failed show ?thesis
        by (auto simp: rrq_data_event_def split: sum.splits packet.splits)
    next
      case Stray
      with rx rel snt hi len(2) show ?thesis by (simp add: rrq_data_event_def rrq_post_def)
    qed (use rx again [of "a + 1"] failed told in \<open>auto simp: rrq_data_event_def\<close>)
    with assms(2) show ?thesis by (intro bexI [of _ lo] exI [of _ hi]) simp_all
  qed
qed

text \<open>The handshake: the data phase starts on ACK(0), which the peer sends once it is ready.\<close>

lemma rrq_send_oack_post:
  assumes "rrq_rel B 1 1 s" "\<not> option_set_is_empty oack" "0 < unat (ng_windowsize (rs_neg s))"
  shows "rrq_post B oack (rs_peer s) (rs_neg s) 0 1 n (rrq_send_oack s oack a n)"
proof -
  obtain r n' where s: "send_to (rs_peer s) (encode (Oack oack)) n = (r, n')" by fastforce
  have "rrq_sends B oack 1 (rs_peer s) n n'"
    unfolding rrq_sends_def using assms(2) s
      sends_only_send [of "\<lambda>x. fst x = rs_peer s \<longrightarrow> rrq_datagram B oack 1 (snd x)"
        "rs_peer s" "encode (Oack oack)" n]
    by (simp add: rrq_datagram_def)
  with assms s send_to_sent [OF s] show ?thesis
    by (cases r) (simp_all add: rrq_send_oack_def rrq_post_def rrq_srel_def)
qed

lemma rrq_oack_retry_post:
  assumes "rrq_rel B 1 1 s" "\<not> option_set_is_empty oack" "0 < unat (ng_windowsize (rs_neg s))"
  shows "rrq_post B oack (rs_peer s) (rs_neg s) 0 1 n (rrq_oack_retry s oack a n)"
  using rrq_send_oack_post [OF assms] assms(3) by (simp add: rrq_oack_retry_def rrq_post_failed)

lemma rrq_oack_event_post:
  assumes rel: "rrq_rel B 1 1 s" and oack: "\<not> option_set_is_empty oack"
    and offered: "(rs_peer s, encode (Oack oack)) \<in> set (outbox n)"
    and w: "0 < unat (ng_windowsize (rs_neg s))"
    and ack: "\<forall>d. ev = RxFrom (rs_peer s) d \<longrightarrow> genuine_ack M d"
  shows "\<exists>lo' \<le> M. \<exists>hi' \<ge> 1. (M = 0 \<longrightarrow> hi' = 1)
    \<and> rrq_post B oack (rs_peer s) (rs_neg s) lo' hi' n (rrq_oack_event rd ev s oack a n)"
proof -
  let ?post = "\<lambda>lo hi. rrq_post B oack (rs_peer s) (rs_neg s) lo hi n"
  obtain r n' where rx: "recv_one (rs_peer s) ev n = (r, n')" by fastforce
  note snt = rrq_recv_sends [OF rx, of B oack]
  have retry: "?post 0 1 (rrq_oack_retry s oack a n')"
    using rrq_post_trans [OF snt rrq_oack_retry_post [OF rel oack w]] .
  have failed: "?post 0 1 (Done (Inl e) (t, n'))" for e t
    using snt w by (simp add: rrq_post_failed)
  show ?thesis
  proof (cases r)
    case Stray
    moreover have "(rs_peer s, encode (Oack oack)) \<in> set (outbox n')"
      using sends_only_keeps [OF snt [where hi = 1, unfolded rrq_sends_def] offered] .
    ultimately have "?post 0 1 (rrq_oack_event rd ev s oack a n)"
      using rx snt rel oack w by (simp add: rrq_oack_event_def rrq_post_def rrq_srel_def)
    then show ?thesis by blast
  next
    case (Packet_From_Peer d)
    then obtain d' where d: "ev = RxFrom (rs_peer s) d'" "d = rx_buffer d'"
      using rx by (auto simp: recv_one_def split: rx.splits if_splits)
    show ?thesis
    proof (cases "decode d = Inr (Ack 0)")
      case True
      with ack d have M: "1 \<le> M" by (force simp: genuine_ack_def)
      obtain hi' where "1 \<le> hi'" "?post 1 hi' (rrq_next_window rd s n')"
        using rrq_post_trans [OF snt] rrq_next_window_post [OF rel w, of oack n'] by auto
      with M rx Packet_From_Peer True show ?thesis
        by (intro exI [of _ 1] conjI exI [of _ hi']) (simp_all add: rrq_oack_event_def)
    next
      case False
      then have "?post 0 1 (rrq_oack_event rd ev s oack a n)"
        using rx Packet_From_Peer retry failed
        by (auto simp: rrq_oack_event_def split: sum.splits packet.splits)
      then show ?thesis by blast
    qed
  next
    case Elapsed
    with rx retry failed have "?post 0 1 (rrq_oack_event rd ev s oack a n)"
      by (simp add: rrq_oack_event_def)
    then show ?thesis by blast
  next
    case (Failed e)
    with rx failed have "?post 0 1 (rrq_oack_event rd ev s oack a n)"
      by (simp add: rrq_oack_event_def)
    then show ?thesis by blast
  qed
qed

lemma rrq_event_post:
  assumes "rrq_srel B oack peer neg lo hi st" "lo \<le> M" "length B + 1 + unat (ng_windowsize neg) \<le> 65536"
    and "0 < unat (ng_windowsize neg)" "\<forall>d. ev = RxFrom peer d \<longrightarrow> genuine_ack M d"
  shows "\<exists>lo' \<in> {lo..M}. \<exists>hi' \<ge> hi. (M = 0 \<longrightarrow> hi' = 1) \<and> rrq_post B oack peer neg lo' hi' (snd st) (rrq_event rd ev st)"
proof -
  obtain task n where st: "st = (task, n)" by fastforce
  show ?thesis
  proof (cases task)
    case (RrqOack s o' a)
    with assms(1) st have "rrq_rel B 1 1 s" "\<not> option_set_is_empty oack" "o' = oack" "lo = 0" "hi = 1"
      "(peer, encode (Oack oack)) \<in> set (outbox n)"
      "rs_peer s = peer" "rs_neg s = neg" by (simp_all add: rrq_srel_def)
    with rrq_oack_event_post [of B s oack n ev M a] assms(4,5) st RrqOack show ?thesis by auto
  next
    case (RrqData s a)
    with assms(1) st have rel: "rrq_rel B lo hi s" "rs_peer s = peer" "rs_neg s = neg"
      "in_transit peer (rs_in_flight s) (ng_windowsize neg) n"
      by (simp_all add: rrq_srel_def)
    have "0 < M" using rrq_rel_bound [OF rel(1)] assms(2) by simp
    with rel rrq_data_event_post [of B lo hi s M n ev oack a] assms st RrqData show ?thesis by simp
  next
    case RrqClosed
    with assms(1) st show ?thesis by (simp add: rrq_srel_def)
  qed
qed

text \<open>A fresh sender is at the first block of what the file holds.\<close>

lemma rrq_sender_new_rel:
  assumes "0 < unat (ng_blksize neg)"
  shows "rrq_rel (blocks_of (unat (ng_blksize neg))
      (encode_all (if m = NetAscii then Some ToWire else None) (remaining f))) 1 1
    (rrq_sender_new peer cfg neg f m)"
  using assms srv.at_block_start [of "rrq_sender_new peer cfg neg f m"]
  by (simp add: rrq_rel_def rrq_sender_new_def rrq_ready_def rrq_bsize_def rrq_stream_def flight_of_Nil
      del: flight_of_Nil_iff)

end

text \<open>Only the negotiated timeout is ever used for a deadline.\<close>

definition rrq_timed :: "duration \<Rightarrow> 'f rrq_state \<Rightarrow> bool" where
  "rrq_timed d st \<longleftrightarrow> set (deadlines (snd st)) \<subseteq> {d}
     \<and> (case fst st of RrqData s _ \<Rightarrow> ng_timeout (rs_neg s) = d | RrqOack s _ _ \<Rightarrow> ng_timeout (rs_neg s) = d | RrqClosed \<Rightarrow> True)"

lemma send_flight_deadlines: "deadlines (snd (send_flight peer fl n)) = deadlines n"
proof (induction peer fl n rule: send_flight.induct)
  case (2 peer bn data fl n)
  have "deadlines (snd (send_to peer (encode (Data bn data)) n)) = deadlines n"
    by (rule send_to_deadlines)
  with 2 show ?case by (auto split: prod.splits sum.splits)
qed simp

lemma rrq_send_timed:
  assumes "ng_timeout (rs_neg s) = d" "set (deadlines n) \<subseteq> {d}"
  shows "rrq_timed d (state_of (rrq_send s a n))"
  using assms send_flight_deadlines [of "rs_peer s" "rs_in_flight s" n]
  by (auto simp: rrq_send_def send_window_def rrq_timed_def split: prod.splits sum.splits)

lemma rrq_next_window_timed:
  assumes "ng_timeout (rs_neg s) = d" "set (deadlines n) \<subseteq> {d}"
  shows "rrq_timed d (state_of (rrq_next_window rd s n))"
proof -
  obtain r s1 where f: "fill_window rd s = (r, s1)" by fastforce
  with fill_window_frame [OF f] assms rrq_send_timed [of s1 d n 0] show ?thesis
    by (cases r) (auto simp: rrq_next_window_def rrq_timed_def)
qed

lemma rrq_send_oack_timed:
  assumes "ng_timeout (rs_neg s) = d" "set (deadlines n) \<subseteq> {d}"
  shows "rrq_timed d (state_of (rrq_send_oack s oack a n))"
  using assms send_to_deadlines [of "rs_peer s" "encode (Oack oack)" n]
  by (auto simp: rrq_send_oack_def rrq_timed_def split: prod.splits sum.splits)

lemma server_consume_ack_neg: "server_consume_ack s b = (adv, s') \<Longrightarrow> rs_neg s' = rs_neg s"
  by (auto simp: server_consume_ack_def Let_def split: prod.splits if_splits)

lemma rrq_event_timed:
  assumes "rrq_timed d st"
  shows "rrq_timed d (state_of (rrq_event rd ev st))"
proof -
  obtain task n where st: "st = (task, n)" by fastforce
  have n: "set (deadlines n) \<subseteq> {d}" using assms st by (simp add: rrq_timed_def)
  show ?thesis
  proof (cases task)
    case (RrqData s a)
    with assms st have s: "ng_timeout (rs_neg s) = d" by (simp add: rrq_timed_def)
    obtain r n' where rx: "recv_one (rs_peer s) ev n = (r, n')" by fastforce
    have n': "set (deadlines n') \<subseteq> {d}"
      using n recv_one_deadlines [of "rs_peer s" ev n] rx by simp
    note again = rrq_send_timed [OF _ n'] rrq_next_window_timed [OF _ n']
    show ?thesis
      using rx st RrqData n' server_consume_ack_neg [of s]
      by (cases r) (auto simp: s rrq_data_event_def rrq_timed_def [of _ "(_, _)"]
          intro!: again split: sum.splits packet.splits prod.splits)
  next
    case (RrqOack s oack a)
    with assms st have s: "ng_timeout (rs_neg s) = d" by (simp add: rrq_timed_def)
    obtain r n' where rx: "recv_one (rs_peer s) ev n = (r, n')" by fastforce
    have n': "set (deadlines n') \<subseteq> {d}"
      using n recv_one_deadlines [of "rs_peer s" ev n] rx by simp
    have retry: "rrq_timed d (state_of (rrq_oack_retry s oack a n'))"
      using rrq_send_oack_timed [OF s n', of oack "a + 1"] s n'
      by (simp add: rrq_oack_retry_def rrq_timed_def)
    show ?thesis
      using rx st RrqOack n' retry rrq_next_window_timed [OF s n', of rd]
      by (cases r) (auto simp: s rrq_oack_event_def rrq_timed_def [of _ "(_, _)"]
          split: sum.splits packet.splits)
  next
    case RrqClosed
    with assms st show ?thesis by simp
  qed
qed

lemma serve_rrq_timed:
  assumes "\<And>fs oack neg. negotiate cfg options fs = Some (oack, neg) \<Longrightarrow> ng_timeout neg = d" "deadlines n = []"
  shows "rrq_timed d (state_of (serve_rrq rd opn flen cfg peer filename m options n))"
proof -
  have start: "rrq_timed d (state_of (if \<not> option_set_is_empty oack then rrq_send_oack (rrq_sender_new peer cfg neg f m) oack 0 n
      else rrq_next_window rd (rrq_sender_new peer cfg neg f m) n))"
    if "negotiate cfg options (Some len) = Some (oack, neg)" for f len oack neg
    using rrq_send_oack_timed [of "rrq_sender_new peer cfg neg f m" d n oack 0]
      rrq_next_window_timed [of "rrq_sender_new peer cfg neg f m" d n rd] assms(1) [OF that] assms(2)
    by (simp add: rrq_sender_new_def)
  show ?thesis
    using start assms(2)
    by (simp add: serve_rrq_def map_io_to_error_def Let_def rrq_timed_def [of _ "(_, _)"]
        split: sum.split io_kind.split option.split)
qed

subsection \<open>Properties\<close>

text \<open>The first window of a download holds exactly the first blocks of the (encoded) file, cut at
  the negotiated block size and numbered from 1: the whole file if it fits, else a full window. Joined,
  all the blocks are the encoded file.\<close>

lemma first_window:
  assumes "byte_source rd remaining" "0 < unat (ng_blksize neg)"
    and "fill_window rd (rrq_sender_new peer cfg neg f m) = (Inr u, s)"
    and "B = blocks_of (unat (ng_blksize neg)) (encode_all (if m = NetAscii then Some ToWire else None) (remaining f))"
  shows "rs_in_flight s = flight_of B 1 (min (unat (ng_windowsize neg)) (length B) + 1)
    \<and> concat B = encode_all (if m = NetAscii then Some ToWire else None) (remaining f)"
proof -
  let ?s0 = "rrq_sender_new peer cfg neg f m"
  have "byte_source.rrq_rel remaining B 1 1 ?s0"
    using byte_source.rrq_sender_new_rel [OF assms(1,2)] assms(4) by simp
  from byte_source.fill_window_rel [OF assms(1) this assms(3)]
  have "rs_in_flight s = flight_of B 1 (max 1 (min (1 + unat (ng_windowsize neg)) (length B + 1)))"
    by (simp add: byte_source.rrq_rel_def [OF assms(1)] rrq_sender_new_def)
  moreover have "max 1 (min (1 + unat (ng_windowsize neg)) (length B + 1))
      = min (unat (ng_windowsize neg)) (length B) + 1" by simp
  ultimately show ?thesis using assms(4) by simp
qed

text \<open>C27: A cumulative ACK acknowledges a block in flight or one less than a window after it, drops
  every block up to it, and anything else changes nothing: the closed form of \<open>consume_ack\<close> on a window
  of consecutive blocks, with 16-bit wrap-around.\<close>

theorem server_ack_window:
  "server_pop_acked ack w adv (flight_of B lo hi) =
     (let d = unat (ack - of_nat lo) in
      if lo < hi \<and> (d = 0 \<or> d < unat w) then (True, flight_of B (min hi (lo + d + 1)) hi)
      else (adv, flight_of B lo hi))"
  by (rule srv_ack.pops_window)

text \<open>A download whose peer falls silent ends: in either phase, after exactly \<open>retries + 1\<close>
  timeouts (each but the last one a resend) the task returns \<open>Timeout\<close>.\<close>

lemma rrq_silence_ends:
  assumes "faults n = []"
  shows "(\<exists>st. drive (rrq_event rd) (Running (RrqData s 0, n))
       (replicate (unat (cf_retries (rs_cfg s)) + 1) RxTimeout) = Done (Inl (TimedOut (cf_retries (rs_cfg s)))) st)
    \<and> (\<exists>st. drive (rrq_event rd) (Running (RrqOack s oack 0, n))
       (replicate (unat (cf_retries (rs_cfg s)) + 1) RxTimeout) = Done (Inl (TimedOut (cf_retries (rs_cfg s)))) st)"
  using rrq_retry.silence_ends [of n 0 s rd] oack_retry.silence_ends [of n 0 s rd oack] assms by simp

text \<open>C40: A datagram from the peer that is neither an ACK nor an ERROR makes the server resend its whole
  window and never counts as an attempt: \<open>k\<close> such datagrams give \<open>k\<close> windows, and the task is still
  waiting at the same attempt, for every \<open>k\<close>.\<close>

theorem junk_resends_window:
  assumes "faults n = []" "\<forall>b. decode (rx_buffer d) \<noteq> Inr (Ack b)"
    and "\<forall>c msg. decode (rx_buffer d) \<noteq> Inr (ErrorPkt c msg)"
  shows "\<exists>n'. drive (rrq_event rd) (Running (RrqData s a, n)) (replicate k (RxFrom (rs_peer s) d))
      = Running (RrqData s a, n')
    \<and> length (outbox n') = length (outbox n) + k * length (rs_in_flight s)"
  using assms(1)
proof (induction k arbitrary: n)
  case (Suc k)
  let ?n = "arm (ng_timeout (rs_neg s)) (n\<lparr>outbox := outbox n
    @ map (\<lambda>(bn, d). (rs_peer s, encode (Data bn d))) (rs_in_flight s)\<rparr>)"
  have "rrq_event rd (RxFrom (rs_peer s) d) (RrqData s a, n) = rrq_send s a n"
    using assms(2,3) by (auto simp: rrq_data_event_def recv_one_def split: sum.splits packet.splits)
  then have "rrq_event rd (RxFrom (rs_peer s) d) (RrqData s a, n) = Running (RrqData s a, ?n)"
    using Suc.prems by (simp add: rrq_send_def send_window_def send_flight_ok)
  with Suc.IH [of ?n] Suc.prems show ?case by (simp add: add.assoc del: rrq_event.simps)
qed simp

theorem junk_resends_window_witness:
  "\<exists>n'. drive (rrq_event (\<lambda>f k. (Inr [], f)))
      (Running (RrqData ((rrq_sender_new (V4 1 2) config_default negotiated_defaults () Octet)\<lparr>rs_in_flight := [(1, [7])]\<rparr>) 0, net_new []))
      (replicate 9 (RxFrom (V4 1 2) [0]))
    = Running (RrqData ((rrq_sender_new (V4 1 2) config_default negotiated_defaults () Octet)\<lparr>rs_in_flight := [(1, [7])]\<rparr>) 0, n')
    \<and> length (outbox n') = 9"
  using junk_resends_window [of "net_new []" "[0]" "\<lambda>f k. (Inr [], f)"
      "(rrq_sender_new (V4 1 2) config_default negotiated_defaults () Octet)\<lparr>rs_in_flight := [(1, [7])]\<rparr>" 0 9]
  by (simp add: net_new_def rrq_sender_new_def decode_def MAX_PACKET_SIZE_eq
      del: drive.simps)

end
