(* ===== verification/Sinks.thy ===== *)
theory Sinks
  imports Blocks Options
begin

text \<open>
  The writing side of a receiver. Files are tokio's: \<open>write_all\<close> and \<open>flush\<close> are the
  parameters \<open>wr\<close> and \<open>fl\<close>, and the locale \<open>byte_sink\<close> states their documented contract
  for the calls that succeed. \<open>sink_at\<close> relates what was written to the blocks received.
\<close>

type_synonym 'f writer = "'f \<Rightarrow> bytes \<Rightarrow> (io_error + unit) \<times> 'f"
type_synonym 'f flusher = "'f \<Rightarrow> (io_error + unit) \<times> 'f"

locale byte_sink =
  fixes wr :: "'f writer" and fl :: "'f flusher" and contents :: "'f \<Rightarrow> bytes"
  assumes wr_bytes: "wr f bs = (Inr u, f') \<Longrightarrow> contents f' = contents f @ bs"
    and fl_bytes: "fl f = (Inr u, f') \<Longrightarrow> contents f' = contents f"

text \<open>\<open>matches!(mode, Mode::NetAscii).then(ToWire::new)\<close>, and the same for \<open>FromWire\<close>.\<close>

abbreviation encoder_for :: "mode \<Rightarrow> to_wire option" where
  "encoder_for m \<equiv> (if m = NetAscii then Some ToWire else None)"

abbreviation decoder_for :: "mode \<Rightarrow> from_wire option" where
  "decoder_for m \<equiv> (if m = NetAscii then Some from_wire_new else None)"

subsection \<open>Decoding block by block\<close>

lemma decode_chunk_Nil [simp]: "decode_chunk dec [] = (dec, [])"
  by (simp add: decode_chunk_def split: option.splits)

lemma decode_chunk_append:
  assumes "decode_chunk dec s = (d, p)" "decode_chunk d t = (d', q)"
  shows "decode_chunk dec (s @ t) = (d', p @ q)"
proof (cases dec)
  case None
  with assms show ?thesis by (auto simp: decode_chunk_def)
next
  case (Some e)
  obtain e1 o1 where 1: "from_wire_translate e s [] = (e1, o1)" by fastforce
  obtain e2 o2 where 2: "from_wire_translate e1 t [] = (e2, o2)" by fastforce
  have "from_wire_translate e1 t o1 = (e2, o1 @ o2)"
    using from_wire_translate_out' [of e1 t o1] 2 by simp
  with Some assms 1 2 show ?thesis
    by (auto simp: decode_chunk_def from_wire_translate_append)
qed

text \<open>What a receiver's decoder gives back of what the sender's encoder sent, tail included.\<close>

lemma decode_encode_all:
  "decode_chunk (decoder_for m) (encode_all (encoder_for m) s) = (decoder_for m, s)"
  by (simp add: decode_chunk_def encode_all_def from_wire_of_wire)

lemma decode_tail_new [simp]: "decode_tail (decoder_for m) = (decoder_for m, [])"
  by (simp add: decode_tail_def from_wire_finish_def from_wire_new_def)

text \<open>
  \<open>dec\<close> and the written bytes \<open>out\<close> are what the first \<open>m\<close> blocks of \<open>B\<close> lead to.
\<close>

definition sink_at :: "mode \<Rightarrow> bytes list \<Rightarrow> nat \<Rightarrow> from_wire option \<Rightarrow> bytes \<Rightarrow> bool" where
  "sink_at md B m dec out \<longleftrightarrow> decode_chunk (decoder_for md) (concat (take m B)) = (dec, out)"

lemma sink_at_start [simp]: "sink_at md B 0 (decoder_for md) []"
  by (simp add: sink_at_def)

lemma sink_at_Suc:
  assumes "sink_at md B m dec out" "m < length B" "decode_chunk dec (B ! m) = (dec', new)"
  shows "sink_at md B (m + 1) dec' (out @ new)"
  using assms decode_chunk_append [of "decoder_for md" "concat (take m B)" dec out "B ! m" dec' new]
  by (simp add: sink_at_def take_Suc_conv_app_nth)

text \<open>
  The blocks \<open>B\<close> carry the bytes \<open>src\<close>: only the last one is short, and decoding all of them
  gives \<open>src\<close> and leaves nothing pending.
\<close>

definition carries :: "mode \<Rightarrow> nat \<Rightarrow> bytes list \<Rightarrow> bytes \<Rightarrow> bool" where
  "carries md k B src \<longleftrightarrow>
     (\<forall>i < length B. length (B ! i) < k \<longleftrightarrow> i + 1 = length B) \<and> (\<forall>b \<in> set B. length b \<le> k)
     \<and> decode_chunk (decoder_for md) (concat B) = (decoder_for md, src)"

lemma carries_blocks_of:
  assumes "0 < k"
  shows "carries md k (blocks_of k (encode_all (encoder_for md) src)) src"
proof -
  let ?B = "blocks_of k (encode_all (encoder_for md) src)"
  have "length (?B ! i) < k \<longleftrightarrow> i + 1 = length ?B" if "i < length ?B" for i
    using blocks_of_sizes [OF assms that] that by linarith
  moreover have "length b \<le> k" if "b \<in> set ?B" for b
    using that blocks_of_sizes(2) [OF assms] by (metis in_set_conv_nth)
  ultimately show ?thesis
    using decode_encode_all [of md src] unfolding carries_def by auto
qed

lemma carries_last: "carries md k B src \<Longrightarrow> m < length B \<Longrightarrow> length (B ! m) < k \<longleftrightarrow> m + 1 = length B"
  by (simp add: carries_def)

lemma sink_at_complete:
  "carries md k B src \<Longrightarrow> sink_at md B (length B) dec out \<Longrightarrow> dec = decoder_for md \<and> out = src"
  by (auto simp: sink_at_def carries_def split: if_splits)

end
