(* ===== verification/Server_Wrq.thy ===== *)
theory Server_Wrq
  imports Server_Rrq Sinks
begin

text \<open>
  The server as data receiver (\<^verbatim>\<open>server.rs\<close>, \<open>serve_wrq\<close> and \<open>WrqReceiver\<close>). The task waits
  in the receive at the top of \<open>run\<close>'s loop; each received event is one step. \<open>wr\<close> and
  \<open>fl\<close> write and flush the file, \<open>opn\<close> opens it with the given \<open>OpenOptions\<close>.
\<close>

record 'f wrq_receiver =
  wr_peer :: sockaddr
  wr_cfg :: config
  wr_neg :: negotiated
  wr_file :: 'f
  wr_decoder :: "from_wire option"
  wr_next_block :: u16
  wr_blocks_in_window :: u16
  wr_last_acked :: u16
  wr_finished :: bool

datatype 'f wrq_task = WrqClosed | WrqRun "'f wrq_receiver" u32

type_synonym 'f wrq_state = "'f wrq_task \<times> net"

subsection \<open>Writing\<close>

definition wrq_write_block ::
  "'f writer \<Rightarrow> 'f wrq_receiver \<Rightarrow> bytes \<Rightarrow> (error + unit) \<times> 'f wrq_receiver" where
  "wrq_write_block wr s data =
     (case decode_chunk (wr_decoder s) data of
        (dec, out) \<Rightarrow>
          (case wr (wr_file s) out of
             (Inl e, f) \<Rightarrow> (Inl (Io e), s\<lparr>wr_decoder := dec, wr_file := f\<rparr>)
           | (Inr _, f) \<Rightarrow> (Inr (), s\<lparr>wr_decoder := dec, wr_file := f\<rparr>)))"

text \<open>The final block: the decoder's tail is written, then the file is flushed.\<close>

definition wrq_write_tail ::
  "'f writer \<Rightarrow> 'f flusher \<Rightarrow> 'f wrq_receiver \<Rightarrow> (error + unit) \<times> 'f wrq_receiver" where
  "wrq_write_tail wr fl s =
     (case decode_tail (wr_decoder s) of
        (dec, tail) \<Rightarrow>
          (case (if tail \<noteq> [] then wr (wr_file s) tail else (Inr (), wr_file s)) of
             (Inl e, f) \<Rightarrow> (Inl (Io e), s\<lparr>wr_decoder := dec, wr_file := f\<rparr>)
           | (Inr _, f) \<Rightarrow>
               (case fl f of
                  (Inl e, f') \<Rightarrow> (Inl (Io e), s\<lparr>wr_decoder := dec, wr_file := f'\<rparr>)
                | (Inr _, f') \<Rightarrow> (Inr (), s\<lparr>wr_decoder := dec, wr_file := f'\<rparr>))))"

subsection \<open>The loop\<close>

text \<open>The head of \<open>while !self.finished\<close>: return, or set the deadline and wait.\<close>

definition wrq_loop :: "'f wrq_receiver \<Rightarrow> u32 \<Rightarrow> net \<Rightarrow> ('f wrq_state, unit) progress" where
  "wrq_loop s attempt n =
     (if wr_finished s then Done (Inr ()) (WrqRun s attempt, n)
      else Running (WrqRun s attempt, arm (ng_timeout (wr_neg s)) n))"

text \<open>\<open>self.send_ack(..).await?\<close>, then the rest of the turn.\<close>

definition wrq_ack ::
  "u16 \<Rightarrow> u32 \<Rightarrow> net \<Rightarrow> 'f wrq_receiver \<Rightarrow> 'f wrq_receiver \<Rightarrow> ('f wrq_state, unit) progress" where
  "wrq_ack block attempt n s after =
     (case send_ack (wr_peer s) block n of
        (Inl e, n') \<Rightarrow> Done (Inl e) (WrqRun s attempt, n')
      | (Inr _, n') \<Rightarrow> wrq_loop after attempt n')"

definition wrq_in_order ::
  "'f writer \<Rightarrow> 'f flusher \<Rightarrow> 'f wrq_receiver \<Rightarrow> u16 \<Rightarrow> bytes \<Rightarrow> net \<Rightarrow> ('f wrq_state, unit) progress"
where
  "wrq_in_order wr fl s block data n =
     (let is_final = length data < unat (ng_blksize (wr_neg s)) in
      case wrq_write_block wr s data of
        (Inl e, s1) \<Rightarrow> Done (Inl e) (WrqRun s1 0, n)
      | (Inr _, s1) \<Rightarrow>
          let s2 = s1\<lparr>wr_last_acked := block, wr_next_block := wr_next_block s1 + 1,
                      wr_blocks_in_window := wr_blocks_in_window s1 + 1\<rparr> in
          if is_final then
            (case wrq_write_tail wr fl s2 of
               (Inl e, s3) \<Rightarrow> Done (Inl e) (WrqRun s3 0, n)
             | (Inr _, s3) \<Rightarrow> wrq_ack block 0 n s3 (s3\<lparr>wr_finished := True\<rparr>))
          else if ng_windowsize (wr_neg s2) \<le> wr_blocks_in_window s2 then
            wrq_ack block 0 n s2 (s2\<lparr>wr_blocks_in_window := 0\<rparr>)
          else wrq_loop s2 0 n)"

definition wrq_data ::
  "'f writer \<Rightarrow> 'f flusher \<Rightarrow> 'f wrq_receiver \<Rightarrow> u16 \<Rightarrow> bytes \<Rightarrow> net \<Rightarrow> ('f wrq_state, unit) progress"
where
  "wrq_data wr fl s block data n =
     (if block = wr_next_block s then wrq_in_order wr fl s block data n
      else wrq_ack (wr_last_acked s) 0 n s (s\<lparr>wr_blocks_in_window := 0\<rparr>))"

definition wrq_run_event ::
  "'f writer \<Rightarrow> 'f flusher \<Rightarrow> rx \<Rightarrow> 'f wrq_receiver \<Rightarrow> u32 \<Rightarrow> net \<Rightarrow> ('f wrq_state, unit) progress"
where
  "wrq_run_event wr fl ev s attempt n =
     (case recv_one (wr_peer s) ev n of
        (Failed e, n') \<Rightarrow> Done (Inl e) (WrqRun s attempt, n')
      | (Stray, n') \<Rightarrow> Running (WrqRun s attempt, n')
      | (Elapsed, n') \<Rightarrow>
          if cf_retries (wr_cfg s) \<le> attempt then
            Done (Inl (TimedOut attempt))
              (WrqRun s attempt, send_error (wr_peer s) NotDefined (ascii ''timed out'') n')
          else wrq_ack (wr_last_acked s) (attempt + 1) n' s s
      | (Packet_From_Peer d, n') \<Rightarrow>
          (case decode d of
             Inr (Data block data) \<Rightarrow> wrq_data wr fl s block data n'
           | Inr (ErrorPkt code msg) \<Rightarrow> Done (Inl (Peer code msg)) (WrqRun s attempt, n')
           | _ \<Rightarrow> wrq_loop s attempt n'))"

fun wrq_event ::
  "'f writer \<Rightarrow> 'f flusher \<Rightarrow> rx \<Rightarrow> 'f wrq_state \<Rightarrow> ('f wrq_state, unit) progress" where
  "wrq_event wr fl ev (WrqRun s attempt, n) = wrq_run_event wr fl ev s attempt n"
| "wrq_event wr fl ev (WrqClosed, n) = Running (WrqClosed, n)"

subsection \<open>Starting the task\<close>

text \<open>The flags of \<open>OpenOptions\<close> that \<open>serve_wrq\<close> sets besides \<open>write\<close> and \<open>create\<close>.\<close>

datatype open_how = CreateNew | Truncate

definition wrq_receiver_new ::
  "sockaddr \<Rightarrow> config \<Rightarrow> negotiated \<Rightarrow> 'f \<Rightarrow> mode \<Rightarrow> 'f wrq_receiver" where
  "wrq_receiver_new peer cfg neg file m =
     \<lparr>wr_peer = peer, wr_cfg = cfg, wr_neg = neg, wr_file = file,
      wr_decoder = (if m = NetAscii then Some from_wire_new else None), wr_next_block = 1,
      wr_blocks_in_window = 0, wr_last_acked = 0, wr_finished = False\<rparr>"

definition wrq_send_initial_oack :: "sockaddr \<Rightarrow> option_set \<Rightarrow> net \<Rightarrow> (error + unit) \<times> net" where
  "wrq_send_initial_oack peer oack n = send_to peer (encode (Oack oack)) n"

definition serve_wrq ::
  "(open_how \<Rightarrow> bytes \<Rightarrow> io_error + 'f) \<Rightarrow> config \<Rightarrow> sockaddr \<Rightarrow> str \<Rightarrow> mode \<Rightarrow> option_set \<Rightarrow> net \<Rightarrow>
   ('f wrq_state, unit) progress" where
  "serve_wrq opn cfg peer filename m options n =
     (case resolve (cf_root cfg) filename of
        Inl e \<Rightarrow>
          Done (Inl e) (WrqClosed, send_error peer AccessViolation (ascii ''access violation'') n)
      | Inr path \<Rightarrow>
          (case opn (if \<not> cf_allow_overwrite cfg then CreateNew else Truncate) path of
             Inl err \<Rightarrow>
               (case map_io_to_error peer err n of (e, n') \<Rightarrow> Done (Inl e) (WrqClosed, n'))
           | Inr file \<Rightarrow>
               (case negotiate cfg options None of
                  None \<Rightarrow> Panicked (WrqClosed, n)
                | Some (oack, neg) \<Rightarrow>
                    let recv = wrq_receiver_new peer cfg neg file m in
                    (case (if \<not> option_set_is_empty oack then wrq_send_initial_oack peer oack n
                           else send_ack peer 0 n) of
                       (Inl e, n') \<Rightarrow> Done (Inl e) (WrqRun recv 0, n')
                     | (Inr _, n') \<Rightarrow> wrq_loop recv 0 n'))))"

subsection \<open>Retransmission\<close>

interpretation wrq_retry: retrying "wrq_event wr fl" "\<lambda>a n. (WrqRun s a, n)"
  "\<lambda>n. faults n = [] \<and> \<not> wr_finished s" "cf_retries (wr_cfg s)" for wr fl s
  by unfold_locales
    (auto simp: wrq_run_event_def recv_one_def wrq_ack_def send_ack_def wrq_loop_def)

subsection \<open>The receiver's side of the transfer contract\<close>

text \<open>What an upload sends back: ACKs of accepted blocks, the OACK, or an ERROR.\<close>

definition wrq_datagram :: "option_set \<Rightarrow> nat \<Rightarrow> bytes \<Rightarrow> bool" where
  "wrq_datagram oack M d \<longleftrightarrow>
     (\<exists>j < M. d = encode (Ack (of_nat j)))
     \<or> (\<not> option_set_is_empty oack \<and> d = encode (Oack oack)) \<or> (\<exists>c msg. d = encode (ErrorPkt c msg))"

lemma wrq_datagram_mono: "wrq_datagram oack M d \<Longrightarrow> M \<le> M' \<Longrightarrow> wrq_datagram oack M' d"
  unfolding wrq_datagram_def using less_le_trans [of _ M M'] by blast

lemma wrq_datagram_genuine:
  assumes "wrq_datagram oack M d" "option_set_ok oack"
  shows "receiver_promise oack M d"
  using assms(1) unfolding wrq_datagram_def
proof (elim disjE exE conjE)
  fix j
  assume "j < M" "d = encode (Ack (of_nat j))"
  with genuine_ack_ack genuine_oack_packet [of "Ack (of_nat j)" oack] show ?thesis
    by (simp add: receiver_promise_def)
next
  assume "\<not> option_set_is_empty oack" "d = encode (Oack oack)"
  with genuine_oack_oack [OF assms(2)] genuine_ack_packet [of "Oack oack" M] show ?thesis
    by (simp add: receiver_promise_def)
next
  fix c msg
  assume "d = encode (ErrorPkt c msg)"
  with genuine_oack_packet [of "ErrorPkt c msg" oack] genuine_ack_packet [of "ErrorPkt c msg" M]
  show ?thesis by (simp add: receiver_promise_def)
qed

definition wrq_sends :: "option_set \<Rightarrow> nat \<Rightarrow> sockaddr \<Rightarrow> net \<Rightarrow> net \<Rightarrow> bool" where
  "wrq_sends oack M peer = sends_only (\<lambda>x. fst x = peer \<longrightarrow> wrq_datagram oack M (snd x))"

lemma wrq_sends_trans [trans]:
  "wrq_sends oack M p n n' \<Longrightarrow> wrq_sends oack M p n' n'' \<Longrightarrow> wrq_sends oack M p n n''"
  unfolding wrq_sends_def by (rule sends_only_trans)

lemma wrq_sends_refl [simp]: "wrq_sends oack M p n n"
  by (simp add: wrq_sends_def)

lemma wrq_sends_arm [simp]: "wrq_sends oack M p n (arm d n') = wrq_sends oack M p n n'"
  by (simp add: wrq_sends_def)

lemma wrq_sends_error: "wrq_sends oack M p n (send_error p c msg n)"
  unfolding wrq_sends_def by (rule sends_only_send_error) (auto simp: wrq_datagram_def)

lemma wrq_recv_sends: "recv_one peer ev n = (r, n') \<Longrightarrow> wrq_sends oack M peer n n'"
  unfolding wrq_sends_def by (rule recv_one_sends) auto

lemma wrq_sends_ack: "j < M \<Longrightarrow> send_ack peer (of_nat j) n = (r, n') \<Longrightarrow> wrq_sends oack M peer n n'"
  using sends_only_send_ack [of "\<lambda>x. fst x = peer \<longrightarrow> wrq_datagram oack M (snd x)" peer "of_nat j" n]
  by (auto simp: wrq_sends_def wrq_datagram_def)

text \<open>The answer to the request has been sent.\<close>

definition answer :: "option_set \<Rightarrow> packet" where
  "answer oack = (if option_set_is_empty oack then Ack 0 else Oack oack)"

definition answered :: "option_set \<Rightarrow> sockaddr \<Rightarrow> net \<Rightarrow> bool" where
  "answered oack peer n \<longleftrightarrow> (peer, encode (answer oack)) \<in> set (outbox n)"

lemma answered_arm [simp]: "answered oack peer (arm d n) = answered oack peer n"
  by (simp add: answered_def arm_def)

lemma answered_later: "answered oack peer n \<Longrightarrow> wrq_sends oack' M p n n' \<Longrightarrow> answered oack peer n'"
  unfolding answered_def wrq_sends_def by (rule sends_only_keeps)

context byte_sink begin

text \<open>The first \<open>m\<close> blocks of \<open>B\<close> have been accepted and written.\<close>

definition wrq_rel ::
  "mode \<Rightarrow> bytes list \<Rightarrow> sockaddr \<Rightarrow> negotiated \<Rightarrow> nat \<Rightarrow> 'f wrq_receiver \<Rightarrow> bool" where
  "wrq_rel md B peer neg m s \<longleftrightarrow>
     wr_peer s = peer \<and> wr_neg s = neg \<and> m < length B \<and> \<not> wr_finished s
     \<and> wr_next_block s = of_nat (m + 1) \<and> wr_last_acked s = of_nat m
     \<and> sink_at md B m (wr_decoder s) (contents (wr_file s))"

definition wrq_holds :: "bytes \<Rightarrow> 'f wrq_state \<Rightarrow> bool" where
  "wrq_holds src st \<longleftrightarrow> (case fst st of WrqRun s _ \<Rightarrow> contents (wr_file s) = src | WrqClosed \<Rightarrow> False)"

definition wrq_srel ::
  "mode \<Rightarrow> bytes list \<Rightarrow> option_set \<Rightarrow> sockaddr \<Rightarrow> negotiated \<Rightarrow> nat \<Rightarrow> 'f wrq_state \<Rightarrow> bool" where
  "wrq_srel md B oack peer neg m st \<longleftrightarrow>
     (\<exists>s a. fst st = WrqRun s a \<and> wrq_rel md B peer neg m s) \<and> answered oack peer (snd st)"

definition wrq_post ::
  "mode \<Rightarrow> bytes list \<Rightarrow> bytes \<Rightarrow> option_set \<Rightarrow> sockaddr \<Rightarrow> negotiated \<Rightarrow> nat \<Rightarrow> net \<Rightarrow>
   ('f wrq_state, unit) progress \<Rightarrow> bool" where
  "wrq_post md B src oack peer neg m n p \<longleftrightarrow>
     (\<forall>st. p = Running st \<longrightarrow> wrq_srel md B oack peer neg m st) \<and> (\<forall>st. p \<noteq> Panicked st)
     \<and> (\<forall>r st. p = Done r st \<longrightarrow> m = length B \<longrightarrow> wrq_holds src st)
     \<and> (\<forall>r st. p = Done (Inr r) st \<longrightarrow> m = length B
          \<and> (peer, encode (Ack (of_nat (length B)))) \<in> set (outbox (snd st))) \<and> m \<le> length B
     \<and> wrq_sends oack (m + 1) peer n (snd (state_of p))"

lemma wrq_post_trans:
  "wrq_sends oack (m + 1) peer n n' \<Longrightarrow> wrq_post md B src oack peer neg m n' p \<Longrightarrow>
   wrq_post md B src oack peer neg m n p"
  unfolding wrq_post_def using wrq_sends_trans by blast

lemma wrq_post_failed:
  "wrq_sends oack (m + 1) peer n (snd st) \<Longrightarrow> m < length B \<Longrightarrow>
   wrq_post md B src oack peer neg m n (Done (Inl e) st)"
  by (simp add: wrq_post_def)

lemma wrq_loop_post:
  "wrq_rel md B peer neg m s \<Longrightarrow> answered oack peer n \<Longrightarrow>
   wrq_post md B src oack peer neg m n (wrq_loop s a n)"
  by (auto simp: wrq_loop_def wrq_post_def wrq_srel_def wrq_rel_def)

lemma wrq_ack_post:
  assumes "wrq_rel md B peer neg m after" "j \<le> m" "wr_peer s = peer" "answered oack peer n"
  shows "wrq_post md B src oack peer neg m n (wrq_ack (of_nat j) a n s after)"
proof -
  obtain r n' where k: "send_ack peer (of_nat j) n = (r, n')" by fastforce
  have snt: "wrq_sends oack (m + 1) peer n n'" using assms(2) k by (intro wrq_sends_ack) auto
  have "m < length B" using assms(1) by (simp add: wrq_rel_def)
  with snt k assms(3) wrq_post_trans [OF snt wrq_loop_post [OF assms(1) answered_later [OF assms(4) snt]]] show ?thesis
    by (cases r) (simp_all add: wrq_ack_def wrq_post_failed)
qed

text \<open>After the final block: the task holds the source and returns once the ACK is sent.\<close>

lemma wrq_last_ack_post:
  assumes "contents (wr_file s) = src" "m = length B" "wr_peer s = peer"
  shows "wrq_post md B src oack peer neg m n (wrq_ack (of_nat m) a n s (s\<lparr>wr_finished := True\<rparr>))"
proof -
  obtain r n' where k: "send_ack peer (of_nat m) n = (r, n')" by fastforce
  have "wrq_sends oack (m + 1) peer n n'" using k by (intro wrq_sends_ack) auto
  with assms k send_to_sent [OF k [unfolded send_ack_def]] show ?thesis
    by (cases r) (simp_all add: wrq_ack_def wrq_post_def wrq_loop_def wrq_holds_def)
qed

lemma wrq_write_block_ok:
  assumes "wrq_write_block wr s data = (Inr u, s')"
  shows "\<exists>dec out f. decode_chunk (wr_decoder s) data = (dec, out)
    \<and> contents f = contents (wr_file s) @ out \<and> s' = s\<lparr>wr_decoder := dec, wr_file := f\<rparr>"
  using assms wr_bytes
  by (fastforce simp: wrq_write_block_def split: prod.splits sum.splits)

lemma wrq_write_tail_ok:
  assumes "wrq_write_tail wr fl s = (Inr u, s')" "wr_decoder s = decoder_for md"
  shows "\<exists>f. contents f = contents (wr_file s) \<and> s' = s\<lparr>wr_decoder := decoder_for md, wr_file := f\<rparr>"
  using assms fl_bytes
  by (fastforce simp: wrq_write_tail_def split: prod.splits sum.splits)

lemma wrq_in_order_post:
  assumes rel: "wrq_rel md B peer neg m s"
    and car: "carries md (unat (ng_blksize neg)) B src" and ans: "answered oack peer n"
  shows "\<exists>m' \<ge> m. m' \<le> m + 1 \<and> wrq_post md B src oack peer neg m' n (wrq_in_order wr fl s (of_nat (m + 1)) (B ! m) n)"
proof -
  let ?p = "wrq_in_order wr fl s (of_nat (m + 1)) (B ! m) n"
  have lt: "m < length B" and neg: "wr_neg s = neg" using rel by (simp_all add: wrq_rel_def)
  note last = carries_last [OF car lt]
  obtain r s1 where w: "wrq_write_block wr s (B ! m) = (r, s1)" by fastforce
  show ?thesis
  proof (cases r)
    case (Inl e)
    with w lt have "wrq_post md B src oack peer neg m n ?p"
      by (simp add: wrq_in_order_def Let_def wrq_post_failed)
    then show ?thesis by (intro exI [of _ m]) simp
  next
    case (Inr u)
    with wrq_write_block_ok w obtain dec out f where d: "decode_chunk (wr_decoder s) (B ! m) = (dec, out)"
      "contents f = contents (wr_file s) @ out" and s1: "s1 = s\<lparr>wr_decoder := dec, wr_file := f\<rparr>"
      by blast
    let ?s = "s1\<lparr>wr_last_acked := of_nat (m + 1), wr_next_block := wr_next_block s1 + 1,
      wr_blocks_in_window := wr_blocks_in_window s1 + 1\<rparr>"
    have sink: "sink_at md B (m + 1) (wr_decoder ?s) (contents (wr_file ?s))"
      using sink_at_Suc [OF _ lt d(1), of md "contents (wr_file s)"] rel d(2) s1
      by (simp add: wrq_rel_def)
    show ?thesis
    proof (cases "length (B ! m) < unat (ng_blksize neg)")
      case True
      then have all: "m + 1 = length B" using last by simp
      with sink_at_complete [OF car, of "wr_decoder ?s" "contents (wr_file ?s)"] sink
      have full: "wr_decoder ?s = decoder_for md" "contents (wr_file ?s) = src" by simp_all
      obtain q s3 where t: "wrq_write_tail wr fl ?s = (q, s3)" by fastforce
      show ?thesis
      proof (cases q)
        case (Inl e)
        with w Inr t True lt neg have "wrq_post md B src oack peer neg m n ?p"
          by (simp add: wrq_in_order_def Let_def wrq_post_failed)
        then show ?thesis by (intro exI [of _ m]) simp
      next
        case q: (Inr v)
        with wrq_write_tail_ok [of ?s v s3 md] t full(1) obtain g where
          "contents g = contents (wr_file ?s)" "s3 = ?s\<lparr>wr_decoder := decoder_for md, wr_file := g\<rparr>"
          by auto
        with full have "contents (wr_file s3) = src" "wr_peer s3 = peer"
          using rel s1 by (simp_all add: wrq_rel_def)
        from wrq_last_ack_post [OF this(1) all this(2), of md oack neg n 0]
        have "wrq_post md B src oack peer neg (m + 1) n ?p"
          using w Inr t q True neg by (simp add: wrq_in_order_def Let_def)
        then show ?thesis by (intro exI [of _ "m + 1"]) simp
      qed
    next
      case False
      have next_rel: "wrq_rel md B peer neg (m + 1) (?s\<lparr>wr_blocks_in_window := b\<rparr>)" for b
        using rel sink s1 last False lt by (auto simp: wrq_rel_def add_ac)
      have "wrq_rel md B peer neg (m + 1) ?s"
        using rel sink s1 last False lt by (auto simp: wrq_rel_def add_ac)
      from wrq_loop_post [OF this ans, of src 0]
        wrq_ack_post [OF next_rel order_refl _ ans, of ?s src 0 0]
      have "wrq_post md B src oack peer neg (m + 1) n ?p"
        using w Inr False neg rel s1 by (simp add: wrq_in_order_def Let_def wrq_rel_def)
      then show ?thesis by (intro exI [of _ "m + 1"]) simp
    qed
  qed
qed

lemma wrq_event_post:
  assumes "wrq_srel md B oack peer neg m st" "carries md (unat (ng_blksize neg)) B src"
    and "length B < 65536" "\<forall>d. ev = RxFrom peer d \<longrightarrow> genuine_data B hi d"
    and "m + 1 \<le> hi"
  shows "\<exists>m' \<ge> m. m' + 1 \<le> hi \<and> wrq_post md B src oack peer neg m' (snd st) (wrq_event wr fl ev st)"
proof -
  obtain s a n where st: "st = (WrqRun s a, n)" and rel: "wrq_rel md B peer neg m s"
    and ans: "answered oack peer n"
    using assms(1) by (cases st) (auto simp: wrq_srel_def)
  have s: "wr_peer s = peer" "wr_last_acked s = of_nat m" "m < length B"
    "wr_next_block s = of_nat (m + 1)"
    using rel by (simp_all add: wrq_rel_def)
  obtain r n' where rx: "recv_one peer ev n = (r, n')" by fastforce
  note snt = wrq_recv_sends [OF rx, of oack "m + 1"]
  note ans' = answered_later [OF ans snt]
  let ?post = "wrq_post md B src oack peer neg m n"
  have failed: "?post (Done (Inl e) (t, n'))" for e t
    using snt s by (simp add: wrq_post_failed)
  have loop: "?post (wrq_loop s a' n')" for a'
    using wrq_post_trans [OF snt wrq_loop_post [OF rel ans']] .
  have ack: "?post (wrq_ack (of_nat m) a' n' s s)" for a'
    using wrq_post_trans [OF snt wrq_ack_post [OF rel order_refl s(1) ans']] .
  have "wrq_rel md B peer neg m (s\<lparr>wr_blocks_in_window := 0\<rparr>)"
    using rel by (simp add: wrq_rel_def)
  from wrq_ack_post [OF this order_refl s(1) ans']
  have again: "?post (wrq_ack (of_nat m) 0 n' s (s\<lparr>wr_blocks_in_window := 0\<rparr>))"
    using wrq_post_trans [OF snt] by blast
  show ?thesis
  proof (cases r)
    case (Packet_From_Peer d)
    then obtain d' where d: "ev = RxFrom peer d'" "d = rx_buffer d'"
      using rx by (auto simp: recv_one_def split: rx.splits if_splits)
    show ?thesis
    proof (cases "\<exists>x. decode d = Inr (Data (wr_next_block s) x)")
      case True
      then obtain x where x: "decode d = Inr (Data (wr_next_block s) x)" by blast
      with assms(4) d obtain k where k: "1 \<le> k" "k < hi" "k \<le> length B" "wr_next_block s = of_nat k" "x = B ! (k - 1)"
        unfolding genuine_data_def by blast
      have "k = m + 1"
        using k s assms(3) of_nat_u16_eq_iff [of k "m + 1"] by simp
      with x k s(4) have x': "decode d = Inr (Data (of_nat (m + 1)) (B ! m))" by simp
      obtain m' where m': "m \<le> m'" "m' \<le> m + 1"
        "wrq_post md B src oack peer neg m' n' (wrq_in_order wr fl s (of_nat (m + 1)) (B ! m) n')"
        using wrq_in_order_post [OF rel assms(2) ans'] by blast
      have "wrq_post md B src oack peer neg m' n (wrq_in_order wr fl s (of_nat (m + 1)) (B ! m) n')"
        by (rule wrq_post_trans [OF wrq_recv_sends [OF rx] m'(3)])
      with m'(1,2) k(2) \<open>k = m + 1\<close> st s rx Packet_From_Peer x' show ?thesis
        by (intro exI [of _ m']) (simp add: wrq_run_event_def wrq_data_def)
    next
      case False
      then have "?post (wrq_event wr fl ev st)"
        using rx Packet_From_Peer st s failed loop [of a] again
        by (auto simp: wrq_run_event_def wrq_data_def split: sum.splits packet.splits)
      then show ?thesis using st assms(5) by auto
    qed
  next
    case Elapsed
    have "wrq_sends oack (m + 1) peer n (send_error peer c msg n')" for c msg
      using wrq_sends_trans [OF snt wrq_sends_error] .
    with Elapsed rx st s ack [of "a + 1"] have "?post (wrq_event wr fl ev st)"
      by (simp add: wrq_run_event_def wrq_post_failed)
    then show ?thesis using st assms(5) by auto
  next
    case (Failed e)
    with rx st s failed have "?post (wrq_event wr fl ev st)" by (simp add: wrq_run_event_def)
    then show ?thesis using st assms(5) by auto
  next
    case Stray
    have "wrq_srel md B oack peer neg m (WrqRun s a, n')" using rel ans' by (auto simp: wrq_srel_def)
    with Stray rx st s snt have "?post (wrq_event wr fl ev st)"
      by (simp add: wrq_run_event_def wrq_post_def)
    then show ?thesis using st assms(5) by auto
  qed
qed

lemma wrq_receiver_new_rel:
  "B \<noteq> [] \<Longrightarrow> contents f = [] \<Longrightarrow> wrq_rel md B peer neg 0 (wrq_receiver_new peer cfg neg f md)"
  by (simp add: wrq_rel_def wrq_receiver_new_def split: if_splits)

end

subsection \<open>The window counter\<close>

text \<open>Blocks accepted since the last ACK: always fewer than a window while the task waits.\<close>

definition wrq_counted :: "'f wrq_state \<Rightarrow> bool" where
  "wrq_counted st \<longleftrightarrow>
     (case fst st of WrqRun s _ \<Rightarrow> wr_blocks_in_window s < ng_windowsize (wr_neg s) | WrqClosed \<Rightarrow> True)"

lemma wrq_ack_counted:
  "wrq_ack b a n s after = Running st \<Longrightarrow> wr_blocks_in_window after < ng_windowsize (wr_neg after) \<Longrightarrow>
   wrq_counted st"
  by (auto simp: wrq_ack_def wrq_loop_def wrq_counted_def split: prod.splits sum.splits if_splits)

lemma wrq_write_block_frame:
  "wrq_write_block wr s d = (r, s') \<Longrightarrow> wr_neg s' = wr_neg s
     \<and> wr_blocks_in_window s' = wr_blocks_in_window s \<and> wr_peer s' = wr_peer s \<and> wr_cfg s' = wr_cfg s"
  by (auto simp: wrq_write_block_def split: prod.splits sum.splits)

lemma wrq_write_tail_frame:
  "wrq_write_tail wr fl s = (r, s') \<Longrightarrow> wr_neg s' = wr_neg s \<and> wr_peer s' = wr_peer s"
  by (auto simp: wrq_write_tail_def split: prod.splits sum.splits)

lemma wrq_in_order_counted:
  assumes "wrq_in_order wr fl s b d n = Running st" "wr_blocks_in_window s < ng_windowsize (wr_neg s)"
  shows "wrq_counted st"
proof -
  obtain r s1 where w: "wrq_write_block wr s d = (r, s1)" by fastforce
  with assms(1) obtain u where r: "r = Inr u" by (cases r) (auto simp: wrq_in_order_def Let_def)
  note frame = wrq_write_block_frame [OF w]
  let ?s = "s1\<lparr>wr_last_acked := b, wr_next_block := wr_next_block s1 + 1,
    wr_blocks_in_window := wr_blocks_in_window s1 + 1\<rparr>"
  have pos: "0 < ng_windowsize (wr_neg s)"
    using assms(2) by (metis word_not_simps(1) word_neq_0_conv)
  show ?thesis
  proof (cases "length d < unat (ng_blksize (wr_neg s))")
    case True
    then show ?thesis
      using assms(1) w r
      by (auto simp: wrq_in_order_def Let_def wrq_ack_def wrq_loop_def split: prod.splits sum.splits)
  next
    case False
    then show ?thesis
      using assms(1) w r frame pos wrq_ack_counted [of b 0 n ?s "?s\<lparr>wr_blocks_in_window := 0\<rparr>" st]
      by (auto simp: wrq_in_order_def Let_def wrq_loop_def wrq_counted_def not_le split: if_splits)
  qed
qed

lemma wrq_event_counted:
  assumes "wrq_counted st" "wrq_event wr fl ev st = Running st'"
  shows "wrq_counted st'"
proof (cases st)
  case (Pair task n)
  show ?thesis
  proof (cases task)
    case WrqClosed
    with assms Pair show ?thesis by simp
  next
    case (WrqRun s a)
    with assms(1) Pair have c: "wr_blocks_in_window s < ng_windowsize (wr_neg s)"
      by (simp add: wrq_counted_def)
    then have pos: "0 < ng_windowsize (wr_neg s)"
      by (metis word_not_simps(1) word_neq_0_conv)
    have loop: "wrq_counted st'" if "wrq_loop s a' n' = Running st'" for a' n'
      using that c by (auto simp: wrq_loop_def wrq_counted_def split: if_splits)
    have data: "wrq_counted st'" if "wrq_data wr fl s b d n' = Running st'" for b d n'
      using that wrq_in_order_counted [OF _ c, of wr fl b d n' st'] pos
        wrq_ack_counted [of "wr_last_acked s" 0 n' s "s\<lparr>wr_blocks_in_window := 0\<rparr>" st']
      by (auto simp: wrq_data_def split: if_splits)
    show ?thesis
      using assms(2) Pair WrqRun c loop data wrq_ack_counted [OF _ c]
      by (auto simp: wrq_run_event_def wrq_counted_def [of "(_, _)"]
          split: prod.splits received.splits sum.splits packet.splits if_splits)
  qed
qed

subsection \<open>Deadlines\<close>

definition wrq_timed :: "duration \<Rightarrow> 'f wrq_state \<Rightarrow> bool" where
  "wrq_timed T st \<longleftrightarrow> set (deadlines (snd st)) \<subseteq> {T}
     \<and> (case fst st of WrqRun s _ \<Rightarrow> ng_timeout (wr_neg s) = T | WrqClosed \<Rightarrow> True)"

lemma wrq_loop_timed:
  "ng_timeout (wr_neg s) = T \<Longrightarrow> set (deadlines n) \<subseteq> {T} \<Longrightarrow>
   wrq_timed T (state_of (wrq_loop s a n))"
  by (auto simp: wrq_loop_def wrq_timed_def)

lemma wrq_ack_timed:
  assumes "ng_timeout (wr_neg s) = T" "ng_timeout (wr_neg after) = T" "set (deadlines n) \<subseteq> {T}"
  shows "wrq_timed T (state_of (wrq_ack b a n s after))"
proof -
  obtain r n' where k: "send_ack (wr_peer s) b n = (r, n')" by fastforce
  with assms(3) have "set (deadlines n') \<subseteq> {T}"
    using send_ack_deadlines [of "wr_peer s" b n] by simp
  with k assms wrq_loop_timed [OF assms(2), of n' a] show ?thesis
    by (cases r) (simp_all add: wrq_ack_def wrq_timed_def)
qed

lemma wrq_in_order_timed:
  assumes "ng_timeout (wr_neg s) = T" "set (deadlines n) \<subseteq> {T}"
  shows "wrq_timed T (state_of (wrq_in_order wr fl s b d n))"
proof -
  obtain r s1 where w: "wrq_write_block wr s d = (r, s1)" by fastforce
  note neg1 = wrq_write_block_frame [OF w]
  let ?s = "s1\<lparr>wr_last_acked := b, wr_next_block := wr_next_block s1 + 1,
    wr_blocks_in_window := wr_blocks_in_window s1 + 1\<rparr>"
  obtain q s3 where t: "wrq_write_tail wr fl ?s = (q, s3)" by fastforce
  note neg3 = wrq_write_tail_frame [OF t]
  show ?thesis
    using w t neg1 neg3 assms
      wrq_ack_timed [of s3 T "s3\<lparr>wr_finished := True\<rparr>" n b 0]
      wrq_ack_timed [of ?s T "?s\<lparr>wr_blocks_in_window := 0\<rparr>" n b 0] wrq_loop_timed [of ?s T n 0]
    by (cases r; cases q) (auto simp: wrq_in_order_def Let_def wrq_timed_def [of _ "(_, _)"])
qed

lemma wrq_event_timed:
  assumes "wrq_timed T st"
  shows "wrq_timed T (state_of (wrq_event wr fl ev st))"
proof (cases st)
  case (Pair task n)
  show ?thesis
  proof (cases task)
    case (WrqRun s a)
    with assms Pair have s: "ng_timeout (wr_neg s) = T" and n: "set (deadlines n) \<subseteq> {T}"
      by (simp_all add: wrq_timed_def)
    obtain r n' where rx: "recv_one (wr_peer s) ev n = (r, n')" by fastforce
    have n': "set (deadlines n') \<subseteq> {T}"
      using n recv_one_deadlines [of "wr_peer s" ev n] rx by simp
    have data: "wrq_timed T (state_of (wrq_data wr fl s b d n'))" for b d
      using wrq_in_order_timed [OF s n'] wrq_ack_timed [OF s _ n'] s by (simp add: wrq_data_def)
    have wait: "wrq_timed T (state_of (wrq_loop s a' n'))" for a'
      using wrq_loop_timed [OF s n'] .
    have ack: "wrq_timed T (state_of (wrq_ack b a' n' s s))" for b a'
      using wrq_ack_timed [OF s s n'] .
    show ?thesis
      using rx Pair WrqRun n' data wait ack
      by (cases r) (auto simp: s wrq_run_event_def wrq_timed_def [of _ "(_, _)"]
          split: sum.splits packet.splits)
  next
    case WrqClosed
    with assms Pair show ?thesis by simp
  qed
qed

lemma serve_wrq_timed:
  assumes "\<And>oack neg. negotiate cfg options None = Some (oack, neg) \<Longrightarrow> ng_timeout neg = T" "deadlines n = []"
  shows "wrq_timed T (state_of (serve_wrq opn cfg peer filename m options n))"
proof (cases "negotiate cfg options None")
  case None
  with assms(2) show ?thesis
    by (auto simp: serve_wrq_def wrq_timed_def map_io_to_error_def Let_def split: sum.splits io_kind.splits)
next
  case (Some p)
  then obtain oack neg where neg: "negotiate cfg options None = Some (oack, neg)" by (cases p) auto
  with assms(1) have T: "ng_timeout neg = T" .
  obtain r n' where s: "(if \<not> option_set_is_empty oack then wrq_send_initial_oack peer oack n
      else send_ack peer 0 n) = (r, n')" by fastforce
  have "deadlines (snd (if \<not> option_set_is_empty oack then wrq_send_initial_oack peer oack n
      else send_ack peer 0 n)) = []"
    using assms(2) by (simp add: wrq_send_initial_oack_def send_to_deadlines)
  with s have "deadlines n' = []" by simp
  then show ?thesis
    using s neg T assms(2) wrq_loop_timed [of "wrq_receiver_new peer cfg neg _ m" T n' 0]
    by (cases r) (auto simp: serve_wrq_def wrq_timed_def [of _ "(_, _)"] map_io_to_error_def Let_def
        wrq_receiver_new_def split: sum.splits io_kind.splits)
qed

subsection \<open>Properties\<close>

text \<open>The counter of blocks since the last ACK stays below the window, from the start of an upload
  and whatever is received: every full window is acknowledged at once, and the 16-bit increment never
  overflows.\<close>

lemma wrq_window_counter:
  assumes "negotiated_ok neg"
    and "drive (wrq_event wr fl) (wrq_loop (wrq_receiver_new peer cfg neg f m) 0 n) evs = Running (WrqRun s a, n')"
  shows "wr_blocks_in_window s < ng_windowsize (wr_neg s)
    \<and> unat (wr_blocks_in_window s + 1) = unat (wr_blocks_in_window s) + 1"
proof -
  have "0 < ng_windowsize neg" using assms(1) by (simp add: negotiated_ok_def word_gt_0)
  then have "wrq_counted st" if "wrq_loop (wrq_receiver_new peer cfg neg f m) 0 n = Running st" for st
    using that by (auto simp: wrq_loop_def wrq_receiver_new_def wrq_counted_def)
  from drive_running [where I = wrq_counted, OF this wrq_event_counted assms(2)]
  have "wr_blocks_in_window s < ng_windowsize (wr_neg s)" by (simp add: wrq_counted_def)
  with unat_inc_no_overflow [OF this] show ?thesis by blast
qed

text \<open>C29: A transfer whose client falls silent ends. In a download, waiting for ACK(0) or for the ACK of a window, and
  in an upload, the task returns \<open>Timeout\<close> after exactly \<open>retries + 1\<close> timeouts, each but the last one a resend.\<close>

theorem server_silence_ends:
  assumes "faults n = []" "\<not> wr_finished w"
  shows "(\<exists>st. drive (rrq_event rd) (Running (RrqData s 0, n))
       (replicate (unat (cf_retries (rs_cfg s)) + 1) RxTimeout) = Done (Inl (TimedOut (cf_retries (rs_cfg s)))) st)
    \<and> (\<exists>st. drive (rrq_event rd) (Running (RrqOack s oack 0, n))
       (replicate (unat (cf_retries (rs_cfg s)) + 1) RxTimeout) = Done (Inl (TimedOut (cf_retries (rs_cfg s)))) st)
    \<and> (\<exists>st. drive (wrq_event wr fl) (Running (WrqRun w 0, n))
       (replicate (unat (cf_retries (wr_cfg w)) + 1) RxTimeout) = Done (Inl (TimedOut (cf_retries (wr_cfg w)))) st)"
  using rrq_silence_ends [OF assms(1), of rd s oack] wrq_retry.silence_ends [of n w 0 wr fl] assms by simp

theorem server_silence_ends_witness:
  "(\<exists>st. drive (rrq_event (\<lambda>f k. (Inr [], f)))
     (Running (RrqData (rrq_sender_new (V4 1 2) (config_default\<lparr>cf_retries := 1\<rparr>) negotiated_defaults () Octet) 0, net_new []))
     [RxTimeout, RxTimeout] = Done (Inl (TimedOut 1)) st)
   \<and> (\<exists>st. drive (wrq_event (\<lambda>f d. (Inr (), f)) (\<lambda>f. (Inr (), f)))
      (Running (WrqRun (wrq_receiver_new (V4 1 2) (config_default\<lparr>cf_retries := 1\<rparr>) negotiated_defaults () Octet) 0, net_new []))
      [RxTimeout, RxTimeout] = Done (Inl (TimedOut 1)) st)"
  using server_silence_ends [of "net_new []"
      "wrq_receiver_new (V4 1 2) (config_default\<lparr>cf_retries := 1\<rparr>) negotiated_defaults () Octet"
      "\<lambda>f k. (Inr [], f)" "rrq_sender_new (V4 1 2) (config_default\<lparr>cf_retries := 1\<rparr>) negotiated_defaults () Octet"]
  by (simp add: net_new_def wrq_receiver_new_def rrq_sender_new_def numeral_2_eq_2 del: drive.simps)

text \<open>C37: A request for a path outside the root touches no file: both services answer with exactly one
  ERROR (access violation) and return \<open>InvalidPath\<close>, whatever opening or measuring a file would do.\<close>

theorem unsafe_request_refused:
  assumes "resolve (cf_root cfg) filename = Inl e" "faults n = []"
  shows "serve_rrq rd opn flen cfg peer filename m options n = Done (Inl (InvalidPath filename))
      (RrqClosed, n\<lparr>outbox := outbox n @ [(peer, encode (ErrorPkt AccessViolation (ascii ''access violation'')))]\<rparr>)
    \<and> serve_wrq opnw cfg peer filename m options n = Done (Inl (InvalidPath filename))
      (WrqClosed, n\<lparr>outbox := outbox n @ [(peer, encode (ErrorPkt AccessViolation (ascii ''access violation'')))]\<rparr>)"
  using assms resolve_err [OF assms(1)] by (simp add: serve_rrq_def serve_wrq_def send_error_def)

theorem unsafe_request_refused_witness:
  "\<exists>n'. serve_rrq vec_read Inr (\<lambda>f. Inr 0) config_default (V4 1 2) [46, 46, 47, 97] Octet option_set_new (net_new [])
     = Done (Inl (InvalidPath [46, 46, 47, 97])) (RrqClosed, n')"
proof -
  have "resolve (cf_root config_default) [46, 46, 47, 97] = Inl (InvalidPath [46, 46, 47, 97])"
    by (simp add: resolve_def is_absolute_def reject_components_eq SEP_def DOT_def components_def
        body_components_def body_component_def leading_cur_dir_def is_normal_def List.map_filter_def)
  from unsafe_request_refused [OF this, of "net_new []" vec_read Inr "\<lambda>f. Inr 0" "V4 1 2" Octet option_set_new]
  show ?thesis by (auto simp: net_new_def)
qed

text \<open>C38: Without \<open>allow_overwrite\<close> an upload never opens an existing file: what opening for truncation
  would do plays no part in the task, which opens with \<open>create_new\<close> only, and the \<open>AlreadyExists\<close> of that
  is answered with exactly one ERROR (file exists).\<close>

theorem upload_never_overwrites:
  assumes "\<not> cf_allow_overwrite cfg" "opn CreateNew = opn' CreateNew"
  shows "serve_wrq opn cfg peer filename m options n = serve_wrq opn' cfg peer filename m options n
    \<and> (\<forall>path err. resolve (cf_root cfg) filename = Inr path \<and> opn CreateNew path = Inl err
         \<and> kind err = KAlreadyExists \<and> faults n = [] \<longrightarrow>
       serve_wrq opn cfg peer filename m options n = Done (Inl (Io err))
         (WrqClosed, n\<lparr>outbox := outbox n @ [(peer, encode (ErrorPkt FileExists (ascii ''file already exists'')))]\<rparr>))"
  using assms by (simp add: serve_wrq_def map_io_to_error_def send_error_def cong: sum.case_cong)

theorem upload_never_overwrites_witness:
  "\<exists>n'. serve_wrq (\<lambda>how p. if how = CreateNew then Inl (Io_Error KAlreadyExists []) else Inr ())
      config_default (V4 1 2) [97] Octet option_set_new (net_new [])
    = Done (Inl (Io (Io_Error KAlreadyExists []))) (WrqClosed, n')"
proof -
  have r: "resolve (cf_root config_default) [97] = Inr [46, 47, 97]"
    by (simp add: resolve_ok_iff config_default_def ascii_def is_absolute_def SEP_def DOT_def path_join_def)
  have "\<not> cf_allow_overwrite config_default" by (simp add: config_default_def)
  from upload_never_overwrites [OF this, where opn = "\<lambda>how p. if how = CreateNew then Inl (Io_Error KAlreadyExists []) else Inr ()"
      and opn' = "\<lambda>how p. Inl (Io_Error KAlreadyExists [])" and peer = "V4 1 2" and filename = "[97]"
      and m = Octet and options = option_set_new and n = "net_new []"] r
  show ?thesis by (simp add: net_new_def) metis
qed

text \<open>A download of a file that cannot be opened is answered with one ERROR whose code says why
  (not found, access violation, or not defined), and returns the I/O error.\<close>

lemma download_open_error:
  assumes "resolve (cf_root cfg) filename = Inr path" "opn path = Inl err" "faults n = []"
  shows "\<exists>code msg. serve_rrq rd opn flen cfg peer filename m options n = Done (Inl (Io err))
      (RrqClosed, n\<lparr>outbox := outbox n @ [(peer, encode (ErrorPkt code msg))]\<rparr>)
    \<and> (code = FileNotFound \<longleftrightarrow> kind err = KNotFound)
    \<and> (code = AccessViolation \<longleftrightarrow> kind err = KPermissionDenied) \<and> cstr_ok msg"
proof -
  have "cstr_ok (ascii ''file not found'')" "cstr_ok (ascii ''access violation'')"
    "cstr_ok (ascii ''file already exists'')" "cstr_ok (ascii ''i/o error'')"
    by (rule ascii_cstr_ok; simp add: ascii_def)+
  with assms show ?thesis
    by (auto simp: serve_rrq_def map_io_to_error_def send_error_def split: io_kind.splits)
qed

end
