(* ===== verification/Server_Main.thy ===== *)
theory Server_Main
  imports Server_Wrq
begin

text \<open>
  The server's configuration, listener and dispatch (\<^verbatim>\<open>server.rs\<close>: \<open>ServerBuilder\<close>,
  \<open>Server::bind\<close>, \<open>Server::run\<close>, \<open>run_until\<close> and \<open>handle_initial\<close>). The operating system
  is the record \<open>os\<close> of parameters. Every spawned transfer is an entry of \<open>tasks\<close> that
  steps on the events of its own socket.
\<close>

record 'f os =
  os_open :: "bytes \<Rightarrow> io_error + 'f"
  os_len :: "'f \<Rightarrow> io_error + u64"
  os_create :: "open_how \<Rightarrow> bytes \<Rightarrow> io_error + 'f"
  os_read :: "'f reader"
  os_write :: "'f writer"
  os_flush :: "'f flusher"
  os_bind :: "sockaddr \<Rightarrow> io_error + sockaddr"
  os_canonicalize :: "bytes \<Rightarrow> io_error + bytes"

subsection \<open>The builder\<close>

record server_builder =
  sb_cfg :: config

definition server_builder_new :: server_builder where
  "server_builder_new = \<lparr>sb_cfg = config_default\<rparr>"

definition sb_listen :: "sockaddr \<Rightarrow> server_builder \<Rightarrow> server_builder" where
  "sb_listen addr b = b\<lparr>sb_cfg := (sb_cfg b)\<lparr>cf_listen := addr\<rparr>\<rparr>"

definition sb_root :: "bytes \<Rightarrow> server_builder \<Rightarrow> server_builder" where
  "sb_root path b = b\<lparr>sb_cfg := (sb_cfg b)\<lparr>cf_root := path\<rparr>\<rparr>"

definition sb_allow_overwrite :: "bool \<Rightarrow> server_builder \<Rightarrow> server_builder" where
  "sb_allow_overwrite yes b = b\<lparr>sb_cfg := (sb_cfg b)\<lparr>cf_allow_overwrite := yes\<rparr>\<rparr>"

definition sb_timeout :: "duration \<Rightarrow> server_builder \<Rightarrow> server_builder" where
  "sb_timeout d b = b\<lparr>sb_cfg := (sb_cfg b)\<lparr>cf_timeout := d\<rparr>\<rparr>"

definition sb_retries :: "u32 \<Rightarrow> server_builder \<Rightarrow> server_builder" where
  "sb_retries n b = b\<lparr>sb_cfg := (sb_cfg b)\<lparr>cf_retries := n\<rparr>\<rparr>"

definition sb_max_block_size :: "u16 \<Rightarrow> server_builder \<Rightarrow> server_builder" where
  "sb_max_block_size n b = b\<lparr>sb_cfg := (sb_cfg b)\<lparr>cf_max_block_size := n\<rparr>\<rparr>"

definition sb_allow_windowsize :: "bool \<Rightarrow> server_builder \<Rightarrow> server_builder" where
  "sb_allow_windowsize yes b = b\<lparr>sb_cfg := (sb_cfg b)\<lparr>cf_allow_windowsize := yes\<rparr>\<rparr>"

record server =
  sv_cfg :: config
  sv_local_addr :: sockaddr

definition server_bind :: "'f os \<Rightarrow> config \<Rightarrow> error + server" where
  "server_bind sys cfg =
     (case os_canonicalize sys (cf_root cfg) of
        Inl e \<Rightarrow> Inl (Io (Io_Error (kind e) (ascii ''root: '' @ io_msg e)))
      | Inr canon_root \<Rightarrow>
          (let cfg' = cfg\<lparr>cf_root := canon_root\<rparr> in
           case os_bind sys (cf_listen cfg') of
             Inl e \<Rightarrow> Inl (Io e)
           | Inr addr \<Rightarrow> Inr \<lparr>sv_cfg = cfg', sv_local_addr = addr\<rparr>))"

definition sb_bind :: "'f os \<Rightarrow> server_builder \<Rightarrow> error + server" where
  "sb_bind sys b = server_bind sys (sb_cfg b)"

subsection \<open>Dispatching a request\<close>

datatype 'f conn = ConnClosed | ConnRrq "'f rrq_task" | ConnWrq "'f wrq_task"

type_synonym 'f conn_state = "'f conn \<times> net"

fun map_state :: "('s \<Rightarrow> 't) \<Rightarrow> ('s, 'r) progress \<Rightarrow> ('t, 'r) progress" where
  "map_state f (Running s) = Running (f s)"
| "map_state f (Done r s) = Done r (f s)"
| "map_state f (Panicked s) = Panicked (f s)"

definition handle_initial ::
  "'f os \<Rightarrow> config \<Rightarrow> sockaddr \<Rightarrow> bytes \<Rightarrow> net \<Rightarrow> ('f conn_state, unit) progress" where
  "handle_initial sys cfg peer frame n =
     (case decode frame of
        Inl e \<Rightarrow> Done (Inr ()) (ConnClosed, n)
      | Inr packet \<Rightarrow>
          (case os_bind sys (bind_addr_for (cf_listen cfg)) of
             Inl e \<Rightarrow> Done (Inl (Io e)) (ConnClosed, n)
           | Inr _ \<Rightarrow>
               (case packet of
                  Rrq filename m options \<Rightarrow>
                    map_state (apfst ConnRrq)
                      (serve_rrq (os_read sys) (os_open sys) (os_len sys) cfg peer filename m options n)
                | Wrq filename m options \<Rightarrow>
                    map_state (apfst ConnWrq)
                      (serve_wrq (os_create sys) cfg peer filename m options n)
                | _ \<Rightarrow> Done (Inr ()) (ConnClosed, n))))"

fun conn_event :: "'f os \<Rightarrow> rx \<Rightarrow> 'f conn_state \<Rightarrow> ('f conn_state, unit) progress" where
  "conn_event sys ev (ConnRrq t, n) = map_state (apfst ConnRrq) (rrq_event (os_read sys) ev (t, n))"
| "conn_event sys ev (ConnWrq t, n) =
     map_state (apfst ConnWrq) (wrq_event (os_write sys) (os_flush sys) ev (t, n))"
| "conn_event sys ev (ConnClosed, n) = Running (ConnClosed, n)"

subsection \<open>The listener\<close>

text \<open>
  What \<open>run\<close> and \<open>run_until\<close> react to: a datagram or an I/O error on the listening socket,
  the shutdown future, and the events of the detached transfer tasks (numbered in the order
  they were spawned). A spawned task starts with a fresh socket, on which \<open>faults\<close> says which
  sends fail.
\<close>

datatype run_event =
    Incoming sockaddr bytes "io_error option list"
  | ListenError io_error
  | Shutdown
  | TaskEvent nat rx

record 'f running =
  tasks :: "('f conn_state, unit) progress list"
  returned :: "(error + unit) option"

definition run_start :: "'f running" where
  "run_start = \<lparr>tasks = [], returned = None\<rparr>"

definition listen_step :: "'f os \<Rightarrow> server \<Rightarrow> run_event \<Rightarrow> 'f running \<Rightarrow> 'f running" where
  "listen_step sys sv ev st =
     (case ev of
        Incoming peer d fs \<Rightarrow>
          st\<lparr>tasks := tasks st @ [handle_initial sys (sv_cfg sv) peer (rx_buffer d) (net_new fs)]\<rparr>
      | ListenError e \<Rightarrow> st\<lparr>returned := Some (Inl (Io e))\<rparr>
      | Shutdown \<Rightarrow> st\<lparr>returned := Some (Inr ())\<rparr>
      | TaskEvent _ _ \<Rightarrow> st)"

definition run_step :: "'f os \<Rightarrow> server \<Rightarrow> run_event \<Rightarrow> 'f running \<Rightarrow> 'f running" where
  "run_step sys sv ev st =
     (case ev of
        TaskEvent i rx \<Rightarrow>
          if i < length (tasks st)
          then st\<lparr>tasks := (tasks st)[i := drive (conn_event sys) (tasks st ! i) [rx]]\<rparr> else st
      | _ \<Rightarrow> (case returned st of None \<Rightarrow> listen_step sys sv ev st | Some _ \<Rightarrow> st))"

text \<open>
  The tasks share the file system: what one of them writes, another one may find. So every event comes with the
  operating system as it answers at that moment, and nothing relates the answers at two moments.
\<close>

definition run_until :: "server \<Rightarrow> ('f os \<times> run_event) list \<Rightarrow> 'f running" where
  "run_until sv evs = fold (\<lambda>(sys, ev). run_step sys sv ev) evs run_start"

subsection \<open>A task's progress through the wrapper\<close>

lemma state_of_map_state [simp]: "state_of (map_state f p) = f (state_of p)"
  by (cases p) simp_all

lemma map_state_iff [simp]:
  "map_state f p = Running t \<longleftrightarrow> (\<exists>s. p = Running s \<and> t = f s)"
  "map_state f p = Done r t \<longleftrightarrow> (\<exists>s. p = Done r s \<and> t = f s)"
  "map_state f p = Panicked t \<longleftrightarrow> (\<exists>s. p = Panicked s \<and> t = f s)"
  by (cases p; auto)+

subsection \<open>Deadlines\<close>

text \<open>The seconds a request asks for with its \<open>timeout\<close> option, else the default.\<close>

definition requested_timeout :: "bytes \<Rightarrow> nat" where
  "requested_timeout frame =
     (let secs = (\<lambda>options. case timeout_opt options of Some t \<Rightarrow> unat t | None \<Rightarrow> 5) in
      case decode frame of
        Inr (Rrq _ _ options) \<Rightarrow> secs options
      | Inr (Wrq _ _ options) \<Rightarrow> secs options
      | _ \<Rightarrow> 5)"

definition conn_timed :: "duration \<Rightarrow> 'f conn_state \<Rightarrow> bool" where
  "conn_timed d st \<longleftrightarrow>
     (case fst st of
        ConnRrq t \<Rightarrow> rrq_timed d (t, snd st)
      | ConnWrq t \<Rightarrow> wrq_timed d (t, snd st)
      | ConnClosed \<Rightarrow> set (deadlines (snd st)) \<subseteq> {d})"

lemma conn_timed_lift [simp]:
  "conn_timed d (apfst ConnRrq s) \<longleftrightarrow> rrq_timed d s" "conn_timed d (apfst ConnWrq s') \<longleftrightarrow> wrq_timed d s'"
  by (cases s, simp add: conn_timed_def) (cases s', simp add: conn_timed_def)

lemma conn_timed_deadlines: "conn_timed d st \<Longrightarrow> set (deadlines (snd st)) \<subseteq> {d}"
  by (cases "fst st") (auto simp: conn_timed_def rrq_timed_def wrq_timed_def)

lemma conn_event_timed: "conn_timed d st \<Longrightarrow> conn_timed d (state_of (conn_event sys ev st))"
proof (induction sys ev st rule: conn_event.induct)
  case (1 sys ev t n)
  then have "rrq_timed d (t, n)" by (simp add: conn_timed_def)
  from rrq_event_timed [OF this] show ?case by simp
next
  case (2 sys ev t n)
  then have "wrq_timed d (t, n)" by (simp add: conn_timed_def)
  from wrq_event_timed [OF this] show ?case by simp
qed simp

lemma handle_initial_timed:
  assumes "deadlines n = []"
  shows "conn_timed (from_secs (requested_timeout frame)) (state_of (handle_initial sys cfg peer frame n))"
proof -
  let ?d = "from_secs (requested_timeout frame)"
  have T: "ng_timeout neg = ?d"
    if "decode frame = Inr p" "p = Rrq f m options \<or> p = Wrq f m options"
      "negotiate cfg options fs = Some (oack, neg)" for p f m options fs oack neg
    using that decode_packet_ok [OF that(1)] negotiated_timeout [OF that(3)]
    by (auto simp: requested_timeout_def)
  have rrq: "rrq_timed ?d (state_of (serve_rrq rd opn flen cfg peer f m options n))"
    if "decode frame = Inr (Rrq f m options)" for rd opn flen f m options
    using T [OF that disjI1, OF refl] by (intro serve_rrq_timed assms)
  have wrq: "wrq_timed ?d (state_of (serve_wrq opn cfg peer f m options n))"
    if "decode frame = Inr (Wrq f m options)" for opn f m options
    using T [OF that disjI2, OF refl] by (intro serve_wrq_timed assms)
  show ?thesis
    using assms
    by (auto simp: handle_initial_def conn_timed_def [of _ "(_, _)"] intro: rrq wrq split: sum.split packet.split)
qed

subsection \<open>Panics\<close>

text \<open>A task panics only in \<open>negotiate\<close>: once it waits for a datagram it can no longer.\<close>

lemma rrq_event_no_panic: "rrq_event rd ev st \<noteq> Panicked st'"
proof (induction rd ev st rule: rrq_event.induct)
  case (1 rd ev s oack a n)
  show ?case
    by (auto simp: rrq_oack_event_def rrq_oack_retry_def rrq_send_oack_def rrq_next_window_def rrq_send_def
        split: prod.splits received.splits sum.splits packet.splits if_splits)
next
  case (2 rd ev s a n)
  show ?case
    by (auto simp: rrq_data_event_def rrq_next_window_def rrq_send_def
        split: prod.splits received.splits sum.splits packet.splits if_splits)
qed simp

lemma wrq_event_no_panic: "wrq_event wr fl ev st \<noteq> Panicked st'"
proof (induction wr fl ev st rule: wrq_event.induct)
  case (1 wr fl ev s a n)
  have ack: "wrq_ack b a n s after \<noteq> Panicked x" for b a n s after x
    by (auto simp: wrq_ack_def wrq_loop_def split: prod.splits sum.splits)
  show ?case
    by (auto simp: wrq_run_event_def wrq_data_def wrq_in_order_def Let_def ack wrq_loop_def
        split: prod.splits received.splits sum.splits packet.splits if_splits)
qed simp

lemma conn_event_no_panic: "conn_event sys ev st \<noteq> Panicked st'"
  by (induction sys ev st rule: conn_event.induct) (simp_all add: rrq_event_no_panic wrq_event_no_panic)

lemma serve_panics:
  assumes "negotiate cfg options fs = None"
  shows "cf_max_block_size cfg < 8"
  using assms negotiate_panics_iff [of cfg options fs] by (simp add: MIN_BLOCK_SIZE_def)

lemma handle_initial_panics:
  assumes "handle_initial sys cfg peer frame n = Panicked st"
  shows "cf_max_block_size cfg < 8"
proof -
  have rrq: "cf_max_block_size cfg < 8" if "serve_rrq rd opn flen cfg peer f m options n = Panicked x" for rd opn flen f m options x
    using that by (auto simp: serve_rrq_def map_io_to_error_def Let_def rrq_send_oack_def rrq_next_window_def
        rrq_send_def dest: serve_panics split: prod.splits sum.splits option.splits if_splits)
  have wrq: "cf_max_block_size cfg < 8" if "serve_wrq opn cfg peer f m options n = Panicked x" for opn f m options x
    using that by (auto simp: serve_wrq_def map_io_to_error_def Let_def wrq_loop_def
        dest: serve_panics split: prod.splits sum.splits option.splits if_splits)
  show ?thesis
    using assms rrq wrq by (auto simp: handle_initial_def split: sum.splits packet.splits)
qed

lemma drive_no_panic:
  assumes "drive step p evs = Panicked st" "\<And>ev s s'. step ev s \<noteq> Panicked s'"
  shows "p = Panicked st"
  using assms
proof (induction evs arbitrary: p)
  case (Cons ev evs)
  then show ?case by (cases p) auto
qed simp

subsection \<open>The listener and its tasks\<close>

text \<open>What ends \<open>run_until\<close>, and the events of one task.\<close>

fun stops :: "run_event \<Rightarrow> (error + unit) option" where
  "stops (ListenError e) = Some (Inl (Io e))"
| "stops Shutdown = Some (Inr ())"
| "stops _ = None"

fun events_of :: "nat \<Rightarrow> ('f os \<times> run_event) list \<Rightarrow> ('f os \<times> rx) list" where
  "events_of i [] = []"
| "events_of i ((sys, TaskEvent j rx) # evs) = (if j = i then (sys, rx) # events_of i evs else events_of i evs)"
| "events_of i (_ # evs) = events_of i evs"

text \<open>A task on its own, with the answers of the file system at its events.\<close>

definition alone_run :: "('f os \<times> rx) list \<Rightarrow> ('f conn_state, unit) progress \<Rightarrow> ('f conn_state, unit) progress" where
  "alone_run = fold (\<lambda>(sys, rx) p. drive (conn_event sys) p [rx])"

lemma returned_run_step:
  "returned (run_step sys sv ev st) = (case returned st of Some r \<Rightarrow> Some r | None \<Rightarrow> stops ev)"
  by (cases ev) (auto simp: run_step_def listen_step_def split: option.split)

lemma returned_fold:
  "returned (fold (\<lambda>(sys, ev). run_step sys sv ev) evs st)
   = (case returned st of Some r \<Rightarrow> Some r | None \<Rightarrow> find_map stops (map snd evs))"
  by (induction evs arbitrary: st) (auto simp: returned_run_step split: option.splits)

lemma run_step_task:
  assumes "i < length (tasks st)"
  shows "i < length (tasks (run_step sys sv ev st))
    \<and> tasks (run_step sys sv ev st) ! i = alone_run (events_of i [(sys, ev)]) (tasks st ! i)"
  using assms by (cases ev) (auto simp: run_step_def listen_step_def nth_append alone_run_def split: option.split)

lemma fold_task:
  "i < length (tasks st) \<Longrightarrow> i < length (tasks (fold (\<lambda>(sys, ev). run_step sys sv ev) evs st))
    \<and> tasks (fold (\<lambda>(sys, ev). run_step sys sv ev) evs st) ! i = alone_run (events_of i evs) (tasks st ! i)"
proof (induction evs arbitrary: st)
  case (Cons e evs)
  obtain sys ev where e: "e = (sys, ev)" by fastforce
  have "events_of i (e # evs) = events_of i [e] @ events_of i evs" unfolding e by (cases ev) auto
  with Cons.IH [OF conjunct1 [OF run_step_task [OF Cons.prems]]] run_step_task [OF Cons.prems]
  show ?case by (simp add: e alone_run_def)
qed (simp add: alone_run_def)

subsection \<open>Properties\<close>

text \<open>C32: Every deadline of a server task, in either service and phase, is the number of seconds that the
  request asked for, or 5 seconds when it did not: the configured \<open>timeout\<close> plays no part.\<close>

theorem server_deadlines:
  "set (deadlines (snd (state_of (drive (conn_event sys) (handle_initial sys cfg peer frame (net_new fs)) evs))))
   \<subseteq> {from_secs (requested_timeout frame)}"
proof -
  have "conn_timed (from_secs (requested_timeout frame))
      (state_of (drive (conn_event sys) (handle_initial sys cfg peer frame (net_new fs)) evs))"
    by (rule drive_invariant [OF handle_initial_timed conn_event_timed]) (simp_all add: net_new_def)
  then show ?thesis by (rule conn_timed_deadlines)
qed

text \<open>C34: A task panics only when the configured maximum block size is below 8: with any other
  configuration no datagram, file or I/O error makes a server task panic.\<close>

theorem server_task_panics:
  assumes "drive (conn_event sys) (handle_initial sys cfg peer frame n) evs = Panicked st"
  shows "cf_max_block_size cfg < 8"
  using drive_no_panic [OF assms] conn_event_no_panic handle_initial_panics by metis

theorem server_task_panics_witness:
  "\<exists>(sys :: unit os) cfg st. drive (conn_event sys) (handle_initial sys cfg (V4 1 2)
      (encode (Rrq [97] Octet \<lparr>items = [BlockSize 512]\<rparr>)) (net_new [])) [] = Panicked st \<and> cf_max_block_size cfg < 8"
proof -
  let ?sys = "\<lparr>os_open = \<lambda>_. Inr (), os_len = \<lambda>_. Inr 0, os_create = \<lambda>_ _. Inr (), os_read = \<lambda>f k. (Inr [], f),
    os_write = \<lambda>f b. (Inr (), f), os_flush = \<lambda>f. (Inr (), f), os_bind = Inr, os_canonicalize = Inr\<rparr>"
  let ?cfg = "config_default\<lparr>cf_max_block_size := 4\<rparr>" and ?o = "\<lparr>items = [BlockSize 512]\<rparr>"
  have "decode (encode (Rrq [97] Octet ?o)) = Inr (Rrq [97] Octet ?o)"
    by (rule decode_encode) (simp add: option_set_ok_def proto_consts cstr_ok_def utf8_valid_ascii)
  moreover have "resolve (cf_root ?cfg) [97] = Inr [46, 47, 97]"
    by (simp add: resolve_ok_iff config_default_def ascii_def is_absolute_def SEP_def DOT_def path_join_def)
  moreover have "negotiate ?cfg ?o (Some 0) = None"
    by (simp add: negotiate_panics_iff block_size_def MIN_BLOCK_SIZE_def)
  ultimately obtain st where p: "drive (conn_event ?sys)
      (handle_initial ?sys ?cfg (V4 1 2) (encode (Rrq [97] Octet ?o)) (net_new [])) [] = Panicked st"
    by (simp add: handle_initial_def serve_rrq_def)
  from p server_task_panics [OF p] show ?thesis by blast
qed

text \<open>C31: The tasks of a server interact through the file system only, and nothing that happens to a transfer
  reaches the listener. At every event the file system may answer differently (because other tasks have written in the
  meantime, or for any other reason). Each datagram that arrives before an I/O error of the listening socket or the
  shutdown starts one task, and what becomes of that task is determined by the datagram, by the events of the task's own
  socket, and by the answers of the file system at those moments: the requests, the sockets and the failures of other
  transfers, an error of the listener and the shutdown do not reach it otherwise. The server stops accepting exactly at the first such error (which
  \<open>run_until\<close> returns) or at the shutdown (then \<open>Ok\<close>): no datagram and no failing transfer ends it.\<close>

theorem tasks_isolated:
  assumes "find_map stops (map snd pre) = None" "evs = pre @ (sys, Incoming peer d fs) # post"
  shows "length (tasks (run_until sv pre)) < length (tasks (run_until sv evs))
   \<and> tasks (run_until sv evs) ! length (tasks (run_until sv pre))
     = alone_run (events_of (length (tasks (run_until sv pre))) post)
         (handle_initial sys (sv_cfg sv) peer (rx_buffer d) (net_new fs))
   \<and> returned (run_until sv evs) = find_map stops (map snd post)"
proof -
  let ?st = "run_until sv pre" and ?i = "length (tasks (run_until sv pre))"
  have r: "returned ?st = None"
    using assms by (simp add: run_until_def returned_fold run_start_def)
  then have "tasks (run_step sys sv (Incoming peer d fs) ?st)
      = tasks ?st @ [handle_initial sys (sv_cfg sv) peer (rx_buffer d) (net_new fs)]"
    by (simp add: run_step_def listen_step_def)
  with fold_task [of ?i "run_step sys sv (Incoming peer d fs) ?st" sv post] r assms(2) show ?thesis
    by (simp add: run_until_def returned_fold returned_run_step)
qed

text \<open>
  Two tasks, where the file system has changed between the first one's request and the second one's, and again at the
  second one's timeout, after the shutdown.
\<close>

theorem tasks_isolated_witness:
  "\<forall>(sys1 :: unit os) sys2 sys3 sv.
     tasks (run_until sv [(sys1, Incoming (V4 1 2) [1] []), (sys2, Incoming (V4 3 4) [2] []), (sys2, Shutdown), (sys3, TaskEvent 1 RxTimeout)]) ! 1
     = drive (conn_event sys3) (handle_initial sys2 (sv_cfg sv) (V4 3 4) (rx_buffer [2]) (net_new [])) [RxTimeout]
   \<and> returned (run_until sv [(sys1, Incoming (V4 1 2) [1] []), (sys2, Incoming (V4 3 4) [2] []), (sys2, Shutdown), (sys3, TaskEvent 1 RxTimeout)])
     = Some (Inr ())"
proof (intro allI)
  fix sys1 sys2 sys3 :: "unit os" and sv
  let ?pre = "[(sys1, Incoming (V4 1 2) [1] [])]"
  have stop: "find_map stops (map snd ?pre) = None" by simp
  have "length (tasks (run_until sv ?pre)) = 1"
    by (simp add: run_until_def run_start_def run_step_def listen_step_def)
  then show "tasks (run_until sv [(sys1, Incoming (V4 1 2) [1] []), (sys2, Incoming (V4 3 4) [2] []), (sys2, Shutdown), (sys3, TaskEvent 1 RxTimeout)]) ! 1
      = drive (conn_event sys3) (handle_initial sys2 (sv_cfg sv) (V4 3 4) (rx_buffer [2]) (net_new [])) [RxTimeout]
    \<and> returned (run_until sv [(sys1, Incoming (V4 1 2) [1] []), (sys2, Incoming (V4 3 4) [2] []), (sys2, Shutdown), (sys3, TaskEvent 1 RxTimeout)])
      = Some (Inr ())"
    using tasks_isolated [OF stop, of _ sys2 "V4 3 4" "[2]" "[]" "[(sys2, Shutdown), (sys3, TaskEvent 1 RxTimeout)]" sv, OF refl]
    by (simp add: alone_run_def)
qed

end
