(* ===== verification/Client_Get.thy ===== *)
theory Client_Get
  imports Negotiation Transfer_System Sinks
begin

text \<open>
  The client as data receiver (\<^verbatim>\<open>client.rs\<close>, \<open>do_get\<close>, \<open>Receiver\<close> and \<open>Sink\<close>). The task
  waits either for the answer to its request or for DATA; each received event is one step.
  The record \<open>getter\<close> holds the parameters and local variables of \<open>do_get\<close>. \<open>wr\<close> and \<open>fl\<close>
  write and flush a file, \<open>bnd\<close> binds a socket. \<open>gt_peer\<close> is the second \<open>peer\<close> of the code,
  bound when phase 1 is over; until then it holds the server's address and is not used.
\<close>

subsection \<open>The destination\<close>

datatype 'f sink = SinkFile 'f | SinkVec bytes

record 'f receiver =
  rc_sink :: "'f sink"
  rc_decoder :: "from_wire option"
  rc_bytes :: u64

definition receiver_new :: "'f sink \<Rightarrow> mode \<Rightarrow> 'f receiver" where
  "receiver_new sink m =
     \<lparr>rc_sink = sink, rc_decoder = (if m = NetAscii then Some from_wire_new else None), rc_bytes = 0\<rparr>"

text \<open>\<open>new_file\<close> opens with \<open>write\<close>, \<open>create\<close> and \<open>truncate\<close> (the parameter \<open>opn\<close>).\<close>

definition receiver_new_file ::
  "(bytes \<Rightarrow> io_error + 'f) \<Rightarrow> bytes \<Rightarrow> mode \<Rightarrow> error + 'f receiver" where
  "receiver_new_file opn local m =
     (case opn local of Inl e \<Rightarrow> Inl (Io e) | Inr f \<Rightarrow> Inr (receiver_new (SinkFile f) m))"

definition receiver_new_vec :: "mode \<Rightarrow> 'f receiver" where
  "receiver_new_vec m = receiver_new (SinkVec []) m"

fun sink_write :: "'f writer \<Rightarrow> 'f sink \<Rightarrow> bytes \<Rightarrow> (io_error + unit) \<times> 'f sink" where
  "sink_write wr (SinkFile f) buf = (case wr f buf of (r, f') \<Rightarrow> (r, SinkFile f'))"
| "sink_write wr (SinkVec v) buf = (Inr (), SinkVec (v @ buf))"

fun sink_flush :: "'f flusher \<Rightarrow> 'f sink \<Rightarrow> (io_error + unit) \<times> 'f sink" where
  "sink_flush fl (SinkFile f) = (case fl f of (r, f') \<Rightarrow> (r, SinkFile f'))"
| "sink_flush fl (SinkVec v) = (Inr (), SinkVec v)"

definition write_raw :: "'f writer \<Rightarrow> 'f receiver \<Rightarrow> bytes \<Rightarrow> (error + unit) \<times> 'f receiver" where
  "write_raw wr w buf =
     (case sink_write wr (rc_sink w) buf of
        (Inl e, k) \<Rightarrow> (Inl (Io e), w\<lparr>rc_sink := k\<rparr>)
      | (Inr _, k) \<Rightarrow> (Inr (), w\<lparr>rc_sink := k, rc_bytes := rc_bytes w + of_nat (length buf)\<rparr>))"

definition receiver_write_block ::
  "'f writer \<Rightarrow> 'f receiver \<Rightarrow> bytes \<Rightarrow> (error + unit) \<times> 'f receiver" where
  "receiver_write_block wr w data =
     (case decode_chunk (rc_decoder w) data of
        (dec, out) \<Rightarrow> write_raw wr (w\<lparr>rc_decoder := dec\<rparr>) out)"

definition receiver_finish ::
  "'f writer \<Rightarrow> 'f flusher \<Rightarrow> 'f receiver \<Rightarrow> (error + unit) \<times> 'f receiver" where
  "receiver_finish wr fl w =
     (case decode_tail (rc_decoder w) of
        (dec, tail) \<Rightarrow>
          let w1 = w\<lparr>rc_decoder := dec\<rparr> in
          case (if tail \<noteq> [] then write_raw wr w1 tail else (Inr (), w1)) of
            (Inl e, w2) \<Rightarrow> (Inl e, w2)
          | (Inr _, w2) \<Rightarrow>
              (case sink_flush fl (rc_sink w2) of
                 (Inl e, k) \<Rightarrow> (Inl (Io e), w2\<lparr>rc_sink := k\<rparr>)
               | (Inr _, k) \<Rightarrow> (Inr (), w2\<lparr>rc_sink := k\<rparr>)))"

text \<open>\<open>into_vec\<close>; \<open>None\<close> is its \<open>unreachable!\<close>.\<close>

definition into_vec :: "'f receiver \<Rightarrow> bytes option" where
  "into_vec w = (case rc_sink w of SinkVec v \<Rightarrow> Some v | SinkFile _ \<Rightarrow> None)"

subsection \<open>The client's copies of helpers\<close>

text \<open>
  \<^verbatim>\<open>client.rs\<close> has a \<open>Negotiated\<close>, a \<open>recv_one\<close> and a choice of the local address of its own. They do what
  those of the server do.
\<close>

definition client_negotiated_defaults :: negotiated where
  "client_negotiated_defaults =
     \<lparr>ng_blksize = DEFAULT_BLOCK_SIZE, ng_timeout = from_secs (unat DEFAULT_TIMEOUT_SECS),
      ng_windowsize = DEFAULT_WINDOW_SIZE\<rparr>"

definition client_recv_one :: "sockaddr \<Rightarrow> rx \<Rightarrow> net \<Rightarrow> received \<times> net" where
  "client_recv_one expected ev n =
     (case ev of
        RxTimeout \<Rightarrow> (Elapsed, n)
      | RxError e \<Rightarrow> (Failed (Io e), n)
      | RxFrom src d \<Rightarrow>
          if src \<noteq> expected then
            (Stray, snd (send_to src (encode (ErrorPkt UnknownTid (ascii ''unknown transfer id''))) n))
          else (Packet_From_Peer (rx_buffer d), n))"

definition bind_local :: "(sockaddr \<Rightarrow> io_error + unit) \<Rightarrow> sockaddr \<Rightarrow> error + unit" where
  "bind_local bnd server =
     (let bind_addr = (case server of V4 _ _ \<Rightarrow> V4 0 0 | V6 _ _ _ _ \<Rightarrow> V6 0 0 0 0) in
      case bnd bind_addr of Inl e \<Rightarrow> Inl (Io e) | Inr _ \<Rightarrow> Inr ())"

lemma client_defaults_eq [simp]: "client_negotiated_defaults = negotiated_defaults"
  by (simp add: client_negotiated_defaults_def negotiated_defaults_def)

lemma client_recv_one_eq [simp]: "client_recv_one = recv_one"
  by (simp add: fun_eq_iff client_recv_one_def recv_one_def unknown_tid_packet_def split: rx.split)

lemma bind_local_eq: "bind_local bnd server = (case bnd (bind_addr_for server) of Inl e \<Rightarrow> Inl (Io e) | Inr _ \<Rightarrow> Inr ())"
  by (cases server) (simp_all add: bind_local_def Let_def)

subsection \<open>The task\<close>

record 'f getter =
  gt_opts :: client_options
  gt_server :: sockaddr
  gt_request :: bytes
  gt_want_oack :: bool
  gt_writer :: "'f receiver"
  gt_neg :: negotiated
  gt_peer :: sockaddr
  gt_next_block :: u16
  gt_blocks_in_window :: u16
  gt_last_acked :: u16

datatype 'f get_task = GetClosed | GetRequest "'f getter" u32 | GetData "'f getter" u32

type_synonym 'f get_state = "'f get_task \<times> net"

text \<open>The head of the second loop; its \<open>finished\<close> flag is the return below.\<close>

definition get_loop :: "'f getter \<Rightarrow> u32 \<Rightarrow> net \<Rightarrow> ('f get_state, u64) progress" where
  "get_loop s attempt n = Running (GetData s attempt, arm (ng_timeout (gt_neg s)) n)"

definition get_ack ::
  "u16 \<Rightarrow> u32 \<Rightarrow> net \<Rightarrow> 'f getter \<Rightarrow> 'f getter \<Rightarrow> ('f get_state, u64) progress" where
  "get_ack block attempt n s after =
     (case send_ack (gt_peer s) block n of
        (Inl e, n') \<Rightarrow> Done (Inl e) (GetData s attempt, n')
      | (Inr _, n') \<Rightarrow> get_loop after attempt n')"

text \<open>The last block: ACK it, finish the destination, return the bytes written.\<close>

definition get_final ::
  "'f writer \<Rightarrow> 'f flusher \<Rightarrow> u16 \<Rightarrow> 'f getter \<Rightarrow> net \<Rightarrow> ('f get_state, u64) progress" where
  "get_final wr fl block s n =
     (case send_ack (gt_peer s) block n of
        (Inl e, n') \<Rightarrow> Done (Inl e) (GetData s 0, n')
      | (Inr _, n') \<Rightarrow>
          (case receiver_finish wr fl (gt_writer s) of
             (Inl e, w) \<Rightarrow> Done (Inl e) (GetData (s\<lparr>gt_writer := w\<rparr>) 0, n')
           | (Inr _, w) \<Rightarrow> Done (Inr (rc_bytes w)) (GetData (s\<lparr>gt_writer := w\<rparr>) 0, n')))"

definition get_in_order ::
  "'f writer \<Rightarrow> 'f flusher \<Rightarrow> 'f getter \<Rightarrow> u16 \<Rightarrow> bytes \<Rightarrow> net \<Rightarrow> ('f get_state, u64) progress" where
  "get_in_order wr fl s block data n =
     (let is_final = length data < unat (ng_blksize (gt_neg s)) in
      case receiver_write_block wr (gt_writer s) data of
        (Inl e, w) \<Rightarrow> Done (Inl e) (GetData (s\<lparr>gt_writer := w\<rparr>) 0, n)
      | (Inr _, w) \<Rightarrow>
          let s1 = s\<lparr>gt_writer := w, gt_last_acked := block, gt_next_block := gt_next_block s + 1,
                     gt_blocks_in_window := gt_blocks_in_window s + 1\<rparr> in
          if is_final then get_final wr fl block s1 n
          else if ng_windowsize (gt_neg s1) \<le> gt_blocks_in_window s1 then
            get_ack block 0 n s1 (s1\<lparr>gt_blocks_in_window := 0\<rparr>)
          else get_loop s1 0 n)"

definition get_data_event ::
  "'f writer \<Rightarrow> 'f flusher \<Rightarrow> rx \<Rightarrow> 'f getter \<Rightarrow> u32 \<Rightarrow> net \<Rightarrow> ('f get_state, u64) progress" where
  "get_data_event wr fl ev s attempt n =
     (case client_recv_one (gt_peer s) ev n of
        (Failed e, n') \<Rightarrow> Done (Inl e) (GetData s attempt, n')
      | (Stray, n') \<Rightarrow> Running (GetData s attempt, n')
      | (Elapsed, n') \<Rightarrow>
          if op_retries (gt_opts s) \<le> attempt then
            Done (Inl (TimedOut attempt)) (GetData s attempt, n')
          else get_ack (gt_last_acked s) (attempt + 1) n' s s
      | (Packet_From_Peer d, n') \<Rightarrow>
          (case decode d of
             Inr (Data block data) \<Rightarrow>
               if block = gt_next_block s then get_in_order wr fl s block data n'
               else get_ack (gt_last_acked s) 0 n' s (s\<lparr>gt_blocks_in_window := 0\<rparr>)
           | Inr (ErrorPkt code msg) \<Rightarrow> Done (Inl (Peer code msg)) (GetData s attempt, n')
           | _ \<Rightarrow> get_loop s attempt n'))"

text \<open>
  Phase 1: attempts \<open>0..=retries\<close>, each one send and one receive. The next attempt after
  the last one is the loop's end without a peer.
\<close>

definition get_send_request :: "'f getter \<Rightarrow> u32 \<Rightarrow> net \<Rightarrow> ('f get_state, u64) progress" where
  "get_send_request s attempt n =
     (case send_to (gt_server s) (gt_request s) n of
        (Inl e, n') \<Rightarrow> Done (Inl e) (GetRequest s attempt, n')
      | (Inr _, n') \<Rightarrow> Running (GetRequest s attempt, arm (op_timeout (gt_opts s)) n'))"

definition get_retry :: "'f getter \<Rightarrow> u32 \<Rightarrow> net \<Rightarrow> ('f get_state, u64) progress" where
  "get_retry s attempt n =
     (if attempt = op_retries (gt_opts s) then
        Done (Inl (TimedOut (op_retries (gt_opts s)))) (GetRequest s attempt, n)
      else get_send_request s (attempt + 1) n)"

text \<open>The first DATA packet, when the server accepted no option.\<close>

definition get_first_data ::
  "'f writer \<Rightarrow> 'f flusher \<Rightarrow> 'f getter \<Rightarrow> u16 \<Rightarrow> bytes \<Rightarrow> net \<Rightarrow> ('f get_state, u64) progress" where
  "get_first_data wr fl s block data n =
     (if block = 1 then
        (let is_final = length data < unat (ng_blksize (gt_neg s)) in
         case receiver_write_block wr (gt_writer s) data of
           (Inl e, w) \<Rightarrow> Done (Inl e) (GetData (s\<lparr>gt_writer := w\<rparr>) 0, n)
         | (Inr _, w) \<Rightarrow>
             let s1 = s\<lparr>gt_writer := w, gt_last_acked := 1, gt_next_block := 2,
                        gt_blocks_in_window := 1\<rparr> in
             if is_final then get_final wr fl 1 s1 n
             else if ng_windowsize (gt_neg s1) \<le> gt_blocks_in_window s1 then
               get_ack 1 0 n s1 (s1\<lparr>gt_blocks_in_window := 0\<rparr>)
             else get_loop s1 0 n)
      else Done (Inl UnexpectedPacket) (GetData s 0, n))"

definition get_request_event ::
  "'f writer \<Rightarrow> 'f flusher \<Rightarrow> rx \<Rightarrow> 'f getter \<Rightarrow> u32 \<Rightarrow> net \<Rightarrow> ('f get_state, u64) progress" where
  "get_request_event wr fl ev s attempt n =
     (case ev of
        RxTimeout \<Rightarrow>
          if attempt = op_retries (gt_opts s) then
            Done (Inl (TimedOut attempt)) (GetRequest s attempt, n)
          else get_retry s attempt n
      | RxError e \<Rightarrow> Done (Inl (Io e)) (GetRequest s attempt, n)
      | RxFrom src d \<Rightarrow>
          (case decode (rx_buffer d) of
             Inl e \<Rightarrow> Done (Inl e) (GetRequest s attempt, n)
           | Inr (Oack options) \<Rightarrow>
               if gt_want_oack s then
                 (let s1 = s\<lparr>gt_peer := src, gt_neg := merge_oack (gt_neg s) options\<rparr> in
                  get_ack 0 0 n s1 s1)
               else get_retry s attempt n
           | Inr (Data block data) \<Rightarrow> get_first_data wr fl (s\<lparr>gt_peer := src\<rparr>) block data n
           | Inr (ErrorPkt code msg) \<Rightarrow> Done (Inl (Peer code msg)) (GetRequest s attempt, n)
           | Inr _ \<Rightarrow> get_retry s attempt n))"

fun get_event ::
  "'f writer \<Rightarrow> 'f flusher \<Rightarrow> rx \<Rightarrow> 'f get_state \<Rightarrow> ('f get_state, u64) progress" where
  "get_event wr fl ev (GetRequest s attempt, n) = get_request_event wr fl ev s attempt n"
| "get_event wr fl ev (GetData s attempt, n) = get_data_event wr fl ev s attempt n"
| "get_event wr fl ev (GetClosed, n) = Running (GetClosed, n)"

subsection \<open>Starting the task\<close>

definition getter_new :: "client_options \<Rightarrow> sockaddr \<Rightarrow> str \<Rightarrow> 'f receiver \<Rightarrow> 'f getter" where
  "getter_new opts server remote writer =
     (let request_options = build_request_options opts None in
      \<lparr>gt_opts = opts, gt_server = server,
       gt_request = encode (Rrq remote (op_mode opts) request_options),
       gt_want_oack = (\<not> option_set_is_empty request_options), gt_writer = writer,
       gt_neg = client_negotiated_defaults, gt_peer = server, gt_next_block = 1,
       gt_blocks_in_window = 0, gt_last_acked = 0\<rparr>)"

definition do_get ::
  "(sockaddr \<Rightarrow> io_error + unit) \<Rightarrow> client_options \<Rightarrow> sockaddr \<Rightarrow> str \<Rightarrow> 'f receiver \<Rightarrow> net \<Rightarrow>
   ('f get_state, u64) progress" where
  "do_get bnd opts server remote writer n =
     (case bind_local bnd server of
        Inl e \<Rightarrow> Done (Inl e) (GetClosed, n)
      | Inr _ \<Rightarrow> get_send_request (getter_new opts server remote writer) 0 n)"

lemma do_get_unfold:
  "do_get bnd opts server remote writer n =
     (case bnd (bind_addr_for server) of
        Inl e \<Rightarrow> Done (Inl (Io e)) (GetClosed, n)
      | Inr _ \<Rightarrow> get_send_request (getter_new opts server remote writer) 0 n)"
  by (simp add: do_get_def bind_local_eq split: sum.split)

text \<open>The first DATA packet is handled like any other block in order.\<close>

lemma get_first_data_eq:
  "gt_next_block s = 1 \<Longrightarrow> gt_blocks_in_window s = 0 \<Longrightarrow>
   get_first_data wr fl s 1 data n = get_in_order wr fl s 1 data n"
  by (simp add: get_first_data_def get_in_order_def Let_def split: prod.splits sum.splits)

subsection \<open>Retransmission\<close>

interpretation get_retry: retrying "get_event wr fl" "\<lambda>a n. (GetData s a, n)" "\<lambda>n. faults n = []"
  "op_retries (gt_opts s)" for wr fl s
  by unfold_locales
    (auto simp: get_data_event_def recv_one_def get_ack_def send_ack_def get_loop_def)

interpretation get_request_retry: retrying "get_event wr fl" "\<lambda>a n. (GetRequest s a, n)"
  "\<lambda>n. faults n = []" "op_retries (gt_opts s)" for wr fl s
  by unfold_locales
    (auto simp: get_request_event_def get_retry_def get_send_request_def)

subsection \<open>The destination keeps the sink contract\<close>

fun sink_contents :: "('f \<Rightarrow> bytes) \<Rightarrow> 'f sink \<Rightarrow> bytes" where
  "sink_contents c (SinkFile f) = c f"
| "sink_contents c (SinkVec v) = v"

context byte_sink begin

lemma sink_byte_sink: "byte_sink (sink_write wr) (sink_flush fl) (sink_contents contents)"
proof unfold_locales
  fix k :: "'f sink" and bs u k'
  show "sink_write wr k bs = (Inr u, k') \<Longrightarrow> sink_contents contents k' = sink_contents contents k @ bs"
    using wr_bytes by (cases k) (auto split: prod.splits)
  show "sink_flush fl k = (Inr u, k') \<Longrightarrow> sink_contents contents k' = sink_contents contents k"
    using fl_bytes by (cases k) (auto split: prod.splits)
qed

lemmas snk_wr = byte_sink.wr_bytes [OF sink_byte_sink]
lemmas snk_fl = byte_sink.fl_bytes [OF sink_byte_sink]

end

text \<open>A vector as a file: the contract holds of the code's \<open>Sink::Vec\<close>.\<close>

definition vec_write :: "bytes writer" where
  "vec_write v buf = (Inr (), v @ buf)"

definition vec_flush :: "bytes flusher" where
  "vec_flush v = (Inr (), v)"

interpretation vec: byte_sink vec_write vec_flush "\<lambda>v. v"
  by unfold_locales (simp_all add: vec_write_def vec_flush_def)

subsection \<open>The receiver's side of the transfer contract\<close>

definition get_sends :: "nat \<Rightarrow> sockaddr \<Rightarrow> net \<Rightarrow> net \<Rightarrow> bool" where
  "get_sends M peer = sends_only (\<lambda>x. fst x = peer \<longrightarrow> genuine_ack M (snd x))"

lemma get_sends_trans [trans]:
  "get_sends M p n n' \<Longrightarrow> get_sends M p n' n'' \<Longrightarrow> get_sends M p n n''"
  unfolding get_sends_def by (rule sends_only_trans)

lemma get_sends_refl [simp]: "get_sends M p n n"
  by (simp add: get_sends_def)

lemma get_sends_arm [simp]: "get_sends M p n (arm d n') = get_sends M p n n'"
  by (simp add: get_sends_def)

lemma get_recv_sends: "recv_one peer ev n = (r, n') \<Longrightarrow> get_sends M peer n n'"
  unfolding get_sends_def by (rule recv_one_sends) auto

lemma get_sends_ack: "j < M \<Longrightarrow> send_ack q (of_nat j) n = (r, n') \<Longrightarrow> get_sends M peer n n'"
  using sends_only_send_ack [of "\<lambda>x. fst x = peer \<longrightarrow> genuine_ack M (snd x)" q "of_nat j" n]
    genuine_ack_ack [of j M]
  by (auto simp: get_sends_def)

text \<open>The events a download may see besides what the other side sent.\<close>

fun get_env :: "sockaddr \<Rightarrow> 'f get_state \<Rightarrow> rx \<Rightarrow> bool" where
  "get_env peer (GetData _ _, _) ev \<longleftrightarrow> not_from peer ev"
| "get_env peer _ ev \<longleftrightarrow> quiet ev"

text \<open>A client that waits for the first block in the data phase has acknowledged the OACK.\<close>

definition ready_acked :: "sockaddr \<Rightarrow> nat \<Rightarrow> net \<Rightarrow> bool" where
  "ready_acked peer m n \<longleftrightarrow> m = 0 \<longrightarrow> (peer, encode (Ack 0)) \<in> set (outbox n)"

lemma ready_acked_arm [simp]: "ready_acked peer m (arm d n) = ready_acked peer m n"
  by (simp add: ready_acked_def arm_def)

context byte_sink begin

text \<open>The first \<open>m\<close> blocks of \<open>B\<close> have been accepted and written to \<open>w\<close>.\<close>

definition writer_at :: "mode \<Rightarrow> bytes list \<Rightarrow> nat \<Rightarrow> 'f receiver \<Rightarrow> bool" where
  "writer_at md B m w \<longleftrightarrow> sink_at md B m (rc_decoder w) (sink_contents contents (rc_sink w))
     \<and> rc_bytes w = of_nat (length (sink_contents contents (rc_sink w)))"

definition get_rel ::
  "mode \<Rightarrow> bytes list \<Rightarrow> sockaddr \<Rightarrow> negotiated \<Rightarrow> nat \<Rightarrow> 'f getter \<Rightarrow> bool" where
  "get_rel md B peer neg m s \<longleftrightarrow>
     gt_peer s = peer \<and> gt_neg s = neg \<and> m < length B
     \<and> gt_next_block s = of_nat (m + 1) \<and> gt_last_acked s = of_nat m \<and> writer_at md B m (gt_writer s)"

text \<open>
  The invariant of a waiting task: before the handshake (\<open>M\<close> is 0, or 1 when the server
  accepted no option) nothing is written and the parameters are the defaults.
\<close>

definition get_srel ::
  "mode \<Rightarrow> bytes list \<Rightarrow> option_set \<Rightarrow> sockaddr \<Rightarrow> negotiated \<Rightarrow> nat \<Rightarrow> 'f get_state \<Rightarrow> bool" where
  "get_srel md B oack peer neg M st \<longleftrightarrow>
     (case fst st of
        GetRequest s _ \<Rightarrow> M = (if option_set_is_empty oack then 1 else 0) \<and> B \<noteq> []
          \<and> gt_neg s = negotiated_defaults \<and> gt_next_block s = 1 \<and> gt_last_acked s = 0
          \<and> gt_blocks_in_window s = 0 \<and> writer_at md B 0 (gt_writer s) \<and> genuine_ack 0 (gt_request s)
          \<and> (gt_want_oack s \<or> option_set_is_empty oack)
      | GetData s _ \<Rightarrow> (\<exists>m. M = m + 1 \<and> get_rel md B peer neg m s \<and> ready_acked peer m (snd st))
      | GetClosed \<Rightarrow> False)"

definition get_result :: "bytes \<Rightarrow> u64 \<Rightarrow> 'f get_state \<Rightarrow> bool" where
  "get_result src written st \<longleftrightarrow>
     (case fst st of
        GetData s _ \<Rightarrow> sink_contents contents (rc_sink (gt_writer s)) = src
          \<and> written = of_nat (length src)
      | _ \<Rightarrow> False)"

definition get_post ::
  "mode \<Rightarrow> bytes list \<Rightarrow> bytes \<Rightarrow> option_set \<Rightarrow> sockaddr \<Rightarrow> negotiated \<Rightarrow> nat \<Rightarrow> net \<Rightarrow>
   ('f get_state, u64) progress \<Rightarrow> bool" where
  "get_post md B src oack peer neg M n p \<longleftrightarrow>
     (\<forall>st. p = Running st \<longrightarrow> get_srel md B oack peer neg M st) \<and> (\<forall>st. p \<noteq> Panicked st)
     \<and> (\<forall>r st. p = Done (Inr r) st \<longrightarrow> M = length B + 1 \<and> get_result src r st
          \<and> (peer, encode (Ack (of_nat (length B)))) \<in> set (outbox (snd st)))
     \<and> get_sends M peer n (snd (state_of p))"

lemma get_post_trans:
  "get_sends M peer n n' \<Longrightarrow> get_post md B src oack peer neg M n' p \<Longrightarrow>
   get_post md B src oack peer neg M n p"
  unfolding get_post_def using get_sends_trans by blast

lemma get_post_failed:
  "get_sends M peer n (snd st) \<Longrightarrow> get_post md B src oack peer neg M n (Done (Inl e) st)"
  by (simp add: get_post_def)

lemma get_loop_post:
  "get_rel md B peer neg m s \<Longrightarrow> ready_acked peer m n \<Longrightarrow>
   get_post md B src oack peer neg (m + 1) n (get_loop s a n)"
  by (auto simp: get_loop_def get_post_def get_srel_def)

lemma get_ack_post:
  assumes "get_rel md B peer neg m after" "j \<le> m" "gt_peer s = peer"
  shows "get_post md B src oack peer neg (m + 1) n (get_ack (of_nat j) a n s after)"
proof -
  obtain r n' where k: "send_ack (gt_peer s) (of_nat j) n = (r, n')" by fastforce
  have snt: "get_sends (m + 1) peer n n'" using assms(2) by (intro get_sends_ack [OF _ k]) auto
  have "ready_acked peer m n'" if "r = Inr u" for u
    using that k send_to_sent [of peer _ n r n' u] assms(2,3) by (auto simp: ready_acked_def send_ack_def)
  with k snt get_post_trans [OF snt get_loop_post [OF assms(1)]] show ?thesis
    by (cases r) (simp_all add: get_ack_def get_post_failed)
qed

lemma write_raw_ok:
  assumes "write_raw wr w buf = (Inr u, w')"
  shows "\<exists>k. sink_contents contents k = sink_contents contents (rc_sink w) @ buf
    \<and> w' = w\<lparr>rc_sink := k, rc_bytes := rc_bytes w + of_nat (length buf)\<rparr>"
  using assms snk_wr [of "rc_sink w" buf]
  by (auto simp: write_raw_def split: prod.splits sum.splits)

lemma writer_at_Suc:
  assumes "writer_at md B m w" "m < length B" "receiver_write_block wr w (B ! m) = (Inr u, w')"
  shows "writer_at md B (m + 1) w'"
proof -
  obtain dec out where d: "decode_chunk (rc_decoder w) (B ! m) = (dec, out)" by fastforce
  with assms(3) have "write_raw wr (w\<lparr>rc_decoder := dec\<rparr>) out = (Inr u, w')"
    by (simp add: receiver_write_block_def)
  from write_raw_ok [OF this] obtain k where
    k: "sink_contents contents k = sink_contents contents (rc_sink w) @ out"
    "rc_decoder w' = dec" "rc_sink w' = k" "rc_bytes w' = rc_bytes w + of_nat (length out)"
    by auto
  with sink_at_Suc [OF _ assms(2) d] assms(1) show ?thesis
    by (simp add: writer_at_def)
qed

lemma get_final_post:
  assumes "carries md (unat (ng_blksize neg)) B src" "writer_at md B (length B) (gt_writer s)"
    and "length B = m + 1" "gt_peer s = peer"
  shows "get_post md B src oack peer neg (m + 2) n (get_final wr fl (of_nat (m + 1)) s n)"
proof -
  obtain r n' where k: "send_ack (gt_peer s) (of_nat (m + 1)) n = (r, n')" by fastforce
  have snt: "get_sends (m + 2) peer n n'" by (rule get_sends_ack [OF _ k]) simp
  have full: "rc_decoder (gt_writer s) = decoder_for md"
    "sink_contents contents (rc_sink (gt_writer s)) = src"
    using assms(2) sink_at_complete [OF assms(1)] by (auto simp: writer_at_def)
  obtain q fs where f: "sink_flush fl (rc_sink (gt_writer s)) = (q, fs)" by fastforce
  have fin: "receiver_finish wr fl (gt_writer s) =
      (case q of Inl e \<Rightarrow> (Inl (Io e), (gt_writer s)\<lparr>rc_sink := fs\<rparr>)
       | Inr _ \<Rightarrow> (Inr (), (gt_writer s)\<lparr>rc_sink := fs\<rparr>))"
  proof -
    have "(gt_writer s)\<lparr>rc_decoder := decoder_for md\<rparr> = gt_writer s"
      using full(1) by (simp flip: full(1))
    moreover have "decode_tail (rc_decoder (gt_writer s)) = (decoder_for md, [])"
      using full(1) decode_tail_new [of md] by metis
    ultimately show ?thesis
      using f by (simp add: receiver_finish_def Let_def)
  qed
  show ?thesis
  proof (cases r)
    case (Inl e)
    with k snt show ?thesis by (simp add: get_final_def get_post_failed)
  next
    case (Inr u)
    show ?thesis
    proof (cases q)
      case (Inl e)
      with Inr k snt fin show ?thesis by (simp add: get_final_def get_post_failed)
    next
      case q: (Inr v)
      with snk_fl f full(2) have "sink_contents contents fs = src" by metis
      moreover have "(peer, encode (Ack (of_nat (m + 1)))) \<in> set (outbox n')"
        using send_to_sent [OF k [unfolded send_ack_def] Inr] assms(4) by simp
      ultimately show ?thesis
        using q Inr k snt fin assms full by (simp add: get_final_def get_post_def get_result_def writer_at_def)
    qed
  qed
qed

lemma get_in_order_post:
  assumes rel: "get_rel md B peer neg m s"
    and car: "carries md (unat (ng_blksize neg)) B src"
  shows "\<exists>M \<ge> m + 1. M \<le> m + 2 \<and> get_post md B src oack peer neg M n (get_in_order wr fl s (of_nat (m + 1)) (B ! m) n)"
proof -
  let ?p = "get_in_order wr fl s (of_nat (m + 1)) (B ! m) n"
  have lt: "m < length B" and neg: "gt_neg s = neg" using rel by (simp_all add: get_rel_def)
  note last = carries_last [OF car lt]
  obtain r w where w: "receiver_write_block wr (gt_writer s) (B ! m) = (r, w)" by fastforce
  show ?thesis
  proof (cases r)
    case (Inl e)
    with w have "get_post md B src oack peer neg (m + 1) n ?p"
      by (simp add: get_in_order_def Let_def get_post_failed)
    then show ?thesis by (intro exI [of _ "m + 1"]) simp
  next
    case (Inr u)
    let ?s = "s\<lparr>gt_writer := w, gt_last_acked := of_nat (m + 1), gt_next_block := gt_next_block s + 1,
      gt_blocks_in_window := gt_blocks_in_window s + 1\<rparr>"
    have at: "writer_at md B (m + 1) w"
      using writer_at_Suc [OF _ lt w [unfolded Inr]] rel by (simp add: get_rel_def)
    have "get_post md B src oack peer neg (m + 2) n ?p"
    proof (cases "length (B ! m) < unat (ng_blksize neg)")
      case True
      then have all: "length B = m + 1" using last by simp
      with at have "writer_at md B (length B) (gt_writer ?s)" by simp
      from get_final_post [OF car this all, of peer oack n] w Inr True neg rel show ?thesis
        by (simp add: get_in_order_def Let_def get_rel_def)
    next
      case False
      have "get_rel md B peer neg (m + 1) (?s\<lparr>gt_blocks_in_window := b\<rparr>)" for b
        using rel at last False lt by (auto simp: get_rel_def add_ac)
      from get_ack_post [OF this order_refl, of ?s src oack n 0 0] this
        get_loop_post [of md B peer neg "m + 1" ?s n src oack 0]
      show ?thesis
        using w Inr False neg rel at last lt by (auto simp: get_in_order_def Let_def get_rel_def ready_acked_def add_ac)
    qed
    then show ?thesis by (intro exI [of _ "m + 2"]) simp
  qed
qed

lemma get_data_event_post:
  assumes rel: "get_rel md B peer neg m s" and car: "carries md (unat (ng_blksize neg)) B src"
    and acked: "ready_acked peer m n" and "length B < 65536" "\<forall>d. ev = RxFrom peer d \<longrightarrow> genuine_data B hi d"
    and "m + 1 \<le> hi"
  shows "\<exists>M \<ge> m + 1. M \<le> hi \<and> get_post md B src oack peer neg M n (get_data_event wr fl ev s a n)"
proof -
  have s: "gt_peer s = peer" "gt_last_acked s = of_nat m" "m < length B"
    "gt_next_block s = of_nat (m + 1)"
    using rel by (simp_all add: get_rel_def)
  obtain r n' where rx: "recv_one peer ev n = (r, n')" by fastforce
  note snt = get_recv_sends [OF rx, of "m + 1"]
  have acked': "ready_acked peer m n'"
    using acked sends_only_keeps [OF snt [unfolded get_sends_def]] by (auto simp: ready_acked_def)
  let ?post = "get_post md B src oack peer neg (m + 1) n"
  have failed: "?post (Done (Inl e) (t, n'))" for e t
    using snt by (simp add: get_post_failed)
  have loop: "?post (get_loop s a' n')" for a'
    using get_post_trans [OF snt get_loop_post [OF rel acked']] .
  have ack: "?post (get_ack (of_nat m) a' n' s s)" for a'
    using get_post_trans [OF snt get_ack_post [OF rel order_refl s(1)]] .
  have "get_rel md B peer neg m (s\<lparr>gt_blocks_in_window := 0\<rparr>)"
    using rel by (simp add: get_rel_def)
  from get_ack_post [OF this order_refl s(1)]
  have again: "?post (get_ack (of_nat m) 0 n' s (s\<lparr>gt_blocks_in_window := 0\<rparr>))"
    using get_post_trans [OF snt] by blast
  show ?thesis
  proof (cases r)
    case (Packet_From_Peer d)
    then obtain d' where d: "ev = RxFrom peer d'" "d = rx_buffer d'"
      using rx by (auto simp: recv_one_def split: rx.splits if_splits)
    show ?thesis
    proof (cases "\<exists>x. decode d = Inr (Data (gt_next_block s) x)")
      case True
      then obtain x where x: "decode d = Inr (Data (gt_next_block s) x)" by blast
      with assms(5) d obtain k where k: "1 \<le> k" "k < hi" "k \<le> length B" "gt_next_block s = of_nat k" "x = B ! (k - 1)"
        unfolding genuine_data_def by blast
      have "k = m + 1"
        using k s assms(4) of_nat_u16_eq_iff [of k "m + 1"] by simp
      with x k s(4) have x': "decode d = Inr (Data (of_nat (m + 1)) (B ! m))" by simp
      obtain M where M: "m + 1 \<le> M" "M \<le> m + 2"
        "get_post md B src oack peer neg M n' (get_in_order wr fl s (of_nat (m + 1)) (B ! m) n')"
        using get_in_order_post [OF rel car] by blast
      have "get_post md B src oack peer neg M n (get_in_order wr fl s (of_nat (m + 1)) (B ! m) n')"
        by (rule get_post_trans [OF get_recv_sends [OF rx] M(3)])
      with M(1,2) k(2) \<open>k = m + 1\<close> s rx Packet_From_Peer x' show ?thesis
        by (intro exI [of _ M]) (simp add: get_data_event_def)
    next
      case False
      then have "?post (get_data_event wr fl ev s a n)"
        using rx Packet_From_Peer s failed loop [of a] again
        by (auto simp: get_data_event_def split: sum.splits packet.splits)
      then show ?thesis using assms(6) by blast
    qed
  next
    case Elapsed
    with rx s failed ack [of "a + 1"] have "?post (get_data_event wr fl ev s a n)"
      by (simp add: get_data_event_def)
    then show ?thesis using assms(6) by blast
  next
    case (Failed e)
    with rx s failed have "?post (get_data_event wr fl ev s a n)" by (simp add: get_data_event_def)
    then show ?thesis using assms(6) by blast
  next
    case Stray
    have "get_srel md B oack peer neg (m + 1) (GetData s a, n')" using rel acked' by (auto simp: get_srel_def)
    with Stray rx s snt have "?post (get_data_event wr fl ev s a n)"
      by (simp add: get_data_event_def get_post_def)
    then show ?thesis using assms(6) by blast
  qed
qed

lemma get_retry_post:
  assumes "get_srel md B oack peer neg M (GetRequest s a, n)"
  shows "get_post md B src oack peer neg M n (get_retry s a n)"
proof -
  obtain r n' where k: "send_to (gt_server s) (gt_request s) n = (r, n')" by fastforce
  have "genuine_ack M (gt_request s)"
    using assms genuine_ack_mono [of 0 "gt_request s" M] by (simp add: get_srel_def)
  then have "get_sends M peer n n'"
    using sends_only_send [of "\<lambda>x. fst x = peer \<longrightarrow> genuine_ack M (snd x)" "gt_server s" "gt_request s" n] k
    by (simp add: get_sends_def)
  with assms k show ?thesis
    by (cases r) (auto simp: get_retry_def get_send_request_def get_post_def get_srel_def split: if_splits)
qed

lemma get_request_event_post:
  assumes rel: "get_srel md B oack peer neg M (GetRequest s a, n)"
    and car: "carries md (unat (ng_blksize neg)) B src" "length B < 65536"
    and neg: "merge_oack negotiated_defaults oack = neg"
    and ev: "quiet ev \<or> (\<exists>d. ev = RxFrom peer d \<and> sender_promise B oack hi d)"
    and hi: "M \<le> hi" "M = 0 \<longrightarrow> hi = 1"
  shows "\<exists>M' \<ge> M. M' \<le> hi \<and> get_post md B src oack peer neg M' n (get_request_event wr fl ev s a n)"
proof -
  have s: "gt_neg s = negotiated_defaults" "gt_next_block s = 1" "gt_last_acked s = 0"
    "gt_blocks_in_window s = 0" "writer_at md B 0 (gt_writer s)" "B \<noteq> []"
    "M = (if option_set_is_empty oack then 1 else 0)"
    using rel by (simp_all add: get_srel_def)
  note retry = get_retry_post [OF rel, of src]
  have failed: "get_post md B src oack peer neg M n (Done (Inl e) (t, n))" for e t
    by (simp add: get_post_failed)
  have rel0: "get_rel md B peer neg 0 (s\<lparr>gt_peer := peer, gt_neg := neg\<rparr>)"
    using s by (simp add: get_rel_def)
  show ?thesis
  proof (cases "\<exists>d p. ev = RxFrom peer d \<and> decode (rx_buffer d) = Inr p \<and> (\<exists>o'. p = Oack o' \<or> (\<exists>b x. p = Data b x))")
    case False
    then have "get_post md B src oack peer neg M n (get_request_event wr fl ev s a n)"
      using ev retry failed
      by (auto simp: get_request_event_def split: rx.splits sum.splits packet.splits)
    then show ?thesis using hi(1) by blast
  next
    case True
    then obtain d p where d: "ev = RxFrom peer d" "decode (rx_buffer d) = Inr p"
      and p: "(\<exists>o'. p = Oack o') \<or> (\<exists>b x. p = Data b x)"
      by blast
    with ev have G: "sender_promise B oack hi d" by auto
    from p show ?thesis
    proof (elim disjE exE)
      fix o'
      assume o': "p = Oack o'"
      with G d have o: "o' = oack" "\<not> option_set_is_empty oack"
        by (auto simp: sender_promise_def genuine_oack_def)
      have "get_post md B src oack peer neg 1 n
          (get_ack 0 0 n (s\<lparr>gt_peer := peer, gt_neg := neg\<rparr>) (s\<lparr>gt_peer := peer, gt_neg := neg\<rparr>))"
        using get_ack_post [OF rel0, of 0 "s\<lparr>gt_peer := peer, gt_neg := neg\<rparr>" src oack n 0] by simp
      with retry have "get_post md B src oack peer neg (if gt_want_oack s then 1 else M) n
          (get_request_event wr fl ev s a n)"
        using d o' o s neg by (simp add: get_request_event_def Let_def)
      moreover have "M \<le> (if gt_want_oack s then 1 else M)" "(if gt_want_oack s then 1 else M) \<le> hi"
        using s(7) hi by (auto split: if_splits)
      ultimately show ?thesis by blast
    next
      fix b x
      assume bx: "p = Data b x"
      with G d have g: "genuine_data B hi d" by (simp add: sender_promise_def)
      with d bx obtain k where k: "1 \<le> k" "k < hi" "k \<le> length B" "b = of_nat k" "x = B ! (k - 1)"
        unfolding genuine_data_def by blast
      with s(7) hi have e: "option_set_is_empty oack" "M = 1" by (auto split: if_splits)
      have "neg = negotiated_defaults"
        using e(1) neg by (simp add: option_set_is_empty_def merge_oack_def block_size_def
            timeout_opt_def window_size_def)
      with s rel0 have r: "get_rel md B peer neg 0 (s\<lparr>gt_peer := peer\<rparr>)"
        by (simp add: get_rel_def)
      show ?thesis
      proof (cases "b = 1")
        case False
        with d bx failed hi(1) show ?thesis
          by (auto simp: get_request_event_def get_first_data_def)
      next
        case True
        then have "k = 1" using k of_nat_u16_eq_iff [of k 1] car(2) by simp
        with k have x: "x = B ! 0" "2 \<le> hi" by simp_all
        obtain M' where "1 \<le> M'" "M' \<le> 2" "get_post md B src oack peer neg M' n
            (get_in_order wr fl (s\<lparr>gt_peer := peer\<rparr>) 1 (B ! 0) n)"
          using get_in_order_post [OF r car(1), of oack n] by (auto simp: numeral_2_eq_2)
        with x True d bx s e show ?thesis
          by (intro exI [of _ M']) (simp add: get_request_event_def get_first_data_eq)
      qed
    qed
  qed
qed

lemma get_event_post:
  assumes "get_srel md B oack peer neg M st" "carries md (unat (ng_blksize neg)) B src" "length B < 65536"
    and "merge_oack negotiated_defaults oack = neg"
    and "get_env peer st ev \<or> (\<exists>d. ev = RxFrom peer d \<and> sender_promise B oack hi d)"
    and "M \<le> hi" "M = 0 \<longrightarrow> hi = 1"
  shows "\<exists>M' \<ge> M. M' \<le> hi \<and> get_post md B src oack peer neg M' (snd st) (get_event wr fl ev st)"
proof -
  obtain task n where st: "st = (task, n)" by fastforce
  show ?thesis
  proof (cases task)
    case (GetRequest s a)
    with assms st get_request_event_post [of md B oack peer neg M s a n src ev hi] show ?thesis by simp
  next
    case (GetData s a)
    with assms(1) st obtain m where m: "M = m + 1" "get_rel md B peer neg m s" "ready_acked peer m n"
      by (auto simp: get_srel_def)
    have "\<forall>d. ev = RxFrom peer d \<longrightarrow> genuine_data B hi d"
      using assms(5) st GetData by (auto simp: not_from_iff sender_promise_def)
    with get_data_event_post [OF m(2) assms(2) m(3) assms(3)] assms(6) m(1) st GetData show ?thesis by simp
  next
    case GetClosed
    with assms(1) st show ?thesis by (simp add: get_srel_def)
  qed
qed

lemma getter_new_srel:
  assumes "writer_at md B 0 w" "B \<noteq> []"
    and "option_set_is_empty (build_request_options opts None) \<Longrightarrow> option_set_is_empty oack"
  shows "get_srel md B oack peer neg (if option_set_is_empty oack then 1 else 0)
    (GetRequest (getter_new opts server remote w) a, n)"
  using assms genuine_ack_packet [of "Rrq remote (op_mode opts) (build_request_options opts None)" 0]
  by (auto simp: get_srel_def getter_new_def Let_def)

lemma receiver_new_at: "sink_contents contents k = [] \<Longrightarrow> writer_at md B 0 (receiver_new k md)"
  by (simp add: writer_at_def receiver_new_def)

end

subsection \<open>Parameters and window counter, whatever the network delivers\<close>

definition get_valid :: "'f get_state \<Rightarrow> bool" where
  "get_valid st \<longleftrightarrow>
     (case fst st of
        GetRequest s _ \<Rightarrow> gt_neg s = negotiated_defaults \<and> gt_blocks_in_window s = 0 \<and> gt_next_block s = 1
      | GetData s _ \<Rightarrow> negotiated_ok (gt_neg s) \<and> gt_blocks_in_window s < ng_windowsize (gt_neg s)
      | GetClosed \<Rightarrow> True)"

lemma get_ack_valid:
  "get_ack b a n s after = Running st \<Longrightarrow> negotiated_ok (gt_neg after) \<Longrightarrow>
   gt_blocks_in_window after < ng_windowsize (gt_neg after) \<Longrightarrow> get_valid st"
  by (auto simp: get_ack_def get_loop_def get_valid_def split: prod.splits sum.splits)

lemma negotiated_window_word: "negotiated_ok n \<Longrightarrow> 0 < ng_windowsize n"
  by (simp add: negotiated_ok_def word_gt_0)

lemma get_final_not_running: "get_final wr fl b s n \<noteq> Running st"
  by (auto simp: get_final_def split: prod.splits sum.splits)

lemma get_in_order_valid:
  assumes "get_in_order wr fl s b d n = Running st" "negotiated_ok (gt_neg s)"
  shows "get_valid st"
proof -
  obtain r w where w: "receiver_write_block wr (gt_writer s) d = (r, w)" by fastforce
  with assms(1) obtain u where r: "r = Inr u" by (cases r) (auto simp: get_in_order_def Let_def)
  let ?s = "s\<lparr>gt_writer := w, gt_last_acked := b, gt_next_block := gt_next_block s + 1,
    gt_blocks_in_window := gt_blocks_in_window s + 1\<rparr>"
  show ?thesis
    using assms w r negotiated_window_word [OF assms(2)] get_final_not_running [of wr fl b ?s n st]
      get_ack_valid [of b 0 n ?s "?s\<lparr>gt_blocks_in_window := 0\<rparr>" st]
    by (auto simp: get_in_order_def Let_def get_loop_def get_valid_def [of "(_, _)"] not_le
        split: if_splits)
qed

lemma get_data_event_valid:
  assumes "get_data_event wr fl ev s a n = Running st" "negotiated_ok (gt_neg s)"
    and c: "gt_blocks_in_window s < ng_windowsize (gt_neg s)"
  shows "get_valid st"
proof -
  have again: "get_valid st" if "get_ack b a' n' s s = Running st" for b a' n'
    using get_ack_valid [OF that assms(2) c] .
  have reset: "get_valid st" if "get_ack b a' n' s (s\<lparr>gt_blocks_in_window := 0\<rparr>) = Running st" for b a' n'
    using get_ack_valid [OF that] assms(2) negotiated_window_word [OF assms(2)] by simp
  have wait: "get_valid st" if "get_loop s a' n' = Running st" for a' n'
    using that assms(2) c by (auto simp: get_loop_def get_valid_def)
  show ?thesis
    using assms again reset wait get_in_order_valid [of wr fl s _ _ _ st]
    by (auto simp: get_data_event_def get_valid_def [of "(_, _)"]
        split: prod.splits received.splits sum.splits packet.splits if_splits)
qed

lemma get_request_event_valid:
  assumes "get_request_event wr fl ev s a n = Running st" "get_valid (GetRequest s a, n)"
  shows "get_valid st"
proof -
  have s: "gt_neg s = negotiated_defaults" "gt_blocks_in_window s = 0" "gt_next_block s = 1"
    using assms(2) by (simp_all add: get_valid_def)
  have retry: "get_valid st" if "get_retry s a n = Running st"
    using that s by (auto simp: get_retry_def get_send_request_def get_valid_def
        split: prod.splits sum.splits if_splits)
  show ?thesis
  proof (cases "\<exists>src d. ev = RxFrom src d \<and> ((\<exists>o'. decode (rx_buffer d) = Inr (Oack o'))
      \<or> (\<exists>b x. decode (rx_buffer d) = Inr (Data b x)))")
    case False
    then show ?thesis
      using assms(1) retry
      by (auto simp: get_request_event_def split: rx.splits sum.splits packet.splits if_splits)
  next
    case True
    then obtain src d where d: "ev = RxFrom src d" and
      p: "(\<exists>o'. decode (rx_buffer d) = Inr (Oack o')) \<or> (\<exists>b x. decode (rx_buffer d) = Inr (Data b x))"
      by blast
    from p show ?thesis
    proof (elim disjE exE)
      fix o'
      assume o': "decode (rx_buffer d) = Inr (Oack o')"
      then have "option_set_ok o'" using decode_packet_ok by force
      then have ok: "negotiated_ok (merge_oack negotiated_defaults o')"
        by (rule merge_oack_ok) simp
      let ?s = "s\<lparr>gt_peer := src, gt_neg := merge_oack (gt_neg s) o'\<rparr>"
      show ?thesis
      proof (cases "gt_want_oack s")
        case True
        with assms(1) d o' have "get_ack 0 0 n ?s ?s = Running st"
          by (simp add: get_request_event_def Let_def)
        from get_ack_valid [OF this] ok negotiated_window_word [OF ok] s show ?thesis by simp
      next
        case False
        with assms(1) d o' retry show ?thesis by (simp add: get_request_event_def)
      qed
    next
      fix b x
      assume b: "decode (rx_buffer d) = Inr (Data b x)"
      show ?thesis
      proof (cases "b = 1")
        case True
        with assms(1) d b s have "get_in_order wr fl (s\<lparr>gt_peer := src\<rparr>) 1 x n = Running st"
          by (simp add: get_request_event_def get_first_data_eq)
        from get_in_order_valid [OF this] s show ?thesis by simp
      next
        case False
        with assms(1) d b show ?thesis by (simp add: get_request_event_def get_first_data_def)
      qed
    qed
  qed
qed

lemma get_event_valid:
  assumes "get_valid st" "get_event wr fl ev st = Running st'"
  shows "get_valid st'"
proof (cases st)
  case (Pair task n)
  with assms get_request_event_valid [of wr fl ev _ _ n st'] get_data_event_valid [of wr fl ev _ _ n st']
  show ?thesis by (cases task) (auto simp: get_valid_def [of "(GetData _ _, _)"])
qed

lemma do_get_valid: "do_get bnd opts server remote w n = Running st \<Longrightarrow> get_valid st"
  by (auto simp: do_get_unfold get_send_request_def getter_new_def Let_def get_valid_def
      split: sum.splits prod.splits)

subsection \<open>Properties\<close>

text \<open>Whatever datagrams arrive, from whomever, a download never runs with parameters out of range:
  block size between 8 and 65464, a window of at least one block, and fewer blocks since the last ACK than
  a window. So a hostile OACK cannot stall or overflow the client.\<close>

lemma get_parameters_valid:
  assumes "drive (get_event wr fl) (do_get bnd opts server remote w n) evs = Running (GetData s a, n')"
  shows "8 \<le> ng_blksize (gt_neg s) \<and> ng_blksize (gt_neg s) \<le> 65464 \<and> 0 < ng_windowsize (gt_neg s)
    \<and> gt_blocks_in_window s < ng_windowsize (gt_neg s)
    \<and> unat (gt_blocks_in_window s + 1) = unat (gt_blocks_in_window s) + 1"
proof -
  have "get_valid (GetData s a, n')"
    using drive_running [where I = get_valid, OF do_get_valid get_event_valid assms] .
  then have "negotiated_ok (gt_neg s)" "gt_blocks_in_window s < ng_windowsize (gt_neg s)"
    by (simp_all add: get_valid_def)
  then show ?thesis
    using negotiated_window_word [of "gt_neg s"] unat_inc_no_overflow [of "gt_blocks_in_window s"]
    by (simp add: negotiated_ok_def MIN_BLOCK_SIZE_def MAX_BLOCK_SIZE_def)
qed

text \<open>A download whose server falls silent ends in either phase with \<open>Timeout\<close> after exactly
  \<open>retries + 1\<close> timeouts.\<close>

lemma get_silence_ends:
  assumes "faults n = []"
  shows "(\<exists>st. drive (get_event wr fl) (Running (GetRequest s 0, n))
       (replicate (unat (op_retries (gt_opts s)) + 1) RxTimeout) = Done (Inl (TimedOut (op_retries (gt_opts s)))) st)
    \<and> (\<exists>st. drive (get_event wr fl) (Running (GetData s 0, n))
       (replicate (unat (op_retries (gt_opts s)) + 1) RxTimeout) = Done (Inl (TimedOut (op_retries (gt_opts s)))) st)"
  using get_request_retry.silence_ends [of n 0 s wr fl] get_retry.silence_ends [of n 0 s wr fl] assms
  by simp

end
