(* ===== verification/Client_Put.thy ===== *)
theory Client_Put
  imports Client_Get Server_Rrq
begin

text \<open>
  The client as data sender (\<^verbatim>\<open>client.rs\<close>, \<open>do_put\<close>, \<open>Sender\<close>, \<open>Source\<close> and
  \<open>consume_ack\<close>). The task waits either for the answer to its request or for an ACK of the
  window in flight. The record \<open>putter\<close> holds the parameters and local variables of
  \<open>do_put\<close>. \<open>rd\<close> reads a file.
\<close>

subsection \<open>The source\<close>

datatype 'f source = SrcFile 'f | SrcSlice bytes nat

record 'f put_sender =
  sn_source :: "'f source"
  sn_encoder :: "to_wire option"
  sn_pending :: bytes
  sn_blksize :: nat
  sn_eof :: bool
  sn_final_emitted :: bool

definition put_sender_new :: "'f source \<Rightarrow> mode \<Rightarrow> 'f put_sender" where
  "put_sender_new src m =
     \<lparr>sn_source = src, sn_encoder = (if m = NetAscii then Some ToWire else None), sn_pending = [],
      sn_blksize = 0, sn_eof = False, sn_final_emitted = False\<rparr>"

definition set_blksize :: "nat \<Rightarrow> 'f put_sender \<Rightarrow> 'f put_sender" where
  "set_blksize blksize s = s\<lparr>sn_blksize := blksize\<rparr>"

text \<open>\<open>read_chunk\<close> with a chunk of length \<open>k\<close>.\<close>

fun read_chunk :: "'f reader \<Rightarrow> 'f source reader" where
  "read_chunk rd (SrcFile f) k = (case rd f k of (r, f') \<Rightarrow> (r, SrcFile f'))"
| "read_chunk rd (SrcSlice d pos) k =
     (let remaining = drop pos d; m = min (length remaining) k
      in (Inr (take m remaining), SrcSlice d (pos + m)))"

definition next_block ::
  "'f reader \<Rightarrow> 'f put_sender \<Rightarrow> (error + bytes option) \<times> 'f put_sender" where
  "next_block rd s =
     (if sn_final_emitted s then (Inr None, s)
      else (case pull_chunks (read_chunk rd) (sn_encoder s) (sn_blksize s) (sn_source s)
                   (sn_pending s) (sn_eof s) of
              (r, src, pending, eof) \<Rightarrow>
                let s1 = s\<lparr>sn_source := src, sn_pending := pending, sn_eof := eof\<rparr> in
                case r of
                  Inl e \<Rightarrow> (Inl e, s1)
                | Inr _ \<Rightarrow>
                    if pending = [] \<and> eof then (Inr (Some []), s1\<lparr>sn_final_emitted := True\<rparr>)
                    else (case cut_block (sn_blksize s) pending of
                            (block, rest) \<Rightarrow>
                              let s2 = s1\<lparr>sn_pending := rest\<rparr> in
                              (Inr (Some block),
                               if length block < sn_blksize s then s2\<lparr>sn_final_emitted := True\<rparr>
                               else s2))))"

subsection \<open>The task\<close>

record 'f putter =
  pt_opts :: client_options
  pt_server :: sockaddr
  pt_request :: bytes
  pt_want_oack :: bool
  pt_sender :: "'f put_sender"
  pt_neg :: negotiated
  pt_peer :: sockaddr
  pt_next_block :: u16
  pt_in_flight :: flight
  pt_last_sent_short :: bool
  pt_total :: u64

datatype 'f put_task = PutClosed | PutRequest "'f putter" u32 | PutData "'f putter" u32

type_synonym 'f put_state = "'f put_task \<times> net"

function put_fill :: "'f reader \<Rightarrow> 'f putter \<Rightarrow> (error + unit) \<times> 'f putter" where
  "put_fill rd s =
     (if length (pt_in_flight s) < unat (ng_windowsize (pt_neg s)) \<and> \<not> pt_last_sent_short s then
        (case next_block rd (pt_sender s) of
           (Inl e, sn) \<Rightarrow> (Inl e, s\<lparr>pt_sender := sn\<rparr>)
         | (Inr None, sn) \<Rightarrow> (Inr (), s\<lparr>pt_sender := sn\<rparr>)
         | (Inr (Some block), sn) \<Rightarrow>
             put_fill rd
               (s\<lparr>pt_sender := sn,
                  pt_last_sent_short :=
                    (pt_last_sent_short s \<or> length block < unat (ng_blksize (pt_neg s))),
                  pt_total := pt_total s + of_nat (length block),
                  pt_in_flight := pt_in_flight s @ [(pt_next_block s, block)],
                  pt_next_block := pt_next_block s + 1\<rparr>))
      else (Inr (), s))"
  by pat_completeness auto
termination
  by (relation "measure (\<lambda>(rd, s). unat (ng_windowsize (pt_neg s)) - length (pt_in_flight s))") auto

declare put_fill.simps [simp del]

fun put_send_flight :: "sockaddr \<Rightarrow> flight \<Rightarrow> net \<Rightarrow> (error + unit) \<times> net" where
  "put_send_flight peer [] n = (Inr (), n)"
| "put_send_flight peer ((bn, data) # fl) n =
     (case send_to peer (encode (Data bn data)) n of
        (Inl e, n') \<Rightarrow> (Inl e, n')
      | (Inr _, n') \<Rightarrow> put_send_flight peer fl n')"

fun client_consume_ack :: "u16 \<Rightarrow> u16 \<Rightarrow> bool \<Rightarrow> flight \<Rightarrow> bool \<times> flight" where
  "client_consume_ack ack windowsize advanced [] = (advanced, [])"
| "client_consume_ack ack windowsize advanced ((bn, d) # fl) =
     (if bn = ack then (True, fl)
      else (let diff = ack - bn in
            if 0 < diff \<and> diff < windowsize then client_consume_ack ack windowsize True fl
            else (advanced, (bn, d) # fl)))"

interpretation cli_ack: ack_loop client_consume_ack
  by unfold_locales (auto simp: Let_def)

text \<open>The two acknowledgement loops, the server's with \<open>u16_le_in_window\<close> and the client's written
  inline, are the same function on every window of blocks, consecutive or not.\<close>

lemma consume_ack_agree:
  "client_consume_ack ack w adv fl = server_pop_acked ack w adv fl"
  by (induction ack w adv fl rule: client_consume_ack.induct) (simp_all add: u16_le_in_window_def Let_def)

text \<open>The top of the inner loop, and of the outer one.\<close>

definition put_send :: "'f putter \<Rightarrow> u32 \<Rightarrow> net \<Rightarrow> ('f put_state, u64) progress" where
  "put_send s attempt n =
     (case put_send_flight (pt_peer s) (pt_in_flight s) n of
        (Inl e, n') \<Rightarrow> Done (Inl e) (PutData s attempt, n')
      | (Inr _, n') \<Rightarrow> Running (PutData s attempt, arm (ng_timeout (pt_neg s)) n'))"

definition put_next_window ::
  "'f reader \<Rightarrow> 'f putter \<Rightarrow> net \<Rightarrow> ('f put_state, u64) progress" where
  "put_next_window rd s n =
     (case put_fill rd s of
        (Inl e, s1) \<Rightarrow> Done (Inl e) (PutData s1 0, n)
      | (Inr _, s1) \<Rightarrow>
          if pt_in_flight s1 = [] then Done (Inr (pt_total s1)) (PutData s1 0, n)
          else put_send s1 0 n)"

definition put_data_event ::
  "'f reader \<Rightarrow> rx \<Rightarrow> 'f putter \<Rightarrow> u32 \<Rightarrow> net \<Rightarrow> ('f put_state, u64) progress" where
  "put_data_event rd ev s attempt n =
     (case client_recv_one (pt_peer s) ev n of
        (Failed e, n') \<Rightarrow> Done (Inl e) (PutData s attempt, n')
      | (Stray, n') \<Rightarrow> Running (PutData s attempt, n')
      | (Elapsed, n') \<Rightarrow>
          if op_retries (pt_opts s) \<le> attempt then
            Done (Inl (TimedOut attempt)) (PutData s attempt, n')
          else put_send s (attempt + 1) n'
      | (Packet_From_Peer d, n') \<Rightarrow>
          (case decode d of
             Inr (Ack block) \<Rightarrow>
               (case client_consume_ack block (ng_windowsize (pt_neg s)) False (pt_in_flight s) of
                  (advanced, fl) \<Rightarrow>
                    let s1 = s\<lparr>pt_in_flight := fl\<rparr> in
                    if advanced then
                      (if fl = [] \<and> pt_last_sent_short s1
                       then Done (Inr (pt_total s1)) (PutData s1 attempt, n')
                       else put_next_window rd s1 n')
                    else put_send s1 attempt n')
           | Inr (ErrorPkt code msg) \<Rightarrow> Done (Inl (Peer code msg)) (PutData s attempt, n')
           | _ \<Rightarrow> put_send s attempt n'))"

text \<open>Phase 1, and the start of the transfer once the peer is known.\<close>

definition put_send_request :: "'f putter \<Rightarrow> u32 \<Rightarrow> net \<Rightarrow> ('f put_state, u64) progress" where
  "put_send_request s attempt n =
     (case send_to (pt_server s) (pt_request s) n of
        (Inl e, n') \<Rightarrow> Done (Inl e) (PutRequest s attempt, n')
      | (Inr _, n') \<Rightarrow> Running (PutRequest s attempt, arm (op_timeout (pt_opts s)) n'))"

definition put_retry :: "'f putter \<Rightarrow> u32 \<Rightarrow> net \<Rightarrow> ('f put_state, u64) progress" where
  "put_retry s attempt n =
     (if attempt = op_retries (pt_opts s) then
        Done (Inl (TimedOut (op_retries (pt_opts s)))) (PutRequest s attempt, n)
      else put_send_request s (attempt + 1) n)"

definition put_begin ::
  "'f reader \<Rightarrow> 'f putter \<Rightarrow> sockaddr \<Rightarrow> negotiated \<Rightarrow> net \<Rightarrow> ('f put_state, u64) progress" where
  "put_begin rd s peer neg n =
     put_next_window rd
       (s\<lparr>pt_peer := peer, pt_neg := neg,
          pt_sender := set_blksize (unat (ng_blksize neg)) (pt_sender s),
          pt_next_block := 1, pt_in_flight := [], pt_last_sent_short := False, pt_total := 0\<rparr>) n"

definition put_request_event ::
  "'f reader \<Rightarrow> rx \<Rightarrow> 'f putter \<Rightarrow> u32 \<Rightarrow> net \<Rightarrow> ('f put_state, u64) progress" where
  "put_request_event rd ev s attempt n =
     (case ev of
        RxTimeout \<Rightarrow>
          if attempt = op_retries (pt_opts s) then
            Done (Inl (TimedOut attempt)) (PutRequest s attempt, n)
          else put_retry s attempt n
      | RxError e \<Rightarrow> Done (Inl (Io e)) (PutRequest s attempt, n)
      | RxFrom src d \<Rightarrow>
          (case decode (rx_buffer d) of
             Inl e \<Rightarrow> Done (Inl e) (PutRequest s attempt, n)
           | Inr (Oack options) \<Rightarrow>
               if pt_want_oack s then put_begin rd s src (merge_oack (pt_neg s) options) n
               else put_retry s attempt n
           | Inr (Ack block) \<Rightarrow>
               if block = 0 then put_begin rd s src (pt_neg s) n else put_retry s attempt n
           | Inr (ErrorPkt code msg) \<Rightarrow> Done (Inl (Peer code msg)) (PutRequest s attempt, n)
           | Inr _ \<Rightarrow> put_retry s attempt n))"

fun put_event :: "'f reader \<Rightarrow> rx \<Rightarrow> 'f put_state \<Rightarrow> ('f put_state, u64) progress" where
  "put_event rd ev (PutRequest s attempt, n) = put_request_event rd ev s attempt n"
| "put_event rd ev (PutData s attempt, n) = put_data_event rd ev s attempt n"
| "put_event rd ev (PutClosed, n) = Running (PutClosed, n)"

subsection \<open>Starting the task\<close>

definition putter_new ::
  "client_options \<Rightarrow> sockaddr \<Rightarrow> str \<Rightarrow> 'f put_sender \<Rightarrow> u64 option \<Rightarrow> 'f putter" where
  "putter_new opts server remote sender source_len =
     (let request_options = build_request_options opts source_len in
      \<lparr>pt_opts = opts, pt_server = server,
       pt_request = encode (Wrq remote (op_mode opts) request_options),
       pt_want_oack = (\<not> option_set_is_empty request_options), pt_sender = sender,
       pt_neg = client_negotiated_defaults, pt_peer = server, pt_next_block = 1, pt_in_flight = [],
       pt_last_sent_short = False, pt_total = 0\<rparr>)"

definition do_put ::
  "(sockaddr \<Rightarrow> io_error + unit) \<Rightarrow> client_options \<Rightarrow> sockaddr \<Rightarrow> str \<Rightarrow> 'f put_sender \<Rightarrow>
   u64 option \<Rightarrow> net \<Rightarrow> ('f put_state, u64) progress" where
  "do_put bnd opts server remote sender source_len n =
     (case bind_local bnd server of
        Inl e \<Rightarrow> Done (Inl e) (PutClosed, n)
      | Inr _ \<Rightarrow> put_send_request (putter_new opts server remote sender source_len) 0 n)"

lemma do_put_unfold:
  "do_put bnd opts server remote sender source_len n =
     (case bnd (bind_addr_for server) of
        Inl e \<Rightarrow> Done (Inl (Io e)) (PutClosed, n)
      | Inr _ \<Rightarrow> put_send_request (putter_new opts server remote sender source_len) 0 n)"
  by (simp add: do_put_def bind_local_eq split: sum.split)

subsection \<open>Retransmission\<close>

lemma put_send_flight_eq: "put_send_flight peer fl n = send_flight peer fl n"
  by (induction peer fl n rule: put_send_flight.induct) (simp_all split: prod.splits sum.splits)

interpretation put_retry: retrying "put_event rd" "\<lambda>a n. (PutData s a, n)" "\<lambda>n. faults n = []"
  "op_retries (pt_opts s)" for rd s
  by unfold_locales
    (auto simp: put_data_event_def recv_one_def put_send_def put_send_flight_eq send_flight_ok)

interpretation put_request_retry: retrying "put_event rd" "\<lambda>a n. (PutRequest s a, n)"
  "\<lambda>n. faults n = []" "op_retries (pt_opts s)" for rd s
  by unfold_locales
    (auto simp: put_request_event_def put_retry_def put_send_request_def)

subsection \<open>The block producer keeps its contract\<close>

fun source_remaining :: "('f \<Rightarrow> bytes) \<Rightarrow> 'f source \<Rightarrow> bytes" where
  "source_remaining rem (SrcFile f) = rem f"
| "source_remaining rem (SrcSlice d pos) = drop pos d"

definition put_stream :: "('f \<Rightarrow> bytes) \<Rightarrow> 'f put_sender \<Rightarrow> bytes" where
  "put_stream rem s = sn_pending s @ encode_all (sn_encoder s) (source_remaining rem (sn_source s))"

definition put_ready :: "('f \<Rightarrow> bytes) \<Rightarrow> 'f put_sender \<Rightarrow> bool" where
  "put_ready rem s \<longleftrightarrow> 0 < sn_blksize s \<and> (sn_eof s \<longrightarrow> source_remaining rem (sn_source s) = [])"

context byte_source begin

lemma source_byte_source: "byte_source (read_chunk rd) (source_remaining remaining)"
proof unfold_locales
  have d: "drop m xs = take j (drop m xs) @ drop (m + j) xs" for m j and xs :: bytes
    using append_take_drop_id [of j "drop m xs"] by (simp add: add.commute)
  fix src :: "'f source" and k bs src'
  show "read_chunk rd src k = (Inr bs, src') \<Longrightarrow>
      source_remaining remaining src = bs @ source_remaining remaining src' \<and> length bs \<le> k"
    using rd_bytes d by (cases src) (auto simp: Let_def min_def split: prod.splits)
  show "read_chunk rd src k = (Inr [], src') \<Longrightarrow> 0 < k \<Longrightarrow> source_remaining remaining src = []"
    using rd_eof by (cases src) (auto simp: Let_def min_def split: prod.splits if_splits)
qed

lemma next_block_contract:
  assumes "put_ready remaining s" "\<not> sn_final_emitted s" "next_block rd s = (Inr r, s')"
  shows "r = Some (take (sn_blksize s) (put_stream remaining s))
    \<and> put_stream remaining s' = drop (sn_blksize s) (put_stream remaining s)
    \<and> sn_final_emitted s' = (length (put_stream remaining s) < sn_blksize s)
    \<and> put_ready remaining s' \<and> sn_blksize s' = sn_blksize s"
proof -
  let ?k = "sn_blksize s" and ?rem = "source_remaining remaining"
  let ?E = "encode_all (sn_encoder s)"
  obtain q f p e where pull:
    "pull_chunks (read_chunk rd) (sn_encoder s) ?k (sn_source s) (sn_pending s) (sn_eof s) = (q, f, p, e)"
    using prod_cases4 by blast
  with assms(2,3) have q: "q = Inr ()"
    by (cases q) (auto simp: next_block_def Let_def)
  have k: "0 < ?k" and eof: "sn_eof s \<Longrightarrow> ?rem (sn_source s) = []"
    using assms(1) by (auto simp: put_ready_def)
  have stream: "p @ ?E (?rem f) = put_stream remaining s"
    and e: "e \<Longrightarrow> ?rem f = []" and full: "?k \<le> length p \<or> e"
    using byte_source.pull_chunks_stream [OF source_byte_source pull [unfolded q] eof k]
    by (simp_all add: put_stream_def)
  have run: "r = Some (take ?k p)
    \<and> s' = s\<lparr>sn_source := f, sn_eof := e, sn_pending := drop ?k p, sn_final_emitted := length p < ?k\<rparr>"
    using assms(2,3) pull k
    by (cases s) (auto simp: next_block_def Let_def q cut_block_eq split: if_splits)
  have short: "length (put_stream remaining s) < ?k \<longleftrightarrow> length p < ?k"
    "take ?k (put_stream remaining s) = take ?k p"
    "drop ?k (put_stream remaining s) = drop ?k p @ ?E (?rem f)"
    using full e by (auto simp flip: stream)
  show ?thesis
    unfolding short using run k e
    by (simp add: put_ready_def put_stream_def)
qed

end

sublocale byte_source \<subseteq> cli: block_stream "next_block rd" "put_stream remaining"
  sn_final_emitted "put_ready remaining" sn_blksize
proof unfold_locales
  fix s :: "'f put_sender" and s' r
  show "sn_final_emitted s \<Longrightarrow> next_block rd s = (Inr None, s)"
    by (simp add: next_block_def)
  show "put_ready remaining s \<Longrightarrow> 0 < sn_blksize s"
    by (simp add: put_ready_def)
  show "put_ready remaining s \<Longrightarrow> \<not> sn_final_emitted s \<Longrightarrow> next_block rd s = (Inr r, s') \<Longrightarrow>
    r = Some (take (sn_blksize s) (put_stream remaining s))
    \<and> put_stream remaining s' = drop (sn_blksize s) (put_stream remaining s)
    \<and> sn_final_emitted s' = (length (put_stream remaining s) < sn_blksize s)
    \<and> put_ready remaining s' \<and> sn_blksize s' = sn_blksize s"
    by (rule next_block_contract)
qed

subsection \<open>The window\<close>

lemma put_fill_frame:
  assumes "put_fill rd s = (r, s')"
  shows "pt_peer s' = pt_peer s \<and> pt_opts s' = pt_opts s \<and> pt_neg s' = pt_neg s"
  using assms
proof (induction "unat (ng_windowsize (pt_neg s)) - length (pt_in_flight s)" arbitrary: s rule: less_induct)
  case less
  note unf = put_fill.simps [of rd s]
  show ?case
  proof (cases "length (pt_in_flight s) < unat (ng_windowsize (pt_neg s)) \<and> \<not> pt_last_sent_short s")
    case True
    obtain q sn where q: "next_block rd (pt_sender s) = (q, sn)" by fastforce
    show ?thesis
    proof (cases "\<exists>b. q = Inr (Some b)")
      case Some: True
      then obtain b where b: "q = Inr (Some b)" by blast
      let ?s = "s\<lparr>pt_sender := sn,
        pt_last_sent_short := (pt_last_sent_short s \<or> length b < unat (ng_blksize (pt_neg s))),
        pt_total := pt_total s + of_nat (length b),
        pt_in_flight := pt_in_flight s @ [(pt_next_block s, b)], pt_next_block := pt_next_block s + 1\<rparr>"
      have "put_fill rd ?s = (r, s')" using less.prems True q b unf by simp
      moreover have "unat (ng_windowsize (pt_neg ?s)) - length (pt_in_flight ?s)
          < unat (ng_windowsize (pt_neg s)) - length (pt_in_flight s)"
        using True by (simp add: diff_less_mono2)
      ultimately show ?thesis using less.hyps [of ?s] by simp
    next
      case False
      with less.prems True q unf show ?thesis
        by (cases q) (auto split: option.splits)
    qed
  next
    case False
    with less.prems unf show ?thesis by simp
  qed
qed

context byte_source begin

text \<open>
  Blocks \<open>lo, \<dots>, hi - 1\<close> of \<open>B\<close> are in flight and the earlier ones acknowledged; \<open>W\<close> bounds
  the window. The local flag \<open>last_sent_short\<close> and the total agree with the producer.
\<close>

definition put_rel :: "bytes list \<Rightarrow> nat \<Rightarrow> nat \<Rightarrow> nat \<Rightarrow> 'f putter \<Rightarrow> bool" where
  "put_rel B W lo hi s \<longleftrightarrow> pt_in_flight s = flight_of B lo hi \<and> pt_next_block s = of_nat hi
     \<and> 1 \<le> lo \<and> lo \<le> hi \<and> cli.at_block B hi (pt_sender s)
     \<and> sn_blksize (pt_sender s) = unat (ng_blksize (pt_neg s))
     \<and> pt_last_sent_short s = sn_final_emitted (pt_sender s)
     \<and> pt_total s = of_nat (length (concat (take (hi - 1) B)))
     \<and> 0 < unat (ng_windowsize (pt_neg s)) \<and> unat (ng_windowsize (pt_neg s)) \<le> W"

lemma put_rel_bound: "put_rel B W lo hi s \<Longrightarrow> 1 \<le> lo \<and> lo \<le> hi \<and> hi \<le> length B + 1"
  using cli.at_block_bound by (auto simp: put_rel_def)

lemma put_rel_push:
  assumes "put_rel B W lo hi s" "next_block rd (pt_sender s) = (Inr (Some b), sn)"
  shows "put_rel B W lo (hi + 1)
      (s\<lparr>pt_sender := sn,
         pt_last_sent_short := (pt_last_sent_short s \<or> length b < unat (ng_blksize (pt_neg s))),
         pt_total := pt_total s + of_nat (length b),
         pt_in_flight := pt_in_flight s @ [(pt_next_block s, b)], pt_next_block := pt_next_block s + 1\<rparr>)
    \<and> hi \<le> length B"
proof -
  have at: "cli.at_block B hi (pt_sender s)" "lo \<le> hi" "1 \<le> lo"
    using assms(1) by (simp_all add: put_rel_def)
  note n = cli.at_block_Some [OF at(1) assms(2)]
  have nf: "\<not> sn_final_emitted (pt_sender s)"
    using assms(2) cli.nxt_finished [of "pt_sender s"] by auto
  with at have rdy: "put_ready remaining (pt_sender s)" by (simp add: cli.at_block_def)
  note c = next_block_contract [OF rdy nf assms(2)]
  have "length b < sn_blksize (pt_sender s) \<longleftrightarrow> sn_final_emitted sn"
    using c by auto
  moreover have "take hi B = take (hi - 1) B @ [b]"
    using n at take_Suc_conv_app_nth [of "hi - 1" B] by (cases hi) auto
  ultimately show ?thesis
    using assms(1) n c nf flight_of_snoc [OF at(2), of B]
    by (simp add: put_rel_def add.commute)
qed

lemma put_fill_rel:
  assumes "put_rel B W lo hi s" "put_fill rd s = (Inr u, s')"
  shows "put_rel B W lo (max hi (min (lo + unat (ng_windowsize (pt_neg s))) (length B + 1))) s'"
  using assms
proof (induction "unat (ng_windowsize (pt_neg s)) - (hi - lo)" arbitrary: s hi)
  case 0
  then have "\<not> length (pt_in_flight s) < unat (ng_windowsize (pt_neg s))"
    by (simp add: put_rel_def)
  moreover have "max hi (min (lo + unat (ng_windowsize (pt_neg s))) (length B + 1)) = hi"
    using 0 put_rel_bound [OF 0(2)] by auto
  ultimately show ?case
    using 0 by (simp add: put_fill.simps [of rd s])
next
  case (Suc k)
  have "length (pt_in_flight s) = hi - lo" using Suc.prems(1) by (simp add: put_rel_def)
  with Suc.hyps(2) have lt: "length (pt_in_flight s) < unat (ng_windowsize (pt_neg s))"
    by linarith
  have at: "cli.at_block B hi (pt_sender s)" and short: "pt_last_sent_short s = sn_final_emitted (pt_sender s)"
    using Suc.prems(1) by (simp_all add: put_rel_def)
  show ?case
  proof (cases "pt_last_sent_short s")
    case True
    then have "hi = length B + 1" using cli.at_block_finished [OF at] short by simp
    with True Suc.prems show ?thesis by (simp add: put_fill.simps [of rd s])
  next
    case False
    obtain q sn where q: "next_block rd (pt_sender s) = (q, sn)" by fastforce
    with Suc.prems(2) lt False obtain ob where ob: "q = Inr ob"
      by (cases q) (simp_all add: put_fill.simps [of rd s])
    from False short at have "put_ready remaining (pt_sender s)" "\<not> sn_final_emitted (pt_sender s)"
      by (simp_all add: cli.at_block_def)
    from next_block_contract [OF this q [unfolded ob]] obtain b where b: "ob = Some b" by blast
    let ?s = "s\<lparr>pt_sender := sn,
      pt_last_sent_short := (pt_last_sent_short s \<or> length b < unat (ng_blksize (pt_neg s))),
      pt_total := pt_total s + of_nat (length b),
      pt_in_flight := pt_in_flight s @ [(pt_next_block s, b)], pt_next_block := pt_next_block s + 1\<rparr>"
    note push = put_rel_push [OF Suc.prems(1) q [unfolded ob b]]
    have run: "put_fill rd ?s = (Inr u, s')"
      using Suc.prems(2) lt q ob b False by (simp add: put_fill.simps [of rd s])
    have "k = unat (ng_windowsize (pt_neg ?s)) - (hi + 1 - lo)"
      using Suc.hyps(2) put_rel_bound [OF Suc.prems(1)] by simp
    from Suc.hyps(1) [OF this _ run] push
    have "put_rel B W lo (max (hi + 1) (min (lo + unat (ng_windowsize (pt_neg s))) (length B + 1))) s'"
      by simp
    moreover have "max (hi + 1) (min (lo + unat (ng_windowsize (pt_neg s))) (length B + 1))
        = max hi (min (lo + unat (ng_windowsize (pt_neg s))) (length B + 1))"
      using lt push Suc.prems(1) by (auto simp: put_rel_def)
    ultimately show ?thesis by simp
  qed
qed

lemma put_ack_rel:
  assumes "put_rel B W lo hi s"
    and "client_consume_ack ack (ng_windowsize (pt_neg s)) False (pt_in_flight s) = (adv, fl)"
  shows "let d = unat (ack - of_nat lo);
             hit = (lo < hi \<and> (d = 0 \<or> d < unat (ng_windowsize (pt_neg s)))) in
    adv = hit \<and> put_rel B W (if hit then min hi (lo + d + 1) else lo) hi (s\<lparr>pt_in_flight := fl\<rparr>)"
  using assms by (auto simp: cli_ack.pops_window put_rel_def Let_def min_def split: if_splits)

end

subsection \<open>The sender's side of the transfer contract\<close>

definition put_sends :: "bytes list \<Rightarrow> nat \<Rightarrow> sockaddr \<Rightarrow> net \<Rightarrow> net \<Rightarrow> bool" where
  "put_sends B hi peer = sends_only (\<lambda>x. fst x = peer \<longrightarrow> genuine_data B hi (snd x))"

lemma put_sends_trans [trans]:
  "put_sends B hi p n n' \<Longrightarrow> put_sends B hi p n' n'' \<Longrightarrow> put_sends B hi p n n''"
  unfolding put_sends_def by (rule sends_only_trans)

lemma put_sends_refl [simp]: "put_sends B hi p n n"
  by (simp add: put_sends_def)

lemma put_sends_arm [simp]: "put_sends B hi p n (arm d n') = put_sends B hi p n n'"
  by (simp add: put_sends_def)

lemma put_recv_sends: "recv_one peer ev n = (r, n') \<Longrightarrow> put_sends B hi peer n n'"
  unfolding put_sends_def by (rule recv_one_sends) auto

lemma put_flight_sends:
  assumes "fl = flight_of B lo hi" "1 \<le> lo" "hi \<le> length B + 1" "\<forall>b \<in> set B. length b \<le> 65464"
  shows "put_sends B hi peer n (snd (put_send_flight q fl n))"
  unfolding put_sends_def put_send_flight_eq
proof (rule send_flight_sends)
  fix bn d
  assume "(bn, d) \<in> set fl"
  with assms obtain k where k: "bn = of_nat k" "d = B ! (k - 1)" "1 \<le> k" "k < hi" "k \<le> length B"
    using flight_of_mem [of bn d B lo hi] by auto
  then have "k - 1 < length B" by linarith
  with assms(4) have "length (B ! (k - 1)) \<le> 65464" by simp
  with genuine_data_block [OF k(3,5)] k
  show "fst (q, encode (Data bn d)) = peer \<longrightarrow> genuine_data B hi (snd (q, encode (Data bn d)))"
    by simp
qed

text \<open>
  The client may take ACK(0) for the answer to its request. That is harmless when the
  server's block size is the default one.
\<close>

definition handshake_safe :: "option_set \<Rightarrow> nat \<Rightarrow> nat \<Rightarrow> bool" where
  "handshake_safe oack k W \<longleftrightarrow>
     (let neg = merge_oack negotiated_defaults oack in
      k = 512 \<and> unat (ng_blksize neg) = k \<and> 0 < unat (ng_windowsize neg)
      \<and> unat (ng_windowsize neg) \<le> W)"

text \<open>The events an upload may see besides what the other side sent.\<close>

fun put_env :: "sockaddr \<Rightarrow> 'f put_state \<Rightarrow> rx \<Rightarrow> bool" where
  "put_env peer (PutData _ _, _) ev \<longleftrightarrow> not_from peer ev"
| "put_env peer _ ev \<longleftrightarrow> quiet ev"

context byte_source begin

lemma put_window_bound:
  assumes "put_rel B W lo hi s" "hi - lo \<le> unat (ng_windowsize (pt_neg s))"
  shows "hi \<le> length B + 1 \<and> hi - lo \<le> W"
  using assms put_rel_bound [OF assms(1)] by (auto simp: put_rel_def)

text \<open>
  The invariant of a waiting task: before the handshake the sender has read nothing, and
  \<open>B\<close> are the blocks it will cut its source into at block size \<open>k\<close>.
\<close>

definition put_srel ::
  "bytes list \<Rightarrow> nat \<Rightarrow> option_set \<Rightarrow> sockaddr \<Rightarrow> nat \<Rightarrow> nat \<Rightarrow> nat \<Rightarrow> 'f put_state \<Rightarrow> bool" where
  "put_srel B W oack peer k lo hi st \<longleftrightarrow>
     (case fst st of
        PutRequest s _ \<Rightarrow> lo = 1 \<and> hi = 1 \<and> pt_neg s = negotiated_defaults \<and> genuine_data B hi (pt_request s)
          \<and> B = blocks_of k (put_stream remaining (pt_sender s))
          \<and> \<not> sn_eof (pt_sender s) \<and> \<not> sn_final_emitted (pt_sender s)
          \<and> handshake_safe oack k W \<and> (pt_want_oack s \<or> option_set_is_empty oack)
      | PutData s _ \<Rightarrow> pt_peer s = peer \<and> put_rel B W lo hi s
          \<and> in_transit peer (pt_in_flight s) (ng_windowsize (pt_neg s)) (snd st)
      | PutClosed \<Rightarrow> False)"

definition put_post ::
  "bytes list \<Rightarrow> nat \<Rightarrow> option_set \<Rightarrow> sockaddr \<Rightarrow> nat \<Rightarrow> nat \<Rightarrow> nat \<Rightarrow> net \<Rightarrow>
   ('f put_state, u64) progress \<Rightarrow> bool" where
  "put_post B W oack peer k lo hi n p \<longleftrightarrow>
     (\<forall>st. p = Running st \<longrightarrow> put_srel B W oack peer k lo hi st)
     \<and> (\<forall>r st. p = Done (Inr r) st \<longrightarrow> lo = length B + 1 \<and> r = of_nat (length (concat B)))
     \<and> hi \<le> length B + 1 \<and> hi - lo \<le> W
     \<and> put_sends B hi peer n (snd (state_of p))"

lemma put_post_trans:
  "put_sends B hi peer n n' \<Longrightarrow> put_post B W oack peer k lo hi n' p \<Longrightarrow> put_post B W oack peer k lo hi n p"
  unfolding put_post_def using put_sends_trans by blast

lemma put_post_failed:
  "put_sends B hi peer n (snd st) \<Longrightarrow> hi \<le> length B + 1 \<Longrightarrow> hi - lo \<le> W \<Longrightarrow> put_post B W oack peer k lo hi n (Done (Inl e) st)"
  by (simp add: put_post_def)

lemma put_send_post:
  assumes "put_rel B W lo hi s" "pt_peer s = peer" "\<forall>b \<in> set B. length b \<le> 65464"
    and "lo < hi" "hi - lo \<le> unat (ng_windowsize (pt_neg s))"
  shows "put_post B W oack peer k lo hi n (put_send s a n)"
proof -
  have "put_sends B hi peer n (snd (put_send_flight peer (pt_in_flight s) n))"
    using assms put_rel_bound [OF assms(1)] by (intro put_flight_sends) (auto simp: put_rel_def)
  moreover have "in_transit peer (pt_in_flight s) (ng_windowsize (pt_neg s)) n'"
    if "put_send_flight peer (pt_in_flight s) n = (Inr u, n')" for u n'
    using send_flight_transit [OF that [unfolded put_send_flight_eq]] assms
    by (auto simp: in_transit_def put_rel_def)
  ultimately show ?thesis
    using assms(1,2) put_window_bound [OF assms(1,5)] by (auto simp: put_send_def put_post_def put_srel_def split: prod.splits sum.splits)
qed

lemma put_next_window_post:
  assumes "put_rel B W lo hi s" "pt_peer s = peer" "\<forall>b \<in> set B. length b \<le> 65464"
    and "hi - lo \<le> unat (ng_windowsize (pt_neg s))"
  shows "\<exists>hi' \<ge> hi. put_post B W oack peer k lo hi' n (put_next_window rd s n)"
proof -
  obtain r s1 where f: "put_fill rd s = (r, s1)" by fastforce
  note frame = put_fill_frame [OF f]
  show ?thesis
  proof (cases r)
    case (Inl e)
    with f put_window_bound [OF assms(1,4)] show ?thesis by (auto simp: put_next_window_def put_post_def)
  next
    case (Inr u)
    let ?hi = "max hi (min (lo + unat (ng_windowsize (pt_neg s))) (length B + 1))"
    from f Inr have rel: "put_rel B W lo ?hi s1"
      using put_fill_rel [OF assms(1)] by simp
    show ?thesis
    proof (cases "pt_in_flight s1 = []")
      case True
      have "pt_in_flight s1 = flight_of B lo ?hi" using rel unfolding put_rel_def by blast
      with True have le: "?hi \<le> lo" by (metis flight_of_Nil_iff)
      have "0 < unat (ng_windowsize (pt_neg s))" using assms(1) by (simp add: put_rel_def)
      with le put_rel_bound [OF assms(1)] have lo: "lo = length B + 1" by linarith
      with le have "?hi - 1 = length B" by simp
      with rel have "pt_total s1 = of_nat (length (concat B))"
        unfolding put_rel_def by simp
      with f Inr True lo put_window_bound [OF assms(1,4)] show ?thesis by (auto simp: put_next_window_def put_post_def)
    next
      case False
      with f Inr have "put_next_window rd s n = put_send s1 0 n"
        by (simp add: put_next_window_def)
      moreover have "pt_in_flight s1 = flight_of B lo ?hi" using rel unfolding put_rel_def by blast
      with False have "lo < ?hi" by (metis flight_of_Nil_iff not_le)
      moreover have "?hi - lo \<le> unat (ng_windowsize (pt_neg s))" using assms(4) by linarith
      ultimately show ?thesis
        using put_send_post [OF rel _ assms(3)] frame assms(2) by (intro exI [of _ ?hi]) simp
    qed
  qed
qed

lemma put_ack_post:
  assumes "put_rel B W lo hi s" "pt_peer s = peer" "\<forall>b \<in> set B. length b \<le> 65464"
    and "lo \<le> M" "length B + 1 + W \<le> 65536" "j < M" "lo < hi" "hi - lo \<le> unat (ng_windowsize (pt_neg s))"
  shows "\<exists>lo' \<in> {lo..M}. \<exists>hi' \<ge> hi. put_post B W oack peer k lo' hi' n
     (case client_consume_ack (of_nat j) (ng_windowsize (pt_neg s)) False (pt_in_flight s) of
        (advanced, fl) \<Rightarrow>
          let s1 = s\<lparr>pt_in_flight := fl\<rparr> in
          if advanced then
            (if fl = [] \<and> pt_last_sent_short s1 then Done (Inr (pt_total s1)) (PutData s1 a, n)
             else put_next_window rd s1 n)
          else put_send s1 a n)"
proof -
  let ?w = "unat (ng_windowsize (pt_neg s))"
  let ?d = "unat (of_nat j - of_nat lo :: u16)"
  let ?hit = "lo < hi \<and> (?d = 0 \<or> ?d < ?w)"
  obtain adv fl where c: "client_consume_ack (of_nat j) (ng_windowsize (pt_neg s)) False (pt_in_flight s) = (adv, fl)"
    by fastforce
  let ?s = "s\<lparr>pt_in_flight := fl\<rparr>"
  note r = put_ack_rel [OF assms(1) c, unfolded Let_def]
  have w: "0 < ?w" "?w \<le> W" using assms(1) by (simp_all add: put_rel_def)
  show ?thesis
  proof (cases ?hit)
    case True
    let ?lo = "min hi (lo + ?d + 1)"
    have rel: "put_rel B W ?lo hi ?s" using r True by simp
    have "lo + ?w \<le> 65536" using put_rel_bound [OF assms(1)] assms(5) w by linarith
    then have "lo + ?d + 1 \<le> M"
      using assms(4,6) w True by (intro ack_in_bounds) auto
    with True have lo: "?lo \<in> {lo..M}" by simp
    have "put_post B W oack peer k ?lo hi n (Done (Inr (pt_total ?s)) (PutData ?s a, n))"
      if "fl = []" "pt_last_sent_short ?s"
    proof -
      have at: "cli.at_block B hi (pt_sender ?s)" and "sn_final_emitted (pt_sender ?s)"
        and fl: "flight_of B ?lo hi = []" and tot: "pt_total ?s = of_nat (length (concat (take (hi - 1) B)))"
        using rel that unfolding put_rel_def by auto
      with cli.at_block_finished [OF at] have hi: "hi = length B + 1" by simp
      have "hi \<le> ?lo" using fl by (simp only: flight_of_Nil_iff)
      with hi have "?lo = length B + 1" by simp
      moreover have "pt_total ?s = of_nat (length (concat B))" using tot hi by simp
      ultimately show ?thesis using hi by (simp add: put_post_def)
    qed
    with put_next_window_post [OF rel _ assms(3)] assms(2,8)
    have "\<exists>hi' \<ge> hi. put_post B W oack peer k ?lo hi' n
        (if fl = [] \<and> pt_last_sent_short ?s then Done (Inr (pt_total ?s)) (PutData ?s a, n)
         else put_next_window rd ?s n)"
      by auto
    with lo c r True show ?thesis by (intro bexI [of _ ?lo]) (simp_all add: Let_def)
  next
    case False
    with r have "put_rel B W lo hi ?s" by simp
    from put_send_post [OF this _ assms(3)] assms(2,7,8) have "put_post B W oack peer k lo hi n (put_send ?s a n)"
      by simp
    then show ?thesis using c r False assms(4) by (intro bexI [of _ lo] exI [of _ hi]) (simp_all add: Let_def)
  qed
qed

lemma put_data_event_post:
  assumes rel: "put_rel B W lo hi s" and peer: "pt_peer s = peer"
    and small: "\<forall>b \<in> set B. length b \<le> 65464"
    and transit: "in_transit peer (pt_in_flight s) (ng_windowsize (pt_neg s)) n"
    and "lo \<le> M" "length B + 1 + W \<le> 65536" and ack: "\<forall>d. ev = RxFrom peer d \<longrightarrow> genuine_ack M d"
  shows "\<exists>lo' \<in> {lo..M}. \<exists>hi' \<ge> hi. put_post B W oack peer k lo' hi' n (put_data_event rd ev s a n)"
proof -
  obtain r n' where rx: "recv_one peer ev n = (r, n')" by fastforce
  note snt = put_recv_sends [OF rx, of B]
  have len: "lo < hi" "hi - lo \<le> unat (ng_windowsize (pt_neg s))"
    using transit rel by (auto simp: in_transit_def put_rel_def)
  let ?post = "put_post B W oack peer k lo hi n"
  have failed: "?post (Done (Inl e) (t, n'))" for e t
    using snt put_window_bound [OF rel len(2)] by (simp add: put_post_failed)
  have again: "?post (put_send s a' n')" for a'
    using put_post_trans [OF snt put_send_post [OF rel peer small len]] .
  show ?thesis
  proof (cases "\<exists>d b. r = Packet_From_Peer d \<and> decode d = Inr (Ack b)")
    case True
    then obtain d b where d: "r = Packet_From_Peer d" "decode d = Inr (Ack b)" by blast
    then obtain d' where "ev = RxFrom peer d'" "d = rx_buffer d'"
      using rx by (auto simp: recv_one_def split: rx.splits if_splits)
    with ack d obtain j where j: "j < M" "b = of_nat j" by (auto simp: genuine_ack_def)
    from put_ack_post [OF rel peer small assms(5,6) j(1) len, of oack k n' a] obtain lo' hi' where "lo' \<in> {lo..M}" "hi \<le> hi'"
      "put_post B W oack peer k lo' hi' n
        (case client_consume_ack (of_nat j) (ng_windowsize (pt_neg s)) False (pt_in_flight s) of
          (advanced, fl) \<Rightarrow>
            let s1 = s\<lparr>pt_in_flight := fl\<rparr> in
            if advanced then
              (if fl = [] \<and> pt_last_sent_short s1 then Done (Inr (pt_total s1)) (PutData s1 a, n')
               else put_next_window rd s1 n')
            else put_send s1 a n')"
      using put_post_trans [OF snt] by blast
    then show ?thesis
      using rx d j peer by (auto simp: put_data_event_def)
  next
    case no: False
    have "?post (put_data_event rd ev s a n)"
    proof (cases r)
      case (Packet_From_Peer d)
      with rx no peer again [of a] failed show ?thesis
        by (auto simp: put_data_event_def split: sum.splits packet.splits)
    next
      case Stray
      have "put_srel B W oack peer k lo hi (PutData s a, n')" using rel peer in_transit_later [OF transit snt [where hi = hi, unfolded put_sends_def]]
        by (simp add: put_srel_def)
      with Stray rx peer snt put_window_bound [OF rel len(2)] show ?thesis by (simp add: put_data_event_def put_post_def)
    qed (use rx peer again failed in \<open>auto simp: put_data_event_def\<close>)
    with assms(5) show ?thesis by (intro bexI [of _ lo] exI [of _ hi]) simp_all
  qed
qed

text \<open>Phase 1 ends with parameters whose block size is \<open>k\<close>.\<close>

lemma put_begin_rel:
  assumes "B = blocks_of k (put_stream remaining (pt_sender s))"
    "\<not> sn_eof (pt_sender s)" "\<not> sn_final_emitted (pt_sender s)"
    and "unat (ng_blksize neg) = k" "0 < k"
    and "0 < unat (ng_windowsize neg)" "unat (ng_windowsize neg) \<le> W"
  shows "put_rel B W 1 1 (s\<lparr>pt_peer := peer, pt_neg := neg, pt_sender := set_blksize k (pt_sender s),
      pt_next_block := 1, pt_in_flight := [], pt_last_sent_short := False, pt_total := 0\<rparr>)"
proof -
  let ?sn = "set_blksize k (pt_sender s)"
  have "cli.at_block (blocks_of k (put_stream remaining ?sn)) 1 ?sn"
    using cli.at_block_start [of ?sn] assms by (simp add: set_blksize_def put_ready_def)
  then show ?thesis
    using assms by (simp add: put_rel_def set_blksize_def put_stream_def flight_of_Nil del: flight_of_Nil_iff)
qed

lemma put_begin_post:
  assumes B: "B = blocks_of k (put_stream remaining (pt_sender s))"
    "\<not> sn_eof (pt_sender s)" "\<not> sn_final_emitted (pt_sender s)"
    and "unat (ng_blksize neg) = k" "0 < k"
    and "0 < unat (ng_windowsize neg)" "unat (ng_windowsize neg) \<le> W" "\<forall>b \<in> set B. length b \<le> 65464"
  shows "\<exists>hi \<ge> 1. put_post B W oack peer k 1 hi n (put_begin rd s peer neg n)"
  using put_next_window_post [OF put_begin_rel [OF assms(1-7)] _ assms(8)] assms(4)
  by (simp add: put_begin_def)

lemma put_retry_post:
  assumes "put_srel B W oack peer k lo hi (PutRequest s a, n)"
  shows "put_post B W oack peer k lo hi n (put_retry s a n)"
proof -
  obtain r n' where q: "send_to (pt_server s) (pt_request s) n = (r, n')" by fastforce
  have "genuine_data B hi (pt_request s)"
    using assms unfolding put_srel_def fst_conv put_task.case by blast
  then have "put_sends B hi peer n n'"
    using sends_only_send [of "\<lambda>x. fst x = peer \<longrightarrow> genuine_data B hi (snd x)" "pt_server s" "pt_request s" n]
      q by (simp add: put_sends_def)
  with assms q show ?thesis
    by (cases r) (auto simp: put_retry_def put_send_request_def put_post_def put_srel_def)
qed

lemma put_request_event_post:
  assumes rel: "put_srel B W oack peer k lo hi (PutRequest s a, n)" and M: "lo \<le> M"
    and small: "\<forall>b \<in> set B. length b \<le> 65464"
    and ev: "quiet ev \<or> (\<exists>d. ev = RxFrom peer d \<and> receiver_promise oack M d)"
  shows "\<exists>lo' \<in> {lo..M}. \<exists>hi' \<ge> hi. put_post B W oack peer k lo' hi' n (put_request_event rd ev s a n)"
proof -
  let ?neg = "merge_oack negotiated_defaults oack"
  have lo: "lo = 1" "hi = 1" and dflt: "pt_neg s = negotiated_defaults"
    and B: "B = blocks_of k (put_stream remaining (pt_sender s))"
      "\<not> sn_eof (pt_sender s)" "\<not> sn_final_emitted (pt_sender s)"
    and neg: "k = 512" "unat (ng_blksize ?neg) = k" "0 < unat (ng_windowsize ?neg)"
      "unat (ng_windowsize ?neg) \<le> W"
    using rel by (simp_all add: put_srel_def handshake_safe_def Let_def)
  note retry = put_retry_post [OF rel]
  have failed: "put_post B W oack peer k lo hi n (Done (Inl e) (t, n))" for e t
    using lo by (simp add: put_post_failed)
  have oack_begin: "\<exists>hi' \<ge> hi. put_post B W oack peer k lo hi' n (put_begin rd s peer (merge_oack (pt_neg s) oack) n)"
    using put_begin_post [OF B neg(2) _ neg(3,4) small] neg(1) lo dflt by simp
  have "unat (ng_blksize negotiated_defaults) = k" "unat (ng_windowsize negotiated_defaults) = 1"
    using neg(1) by (simp_all add: negotiated_defaults_def proto_consts)
  then have ack_begin: "\<exists>hi' \<ge> hi. put_post B W oack peer k lo hi' n (put_begin rd s peer (pt_neg s) n)"
    using put_begin_post [OF B, of negotiated_defaults W] neg small lo dflt by simp
  have "\<exists>hi' \<ge> hi. put_post B W oack peer k lo hi' n (put_request_event rd ev s a n)"
    using ev
  proof (elim disjE exE conjE)
    assume "quiet ev"
    then show ?thesis
      using retry failed by (cases ev) (auto simp: put_request_event_def)
  next
    fix d
    assume d: "ev = RxFrom peer d" "receiver_promise oack M d"
    then have o: "decode (rx_buffer d) = Inr (Oack o') \<Longrightarrow> o' = oack" for o'
      by (auto simp: receiver_promise_def genuine_oack_def)
    show ?thesis
      using d(1) retry failed oack_begin ack_begin o
      by (auto simp: put_request_event_def split: sum.splits packet.splits)
  qed
  with M show ?thesis by (intro bexI [of _ lo]) simp_all
qed

lemma put_event_post:
  assumes "put_srel B W oack peer k lo hi st" "lo \<le> M" "length B + 1 + W \<le> 65536"
    and "\<forall>b \<in> set B. length b \<le> 65464"
    and "put_env peer st ev \<or> (\<exists>d. ev = RxFrom peer d \<and> receiver_promise oack M d)"
  shows "\<exists>lo' \<in> {lo..M}. \<exists>hi' \<ge> hi. put_post B W oack peer k lo' hi' (snd st) (put_event rd ev st)"
proof -
  obtain task n where st: "st = (task, n)" by fastforce
  show ?thesis
  proof (cases task)
    case (PutRequest s a)
    with assms st put_request_event_post [of B W oack peer k lo hi s a n M ev] show ?thesis by simp
  next
    case (PutData s a)
    with assms(1) st have m: "put_rel B W lo hi s" "pt_peer s = peer"
      "in_transit peer (pt_in_flight s) (ng_windowsize (pt_neg s)) n"
      by (simp_all add: put_srel_def)
    have "\<forall>d. ev = RxFrom peer d \<longrightarrow> genuine_ack M d"
      using assms(5) st PutData by (auto simp: not_from_iff receiver_promise_def)
    with put_data_event_post [OF m(1,2) assms(4) m(3) assms(2,3)] st PutData show ?thesis by simp
  next
    case PutClosed
    with assms(1) st show ?thesis by (simp add: put_srel_def)
  qed
qed

end

subsection \<open>Parameters, whatever the network delivers\<close>

definition put_valid :: "'f put_state \<Rightarrow> bool" where
  "put_valid st \<longleftrightarrow>
     (case fst st of
        PutRequest s _ \<Rightarrow> pt_neg s = negotiated_defaults
      | PutData s _ \<Rightarrow> negotiated_ok (pt_neg s) \<and> pt_in_flight s \<noteq> []
      | PutClosed \<Rightarrow> True)"

lemma put_send_valid:
  "put_send s a n = Running st \<Longrightarrow> negotiated_ok (pt_neg s) \<Longrightarrow> pt_in_flight s \<noteq> [] \<Longrightarrow> put_valid st"
  by (auto simp: put_send_def put_valid_def split: prod.splits sum.splits)

lemma put_next_window_valid:
  assumes "put_next_window rd s n = Running st" "negotiated_ok (pt_neg s)"
  shows "put_valid st"
proof -
  obtain r s1 where f: "put_fill rd s = (r, s1)" by fastforce
  with assms put_fill_frame [OF f] put_send_valid [of s1 0 n st] show ?thesis
    by (cases r) (auto simp: put_next_window_def split: if_splits)
qed

lemma consume_ack_advanced: "client_consume_ack b w True fl \<noteq> (False, fl')"
  by (induction fl) (auto simp: Let_def split: if_splits)

lemma consume_ack_kept: "client_consume_ack b w adv fl = (False, fl') \<Longrightarrow> fl' = fl"
  by (cases fl) (auto simp: Let_def consume_ack_advanced split: if_splits)

lemma put_data_event_valid:
  assumes "put_data_event rd ev s a n = Running st" "negotiated_ok (pt_neg s)" "pt_in_flight s \<noteq> []"
  shows "put_valid st"
proof -
  have again: "put_valid st" if "put_send s a' n' = Running st" for a' n'
    using put_send_valid [OF that assms(2,3)] .
  have stay: "put_valid (PutData s a, n')" for n'
    using assms(2,3) by (simp add: put_valid_def)
  obtain q n' where rx: "recv_one (pt_peer s) ev n = (q, n')" by fastforce
  show ?thesis
  proof (cases "\<exists>d b. q = Packet_From_Peer d \<and> decode d = Inr (Ack b)")
    case True
    then obtain d b where ack: "q = Packet_From_Peer d" "decode d = Inr (Ack b)" by blast
    obtain adv fl where c: "client_consume_ack b (ng_windowsize (pt_neg s)) False (pt_in_flight s) = (adv, fl)" by fastforce
    show ?thesis
    proof (cases adv)
      case True
      with assms(1) rx ack c have "put_next_window rd (s\<lparr>pt_in_flight := fl\<rparr>) n' = Running st"
        by (simp add: put_data_event_def Let_def split: if_splits)
      with put_next_window_valid assms(2) show ?thesis by fastforce
    next
      case False
      with c have "fl = pt_in_flight s" using consume_ack_kept [of b _ False "pt_in_flight s" fl] by simp
      with False assms(1) rx ack c have "put_send s a n' = Running st" by (simp add: put_data_event_def Let_def)
      with again show ?thesis .
    qed
  next
    case False
    then show ?thesis
      using assms(1) rx again stay
      by (cases q) (auto simp: put_data_event_def split: sum.splits packet.splits if_splits)
  qed
qed

lemma put_begin_valid:
  "put_begin rd s src neg n = Running st \<Longrightarrow> negotiated_ok neg \<Longrightarrow> put_valid st"
  unfolding put_begin_def by (erule put_next_window_valid) simp

lemma put_request_event_valid:
  assumes "put_request_event rd ev s a n = Running st" "pt_neg s = negotiated_defaults"
  shows "put_valid st"
proof -
  have retry: "put_valid st" if "put_retry s a n = Running st"
    using that assms(2) by (auto simp: put_retry_def put_send_request_def put_valid_def
        split: prod.splits sum.splits if_splits)
  have start: "put_valid st" if "put_begin rd s src (pt_neg s) n = Running st" for src
    using put_begin_valid [OF that] assms(2) by simp
  have oack: "put_valid st" if "put_begin rd s src (merge_oack (pt_neg s) o') n = Running st"
    "decode d = Inr (Oack o')" for src o' d
  proof -
    have "option_set_ok o'" using decode_packet_ok [OF that(2)] by simp
    then have "negotiated_ok (merge_oack (pt_neg s) o')"
      using assms(2) by (auto intro: merge_oack_ok)
    from put_begin_valid [OF that(1) this] show ?thesis .
  qed
  show ?thesis
    using assms(1) retry start oack
    by (auto simp: put_request_event_def split: rx.splits sum.splits packet.splits if_splits)
qed

lemma put_event_valid:
  assumes "put_valid st" "put_event rd ev st = Running st'"
  shows "put_valid st'"
proof (cases st)
  case (Pair task n)
  with assms put_request_event_valid [of rd ev _ _ n st'] put_data_event_valid [of rd ev _ _ n st']
  show ?thesis by (cases task) (auto simp: put_valid_def [of "(PutData _ _, _)"] put_valid_def [of "(PutRequest _ _, _)"])
qed

lemma do_put_valid: "do_put bnd opts server remote g sz n = Running st \<Longrightarrow> put_valid st"
  by (auto simp: do_put_unfold put_send_request_def putter_new_def Let_def put_valid_def
      split: sum.splits prod.splits)

subsection \<open>Until the handshake ends\<close>

text \<open>A task that still waits for its first answer has sent nothing but its request.\<close>

lemma put_send_data: "put_send s a n \<noteq> Running (PutRequest g a', n')"
  by (auto simp: put_send_def split: prod.splits sum.splits)

lemma put_next_window_data: "put_next_window rd s n \<noteq> Running (PutRequest g a', n')"
  by (auto simp: put_next_window_def put_send_data split: prod.splits sum.splits)

lemma put_data_event_data: "put_data_event rd ev s a n \<noteq> Running (PutRequest g a', n')"
  by (auto simp: put_data_event_def put_send_data put_next_window_data Let_def
      split: prod.splits received.splits sum.splits packet.splits if_splits)

lemma put_retry_sends:
  assumes "put_retry s a n = Running (PutRequest g a', n')"
  shows "g = s \<and> (outbox n' = outbox n \<or> outbox n' = outbox n @ [(pt_server s, pt_request s)])"
proof -
  obtain r n1 where s: "send_to (pt_server s) (pt_request s) n = (r, n1)" by fastforce
  with send_to_outbox [of "pt_server s" "pt_request s" n] assms show ?thesis
    by (auto simp: put_retry_def put_send_request_def split: sum.splits if_splits)
qed

lemma put_event_request:
  assumes "put_event rd ev st = Running (PutRequest g a', n')"
  shows "\<exists>a n. st = (PutRequest g a, n)
    \<and> (outbox n' = outbox n \<or> outbox n' = outbox n @ [(pt_server g, pt_request g)])"
proof (cases st)
  case (Pair task n)
  show ?thesis
  proof (cases task)
    case (PutRequest s a)
    with Pair assms have "put_request_event rd ev s a n = Running (PutRequest g a', n')" by simp
    then have "put_retry s a n = Running (PutRequest g a', n')"
      by (auto simp: put_request_event_def put_begin_def put_next_window_data
          split: rx.splits sum.splits packet.splits if_splits)
    from put_retry_sends [OF this] Pair PutRequest show ?thesis by auto
  next
    case (PutData s a)
    with Pair assms show ?thesis by (simp add: put_data_event_data)
  next
    case PutClosed
    with Pair assms show ?thesis by simp
  qed
qed

subsection \<open>Properties\<close>

text \<open>Whatever datagrams arrive, an upload never runs with parameters out of range and never waits
  with nothing in flight.\<close>

lemma put_parameters_valid:
  assumes "drive (put_event rd) (do_put bnd opts server remote g sz n) evs = Running (PutData s a, n')"
  shows "8 \<le> ng_blksize (pt_neg s) \<and> ng_blksize (pt_neg s) \<le> 65464 \<and> 0 < ng_windowsize (pt_neg s)
    \<and> pt_in_flight s \<noteq> []"
proof -
  have "put_valid (PutData s a, n')"
    using drive_running [where I = put_valid, OF do_put_valid put_event_valid assms] .
  then show ?thesis
    using negotiated_window_word [of "pt_neg s"]
    by (simp add: put_valid_def negotiated_ok_def MIN_BLOCK_SIZE_def MAX_BLOCK_SIZE_def)
qed

text \<open>C28: Whatever datagrams arrive, from whomever, a client never runs with parameters out of range: its block size is
  between 8 and 65464, its window holds at least one block. In a download fewer blocks than a window have come since the
  last ACK, and the 16-bit count of them never overflows; an upload never waits with nothing in flight. So
  a hostile OACK cannot stall or overflow the client.\<close>

theorem client_parameters_valid:
  shows "(drive (get_event wr fl) (do_get bnd opts server remote w n) evs = Running (GetData s a, n') \<longrightarrow>
      8 \<le> ng_blksize (gt_neg s) \<and> ng_blksize (gt_neg s) \<le> 65464 \<and> 0 < ng_windowsize (gt_neg s)
      \<and> gt_blocks_in_window s < ng_windowsize (gt_neg s)
      \<and> unat (gt_blocks_in_window s + 1) = unat (gt_blocks_in_window s) + 1)
    \<and> (drive (put_event rd) (do_put bnd opts server remote g sz n) evs = Running (PutData p a, n') \<longrightarrow>
      8 \<le> ng_blksize (pt_neg p) \<and> ng_blksize (pt_neg p) \<le> 65464 \<and> 0 < ng_windowsize (pt_neg p)
      \<and> pt_in_flight p \<noteq> [])"
  using get_parameters_valid [of wr fl bnd opts server remote w n evs s a n']
    put_parameters_valid [of rd bnd opts server remote g sz n evs p a n'] by blast

theorem client_parameters_valid_witness:
  "(\<exists>s a n'. drive (get_event vec_write vec_flush)
      (do_get (\<lambda>_. Inr ()) (client_options_default\<lparr>op_windowsize := Some 4\<rparr>) (V4 1 69) [97]
        (receiver_new (SinkVec []) Octet) (net_new []))
      [RxFrom (V4 1 5000) (encode (Oack \<lparr>items = [WindowSize 4]\<rparr>))] = Running (GetData s a, n')
    \<and> ng_windowsize (gt_neg s) = 4 \<and> gt_blocks_in_window s < 4)
   \<and> (\<exists>s a n'. drive (put_event vec_read)
      (do_put (\<lambda>_. Inr ()) client_options_default (V4 1 69) [97] (put_sender_new (SrcSlice [1, 2] 0) Octet)
        (Some 2) (net_new [])) [RxFrom (V4 1 5000) (encode (Ack 0))] = Running (PutData s a, n')
    \<and> pt_in_flight s \<noteq> [])"
proof
  have o: "option_set_ok \<lparr>items = [WindowSize 4]\<rparr>" by (simp add: option_set_ok_def)
  then have "decode (rx_buffer (encode (Oack \<lparr>items = [WindowSize 4]\<rparr>))) = Inr (Oack \<lparr>items = [WindowSize 4]\<rparr>)"
    using length_encode_oack [OF o] decode_encode [of "Oack \<lparr>items = [WindowSize 4]\<rparr>"]
    by (simp add: MAX_PACKET_SIZE_eq)
  then obtain s a n' where r: "drive (get_event vec_write vec_flush)
      (do_get (\<lambda>_. Inr ()) (client_options_default\<lparr>op_windowsize := Some 4\<rparr>) (V4 1 69) [97]
        (receiver_new (SinkVec []) Octet) (net_new []))
      [RxFrom (V4 1 5000) (encode (Oack \<lparr>items = [WindowSize 4]\<rparr>))] = Running (GetData s a, n')"
    "ng_windowsize (gt_neg s) = 4"
    by (simp add: do_get_unfold get_send_request_def getter_new_def net_new_def Let_def
        get_request_event_def build_request_options_def client_options_default_def get_ack_def
        send_ack_def get_loop_def merge_oack_def window_size_def)
  with conjunct1 [OF client_parameters_valid, rule_format, OF r(1)] show "\<exists>s a n'. drive (get_event vec_write vec_flush)
      (do_get (\<lambda>_. Inr ()) (client_options_default\<lparr>op_windowsize := Some 4\<rparr>) (V4 1 69) [97]
        (receiver_new (SinkVec []) Octet) (net_new []))
      [RxFrom (V4 1 5000) (encode (Oack \<lparr>items = [WindowSize 4]\<rparr>))] = Running (GetData s a, n')
    \<and> ng_windowsize (gt_neg s) = 4 \<and> gt_blocks_in_window s < 4" by auto
next
  obtain s a n' where r: "drive (put_event vec_read)
      (do_put (\<lambda>_. Inr ()) client_options_default (V4 1 69) [97] (put_sender_new (SrcSlice [1, 2] 0) Octet)
        (Some 2) (net_new [])) [RxFrom (V4 1 5000) (encode (Ack 0))] = Running (PutData s a, n')"
    by (simp add: do_put_unfold put_send_request_def putter_new_def net_new_def Let_def
        put_request_event_def MAX_PACKET_SIZE_eq put_begin_def put_next_window_def put_fill.simps
        next_block_def pull_chunks.simps encode_chunk_def cut_block_eq put_sender_new_def
        set_blksize_def put_send_def negotiated_defaults_def proto_consts)
  with conjunct2 [OF client_parameters_valid, rule_format, OF r] show "\<exists>s a n'. drive (put_event vec_read)
      (do_put (\<lambda>_. Inr ()) client_options_default (V4 1 69) [97] (put_sender_new (SrcSlice [1, 2] 0) Octet)
        (Some 2) (net_new [])) [RxFrom (V4 1 5000) (encode (Ack 0))] = Running (PutData s a, n')
    \<and> pt_in_flight s \<noteq> []" by blast
qed

text \<open>C30: A transfer whose server falls silent ends. A download and an upload, waiting for the first answer or for the
  next datagram, return \<open>Timeout\<close> after exactly \<open>retries + 1\<close> timeouts.\<close>

theorem client_silence_ends:
  assumes "faults n = []"
  shows "(\<exists>st. drive (get_event wr fl) (Running (GetRequest g 0, n))
       (replicate (unat (op_retries (gt_opts g)) + 1) RxTimeout) = Done (Inl (TimedOut (op_retries (gt_opts g)))) st)
    \<and> (\<exists>st. drive (get_event wr fl) (Running (GetData g 0, n))
       (replicate (unat (op_retries (gt_opts g)) + 1) RxTimeout) = Done (Inl (TimedOut (op_retries (gt_opts g)))) st)
    \<and> (\<exists>st. drive (put_event rd) (Running (PutRequest s 0, n))
       (replicate (unat (op_retries (pt_opts s)) + 1) RxTimeout) = Done (Inl (TimedOut (op_retries (pt_opts s)))) st)
    \<and> (\<exists>st. drive (put_event rd) (Running (PutData s 0, n))
       (replicate (unat (op_retries (pt_opts s)) + 1) RxTimeout) = Done (Inl (TimedOut (op_retries (pt_opts s)))) st)"
  using get_silence_ends [OF assms, of wr fl g] put_request_retry.silence_ends [of n 0 s rd]
    put_retry.silence_ends [of n 0 s rd] assms
  by simp

theorem client_silence_ends_witness:
  "(\<exists>st. drive (get_event vec_write vec_flush)
      (Running (GetRequest (getter_new (client_options_default\<lparr>op_retries := 1\<rparr>) (V4 1 69) [97]
        (receiver_new (SinkVec []) Octet)) 0, net_new []))
      [RxTimeout, RxTimeout] = Done (Inl (TimedOut 1)) st)
   \<and> (\<exists>st. drive (put_event vec_read)
      (Running (PutRequest (putter_new (client_options_default\<lparr>op_retries := 1\<rparr>) (V4 1 69) [97]
        (put_sender_new (SrcSlice [1, 2] 0) Octet) (Some 2)) 0, net_new []))
      [RxTimeout, RxTimeout] = Done (Inl (TimedOut 1)) st)"
  using client_silence_ends [of "net_new []" vec_write vec_flush
      "getter_new (client_options_default\<lparr>op_retries := 1\<rparr>) (V4 1 69) [97] (receiver_new (SinkVec []) Octet)"
      vec_read "putter_new (client_options_default\<lparr>op_retries := 1\<rparr>) (V4 1 69) [97]
        (put_sender_new (SrcSlice [1, 2] 0) Octet) (Some 2)"]
  by (simp add: net_new_def putter_new_def getter_new_def Let_def numeral_2_eq_2 del: drive.simps)

end
