(* ===== verification/Client_Main.thy ===== *)
theory Client_Main
  imports Client_Put
begin

text \<open>
  The client's public interface: \<open>Client\<close>, \<open>ClientBuilder\<close> and the four transfer methods
  (\<^verbatim>\<open>client.rs\<close>). Opening files, their length and binding the socket are parameters.
\<close>

record client =
  cl_server :: sockaddr
  cl_options :: client_options

definition client_new :: "sockaddr \<Rightarrow> client" where
  "client_new server = \<lparr>cl_server = server, cl_options = client_options_default\<rparr>"

definition client_with_options :: "sockaddr \<Rightarrow> client_options \<Rightarrow> client" where
  "client_with_options server options = \<lparr>cl_server = server, cl_options = options\<rparr>"

subsection \<open>The builder\<close>

record client_builder =
  cb_options :: client_options

definition client_builder_new :: client_builder where
  "client_builder_new = \<lparr>cb_options = client_options_default\<rparr>"

definition cb_mode :: "mode \<Rightarrow> client_builder \<Rightarrow> client_builder" where
  "cb_mode m b = b\<lparr>cb_options := (cb_options b)\<lparr>op_mode := m\<rparr>\<rparr>"

definition cb_blksize :: "u16 \<Rightarrow> client_builder \<Rightarrow> client_builder" where
  "cb_blksize n b = b\<lparr>cb_options := (cb_options b)\<lparr>op_blksize := Some n\<rparr>\<rparr>"

definition cb_timeout :: "duration \<Rightarrow> client_builder \<Rightarrow> client_builder" where
  "cb_timeout d b = b\<lparr>cb_options := (cb_options b)\<lparr>op_timeout := d\<rparr>\<rparr>"

definition cb_negotiate_timeout :: "u8 \<Rightarrow> client_builder \<Rightarrow> client_builder" where
  "cb_negotiate_timeout secs b = b\<lparr>cb_options := (cb_options b)\<lparr>op_timeout_secs := Some secs\<rparr>\<rparr>"

definition cb_windowsize :: "u16 \<Rightarrow> client_builder \<Rightarrow> client_builder" where
  "cb_windowsize n b = b\<lparr>cb_options := (cb_options b)\<lparr>op_windowsize := Some n\<rparr>\<rparr>"

definition cb_request_tsize :: "bool \<Rightarrow> client_builder \<Rightarrow> client_builder" where
  "cb_request_tsize yes b = b\<lparr>cb_options := (cb_options b)\<lparr>op_request_tsize := yes\<rparr>\<rparr>"

definition cb_retries :: "u32 \<Rightarrow> client_builder \<Rightarrow> client_builder" where
  "cb_retries n b = b\<lparr>cb_options := (cb_options b)\<lparr>op_retries := n\<rparr>\<rparr>"

definition cb_build :: "sockaddr \<Rightarrow> client_builder \<Rightarrow> client" where
  "cb_build server b = \<lparr>cl_server = server, cl_options = cb_options b\<rparr>"

lemmas cb_defs = client_builder_new_def cb_mode_def cb_blksize_def cb_timeout_def
  cb_negotiate_timeout_def cb_windowsize_def cb_request_tsize_def cb_retries_def cb_build_def

subsection \<open>The transfers\<close>

text \<open>A method that fails before its task exists returns the error at once (\<open>Inl\<close>).\<close>

definition client_get ::
  "(sockaddr \<Rightarrow> io_error + unit) \<Rightarrow> (bytes \<Rightarrow> io_error + 'f) \<Rightarrow> client \<Rightarrow> str \<Rightarrow> bytes \<Rightarrow> net \<Rightarrow>
   error + ('f get_state, u64) progress" where
  "client_get bnd opn c remote local n =
     (case receiver_new_file opn local (op_mode (cl_options c)) of
        Inl e \<Rightarrow> Inl e
      | Inr receiver \<Rightarrow> Inr (do_get bnd (cl_options c) (cl_server c) remote receiver n))"

definition client_put ::
  "(sockaddr \<Rightarrow> io_error + unit) \<Rightarrow> (bytes \<Rightarrow> io_error + 'f) \<Rightarrow> ('f \<Rightarrow> io_error + u64) \<Rightarrow> client \<Rightarrow> str \<Rightarrow>
   bytes \<Rightarrow> net \<Rightarrow> error + ('f put_state, u64) progress" where
  "client_put bnd opn flen c remote local n =
     (case opn local of
        Inl e \<Rightarrow> Inl (Io e)
      | Inr file \<Rightarrow>
          (case flen file of
             Inl e \<Rightarrow> Inl (Io e)
           | Inr sz \<Rightarrow>
               Inr (do_put bnd (cl_options c) (cl_server c) remote
                      (put_sender_new (SrcFile file) (op_mode (cl_options c))) (Some sz) n)))"

definition client_get_to_vec ::
  "(sockaddr \<Rightarrow> io_error + unit) \<Rightarrow> client \<Rightarrow> str \<Rightarrow> net \<Rightarrow> ('f get_state, u64) progress" where
  "client_get_to_vec bnd c remote n =
     do_get bnd (cl_options c) (cl_server c) remote (receiver_new_vec (op_mode (cl_options c))) n"

text \<open>What \<open>get_to_vec\<close> returns when its task has; the outer \<open>None\<close> is the \<open>unreachable!\<close>.\<close>

definition get_to_vec_result :: "error + u64 \<Rightarrow> 'f get_state \<Rightarrow> (error + bytes) option" where
  "get_to_vec_result r st =
     (case r of
        Inl e \<Rightarrow> Some (Inl e)
      | Inr _ \<Rightarrow>
          (case fst st of
             GetData s _ \<Rightarrow> map_option Inr (into_vec (gt_writer s))
           | GetRequest s _ \<Rightarrow> map_option Inr (into_vec (gt_writer s))
           | GetClosed \<Rightarrow> None))"

definition client_put_bytes ::
  "(sockaddr \<Rightarrow> io_error + unit) \<Rightarrow> client \<Rightarrow> str \<Rightarrow> bytes \<Rightarrow> net \<Rightarrow> ('f put_state, u64) progress" where
  "client_put_bytes bnd c remote data n =
     do_put bnd (cl_options c) (cl_server c) remote
       (put_sender_new (SrcSlice data 0) (op_mode (cl_options c))) (Some (of_nat (length data))) n"

subsection \<open>A download into memory stays in memory\<close>

fun is_vec :: "'f sink \<Rightarrow> bool" where
  "is_vec (SinkVec _) = True"
| "is_vec (SinkFile _) = False"

definition get_in_memory :: "'f get_state \<Rightarrow> bool" where
  "get_in_memory st \<longleftrightarrow>
     (case fst st of
        GetRequest s _ \<Rightarrow> is_vec (rc_sink (gt_writer s))
      | GetData s _ \<Rightarrow> is_vec (rc_sink (gt_writer s))
      | GetClosed \<Rightarrow> False)"

lemma write_raw_vec: "write_raw wr w b = (r, w') \<Longrightarrow> is_vec (rc_sink w) \<Longrightarrow> is_vec (rc_sink w')"
  by (cases "rc_sink w") (auto simp: write_raw_def)

lemma write_block_vec:
  "receiver_write_block wr w d = (r, w') \<Longrightarrow> is_vec (rc_sink w) \<Longrightarrow> is_vec (rc_sink w')"
  by (auto simp: receiver_write_block_def dest: write_raw_vec split: prod.splits)

lemma sink_flush_vec: "sink_flush fl k = (r, k') \<Longrightarrow> is_vec k \<Longrightarrow> is_vec k'"
  by (cases k) auto

lemma finish_vec:
  assumes "receiver_finish wr fl w = (r, w')" "is_vec (rc_sink w)"
  shows "is_vec (rc_sink w')"
proof -
  obtain dec tail where d: "decode_tail (rc_decoder w) = (dec, tail)" by fastforce
  obtain q w2 where q: "(if tail \<noteq> [] then write_raw wr (w\<lparr>rc_decoder := dec\<rparr>) tail
      else (Inr (), w\<lparr>rc_decoder := dec\<rparr>)) = (q, w2)" by fastforce
  with assms(2) have "is_vec (rc_sink w2)"
    using write_raw_vec [of wr "w\<lparr>rc_decoder := dec\<rparr>" tail q w2] by (auto split: if_splits)
  with assms(1) d q show ?thesis
    by (cases q) (auto simp: receiver_finish_def Let_def dest: sink_flush_vec split: prod.splits sum.splits)
qed

lemma get_ack_memory:
  "is_vec (rc_sink (gt_writer s)) \<Longrightarrow> is_vec (rc_sink (gt_writer after)) \<Longrightarrow>
   get_in_memory (state_of (get_ack b a n s after))"
  by (auto simp: get_ack_def get_loop_def get_in_memory_def split: prod.splits sum.splits)

lemma get_final_memory:
  "is_vec (rc_sink (gt_writer s)) \<Longrightarrow> get_in_memory (state_of (get_final wr fl b s n))"
  by (auto simp: get_final_def get_in_memory_def dest: finish_vec split: prod.splits sum.splits)

lemma get_in_order_memory:
  assumes "is_vec (rc_sink (gt_writer s))"
  shows "get_in_memory (state_of (get_in_order wr fl s b d n))"
proof -
  obtain r w where w: "receiver_write_block wr (gt_writer s) d = (r, w)" by fastforce
  with assms have v: "is_vec (rc_sink w)" using write_block_vec by blast
  then show ?thesis
    using w by (cases r) (auto simp: get_in_order_def Let_def get_loop_def get_in_memory_def [of "(_, _)"]
        intro: get_ack_memory get_final_memory)
qed

lemma get_first_data_memory:
  assumes "is_vec (rc_sink (gt_writer s))"
  shows "get_in_memory (state_of (get_first_data wr fl s b d n))"
proof -
  obtain r w where w: "receiver_write_block wr (gt_writer s) d = (r, w)" by fastforce
  with assms have v: "is_vec (rc_sink w)" using write_block_vec by blast
  then show ?thesis
    using w assms by (cases r) (auto simp: get_first_data_def Let_def get_loop_def get_in_memory_def [of "(_, _)"]
        intro: get_ack_memory get_final_memory)
qed

lemma get_event_memory:
  assumes "get_in_memory st"
  shows "get_in_memory (state_of (get_event wr fl ev st))"
proof (cases st)
  case (Pair task n)
  show ?thesis
  proof (cases task)
    case (GetRequest s a)
    with assms Pair have v: "is_vec (rc_sink (gt_writer s))" by (simp add: get_in_memory_def)
    then have "get_in_memory (state_of (get_retry s a n))"
      by (auto simp: get_retry_def get_send_request_def get_in_memory_def split: prod.splits sum.splits)
    with v get_ack_memory [of "s\<lparr>gt_peer := _, gt_neg := _\<rparr>"] get_first_data_memory [of "s\<lparr>gt_peer := _\<rparr>"]
    have "get_in_memory (state_of (get_request_event wr fl ev s a n))"
      by (simp add: get_request_event_def Let_def get_in_memory_def [of "(_, _)"]
          split: rx.split sum.split packet.split)
    with Pair GetRequest show ?thesis by simp
  next
    case (GetData s a)
    with assms Pair have v: "is_vec (rc_sink (gt_writer s))" by (simp add: get_in_memory_def)
    obtain r n' where rx: "recv_one (gt_peer s) ev n = (r, n')" by fastforce
    from v rx have "get_in_memory (state_of (get_data_event wr fl ev s a n))"
      using get_ack_memory [OF v, of "s\<lparr>gt_blocks_in_window := 0\<rparr>"] get_ack_memory [OF v v]
        get_in_order_memory [OF v]
      by (cases r) (simp_all add: get_data_event_def get_loop_def get_in_memory_def [of "(_, _)"]
          split: sum.split packet.split)
    with Pair GetData show ?thesis by simp
  next
    case GetClosed
    with assms Pair show ?thesis by simp
  qed
qed

lemma do_get_memory:
  "do_get bnd opts server remote (receiver_new_vec m) n = Running st \<Longrightarrow> get_in_memory st"
  by (auto simp: do_get_unfold get_send_request_def getter_new_def Let_def get_in_memory_def
      receiver_new_vec_def receiver_new_def split: sum.splits prod.splits)

lemma do_get_not_ok: "do_get bnd opts server remote w n \<noteq> Done (Inr r) st"
  by (auto simp: do_get_unfold get_send_request_def split: sum.splits prod.splits)

subsection \<open>Properties\<close>

text \<open>\<open>get_to_vec\<close> never reaches the \<open>unreachable!\<close> of \<open>into_vec\<close>: however the download ends, it
  returns an error or the vector.\<close>

lemma get_to_vec_total:
  fixes wr :: "'f writer"
  assumes "drive (get_event wr fl) (client_get_to_vec bnd c remote n) evs = Done r st"
  shows "get_to_vec_result r st \<noteq> None"
proof (cases r)
  case (Inl e)
  then show ?thesis by (simp add: get_to_vec_result_def)
next
  case (Inr x)
  let ?p = "client_get_to_vec bnd c remote n :: ('f get_state, u64) progress"
  have "\<exists>s. ?p = Running s"
  proof (cases ?p)
    case (Done q s)
    with assms Inr show ?thesis by (simp add: client_get_to_vec_def do_get_not_ok)
  next
    case (Panicked s)
    with assms show ?thesis by simp
  qed simp
  then obtain s where s: "?p = Running s" by blast
  then have "get_in_memory (state_of ?p)"
    using do_get_memory [of bnd "cl_options c" "cl_server c" remote "op_mode (cl_options c)" n s]
    by (simp add: client_get_to_vec_def)
  then have "get_in_memory (state_of (drive (get_event wr fl) ?p evs))"
    by (rule drive_invariant) (rule get_event_memory)
  with assms Inr show ?thesis
    by (auto simp: get_in_memory_def get_to_vec_result_def into_vec_def
        split: get_task.splits sink.splits)
qed

end
