(* ===== verification/End_To_End.thy ===== *)
theory End_To_End
  imports Server_Main Client_Main
begin

text \<open>
  A whole transfer: the client's task, the server's task that its request started, and the
  network between them. \<open>download\<close> and \<open>upload\<close> collect what both tasks run with; each is a
  \<open>transfer\<close>, from which the correctness of a returned transfer follows.
\<close>

abbreviation sent :: "'t \<times> net \<Rightarrow> datagram list" where
  "sent st \<equiv> outbox (snd st)"

lemma outbox_net_new: "outbox (net_new fs) = []"
  by (simp add: net_new_def)

text \<open>
  The 16-bit block numbers identify a block as long as the blocks and one window have
  distinct numbers.
\<close>

definition transfer_fits :: "mode \<Rightarrow> negotiated \<Rightarrow> bytes \<Rightarrow> bool" where
  "transfer_fits md neg src \<longleftrightarrow>
     length (encode_all (encoder_for md) src) div unat (ng_blksize neg) + 2 + unat (ng_windowsize neg)
       \<le> 65536"

abbreviation wire_blocks :: "mode \<Rightarrow> negotiated \<Rightarrow> bytes \<Rightarrow> bytes list" where
  "wire_blocks md neg src \<equiv> blocks_of (unat (ng_blksize neg)) (encode_all (encoder_for md) src)"

lemma wire_blocks_props:
  assumes "negotiated_ok neg"
  shows "carries md (unat (ng_blksize neg)) (wire_blocks md neg src) src"
    "\<forall>b \<in> set (wire_blocks md neg src). length b \<le> 65464"
    "transfer_fits md neg src \<Longrightarrow> length (wire_blocks md neg src) + 1 + unat (ng_windowsize neg) \<le> 65536"
    "transfer_fits md neg src \<Longrightarrow> length (wire_blocks md neg src) < 65536"
proof -
  have k: "0 < unat (ng_blksize neg)" "unat (ng_blksize neg) \<le> 65464"
    using assms negotiated_bsize_pos by (auto simp: negotiated_ok_def MAX_BLOCK_SIZE_def word_le_nat_alt)
  show c: "carries md (unat (ng_blksize neg)) (wire_blocks md neg src) src"
    using carries_blocks_of [OF k(1)] .
  then show "\<forall>b \<in> set (wire_blocks md neg src). length b \<le> 65464"
    using k(2) unfolding carries_def by (meson le_trans)
  show "transfer_fits md neg src \<Longrightarrow> length (wire_blocks md neg src) + 1 + unat (ng_windowsize neg) \<le> 65536"
    "transfer_fits md neg src \<Longrightarrow> length (wire_blocks md neg src) < 65536"
    using length_blocks_of [OF k(1), of "encode_all (encoder_for md) src"]
    by (simp_all add: transfer_fits_def)
qed

subsection \<open>Downloads\<close>

locale download =
  src: byte_source rd remaining + dst: byte_sink wr fl contents
  for rd :: "'f reader" and remaining :: "'f \<Rightarrow> bytes"
    and wr :: "'g writer" and fl :: "'g flusher" and contents :: "'g \<Rightarrow> bytes" +
  fixes sys :: "'f os" and md :: mode and src :: bytes and oack :: option_set and neg :: negotiated
    and sa :: sockaddr and ra :: sockaddr
  assumes rd_sys: "os_read sys = rd"
    and oack_ok: "option_set_ok oack" and merged: "merge_oack negotiated_defaults oack = neg"
    and fits: "transfer_fits md neg src"
begin

abbreviation "B \<equiv> wire_blocks md neg src"
abbreviation "W \<equiv> unat (ng_windowsize neg)"

lemma neg_ok: "negotiated_ok neg"
  using merge_oack_ok [OF oack_ok negotiated_defaults_ok] merged by simp

lemmas B_props = wire_blocks_props [OF neg_ok, of md src]

definition dl_srel :: "nat \<Rightarrow> nat \<Rightarrow> 'f conn_state \<Rightarrow> bool" where
  "dl_srel lo hi st \<longleftrightarrow> (\<exists>t. fst st = ConnRrq t \<and> src.rrq_srel B oack ra neg lo hi (t, snd st))"

text \<open>How the client's side ends: its sink holds the file, and it has acknowledged the last block.\<close>

definition dl_end :: "u64 \<Rightarrow> 'g get_state \<Rightarrow> bool" where
  "dl_end r st \<longleftrightarrow> dst.get_result src r st \<and> (sa, encode (Ack (of_nat (length B)))) \<in> set (sent st)"

lemma dl_sender_step:
  assumes "dl_srel lo hi st" "lo \<le> M" "not_from ra ev \<or> (\<exists>d. ev = RxFrom ra d \<and> genuine_ack M d)"
  shows "\<exists>lo' hi' new. lo \<le> lo' \<and> lo' \<le> M \<and> hi \<le> hi' \<and> hi' \<le> length B + 1 \<and> hi' - lo' \<le> W \<and> (M = 0 \<longrightarrow> hi' = 1)
        \<and> (\<forall>s'. conn_event sys ev st = Running s' \<longrightarrow> dl_srel lo' hi' s')
        \<and> (\<forall>r s'. conn_event sys ev st = Done (Inr r) s' \<longrightarrow> lo' = length B + 1)
        \<and> sent (state_of (conn_event sys ev st)) = sent st @ new
        \<and> (\<forall>d. (ra, d) \<in> set new \<longrightarrow> sender_promise B oack hi' d)"
proof -
  obtain t n where st: "st = (ConnRrq t, n)" and rel: "src.rrq_srel B oack ra neg lo hi (t, n)"
    using assms(1) by (cases st) (auto simp: dl_srel_def)
  have "\<forall>d. ev = RxFrom ra d \<longrightarrow> genuine_ack M d" using assms(3) by (auto simp: not_from_iff)
  from src.rrq_event_post [OF rel assms(2) B_props(3) [OF fits] negotiated_window_pos [OF neg_ok] this]
  obtain lo' hi' where lo': "lo \<le> lo'" "lo' \<le> M" "hi \<le> hi'" "M = 0 \<longrightarrow> hi' = 1"
    and post: "src.rrq_post B oack ra neg lo' hi' n (rrq_event rd ev (t, n))"
    by auto
  let ?p = "rrq_event rd ev (t, n)"
  obtain new where new: "sent (state_of ?p) = outbox n @ new"
    "\<forall>x \<in> set new. fst x = ra \<longrightarrow> rrq_datagram B oack hi' (snd x)"
    using post by (auto simp: src.rrq_post_def rrq_sends_def sends_only_def)
  have "\<forall>d. (ra, d) \<in> set new \<longrightarrow> sender_promise B oack hi' d"
    using new(2) rrq_datagram_genuine [OF _ oack_ok B_props(2)] by auto
  moreover have "\<forall>s'. conn_event sys ev st = Running s' \<longrightarrow> dl_srel lo' hi' s'"
    "\<forall>r s'. conn_event sys ev st = Done (Inr r) s' \<longrightarrow> lo' = length B + 1"
    using post st rd_sys by (auto simp: src.rrq_post_def dl_srel_def)
  moreover have "sent (state_of (conn_event sys ev st)) = sent st @ new"
    using new(1) st rd_sys by simp
  moreover have "hi' \<le> length B + 1" "hi' - lo' \<le> W" using post by (simp_all add: src.rrq_post_def)
  ultimately show ?thesis using lo' by blast
qed

lemma dl_receiver_step:
  assumes "dst.get_srel md B oack sa neg M st"
    and "M \<le> hi" "M = 0 \<longrightarrow> hi = 1"
    and "get_env sa st ev \<or> (\<exists>d. ev = RxFrom sa d \<and> sender_promise B oack hi d)"
  shows "\<exists>M' new. M \<le> M' \<and> M' \<le> hi
        \<and> (\<forall>t'. get_event wr fl ev st = Running t' \<longrightarrow> dst.get_srel md B oack sa neg M' t')
        \<and> (\<forall>t'. get_event wr fl ev st \<noteq> Panicked t')
        \<and> (\<forall>r t'. get_event wr fl ev st = Done r t' \<longrightarrow> M' = length B + 1 \<longrightarrow> True)
        \<and> (\<forall>r t'. get_event wr fl ev st = Done (Inr r) t' \<longrightarrow>
             M' = length B + 1 \<and> dl_end r t')
        \<and> sent (state_of (get_event wr fl ev st)) = sent st @ new
        \<and> (\<forall>d. (sa, d) \<in> set new \<longrightarrow> genuine_ack M' d)"
proof -
  obtain M' where M': "M \<le> M'" "M' \<le> hi" and post: "dst.get_post md B src oack sa neg M' (snd st) (get_event wr fl ev st)"
    using dst.get_event_post [OF assms(1) B_props(1) B_props(4) [OF fits] merged assms(4,2,3)] by blast
  obtain new where "sent (state_of (get_event wr fl ev st)) = sent st @ new"
    "\<forall>x \<in> set new. fst x = sa \<longrightarrow> genuine_ack M' (snd x)"
    using post by (auto simp: dst.get_post_def get_sends_def sends_only_def)
  with M' post show ?thesis
    unfolding dst.get_post_def dl_end_def by (intro exI [of _ M'] exI [of _ new]) auto
qed

lemma dl_rrel_bound: "dst.get_srel md B oack sa neg M t \<Longrightarrow> M < length B + 1"
  by (auto simp: dst.get_srel_def dst.get_rel_def split: get_task.splits if_splits)

end

sublocale download \<subseteq> dl: transfer "conn_event sys" "get_event wr fl" sent sent sa ra
  "\<lambda>_. not_from ra" "get_env sa" "sender_promise B oack" genuine_ack dl_srel
  "dst.get_srel md B oack sa neg" "\<lambda>_. True" W "length B + 1" dl_end
  by unfold_locales
    (rule genuine_ack_mono sender_promise_mono dl_rrel_bound dl_sender_step dl_receiver_step, assumption+)+

context download begin

abbreviation "start \<equiv> (if option_set_is_empty oack then 1 else 0 :: nat)"

lemma dl_serve_post:
  assumes "resolve (cf_root cfg) remote = Inr path" "os_open sys path = Inr file" "remaining file = src"
    and "os_len sys file = Inr len" "negotiate cfg options (Some len) = Some (oack, neg)"
  shows "\<exists>hi \<ge> 1. (start = 0 \<longrightarrow> hi = 1) \<and> src.rrq_post B oack ra neg start hi n
    (serve_rrq rd (os_open sys) (os_len sys) cfg ra remote md options n)"
proof -
  let ?s = "rrq_sender_new ra cfg neg file md"
  have "src.rrq_rel B 1 1 ?s"
    using src.rrq_sender_new_rel [OF negotiated_bsize_pos [OF neg_ok], where f = "file" and m = md] assms(3)
    by simp
  then have new: "src.rrq_rel B 1 1 ?s" "rs_peer ?s = ra" "rs_neg ?s = neg" by (simp_all add: rrq_sender_new_def)
  have "\<exists>hi \<ge> 1. (start = 0 \<longrightarrow> hi = 1) \<and> src.rrq_post B oack ra neg start hi n
      (if \<not> option_set_is_empty oack then rrq_send_oack ?s oack 0 n else rrq_next_window rd ?s n)"
  proof (cases "option_set_is_empty oack")
    case True
    obtain hi where "1 \<le> hi" "src.rrq_post B oack ra neg 1 hi n (rrq_next_window rd ?s n)"
      using src.rrq_next_window_post [of B 1 1 ?s oack n] new negotiated_window_pos [OF neg_ok] by auto
    with True show ?thesis by (intro exI [of _ hi]) simp_all
  next
    case False
    then have "src.rrq_post B oack ra neg 0 1 n (rrq_send_oack ?s oack 0 n)"
      using src.rrq_send_oack_post [of B ?s oack n 0] new negotiated_window_pos [OF neg_ok] by simp
    with False show ?thesis by (intro exI [of _ 1]) simp_all
  qed
  then show ?thesis using assms by (simp add: serve_rrq_def Let_def)
qed

lemma dl_start_sender:
  assumes "resolve (cf_root cfg) remote = Inr path" "os_open sys path = Inr file" "remaining file = src"
    and "os_len sys file = Inr len" "negotiate cfg options (Some len) = Some (oack, neg)"
    and "outbox n = []" "decode frame = Inr (Rrq remote md options)"
  shows "\<exists>hi \<ge> 1. (start = 0 \<longrightarrow> hi = 1) \<and> hi \<le> length B + 1 \<and> hi - start \<le> W
    \<and> (\<forall>s. handle_initial sys cfg ra frame n = Running s \<longrightarrow> dl_srel start hi s)
    \<and> (\<forall>r s. handle_initial sys cfg ra frame n = Done (Inr r) s \<longrightarrow> start = length B + 1)
    \<and> (\<forall>d. (ra, d) \<in> set (sent (state_of (handle_initial sys cfg ra frame n)))
         \<longrightarrow> sender_promise B oack hi d)"
proof -
  obtain hi where hi: "1 \<le> hi" "start = 0 \<longrightarrow> hi = 1" and post: "src.rrq_post B oack ra neg start hi n
      (serve_rrq rd (os_open sys) (os_len sys) cfg ra remote md options n)" (is "src.rrq_post _ _ _ _ _ _ _ ?p")
    using dl_serve_post [OF assms(1-5)] by blast
  have "\<forall>x \<in> set (sent (state_of ?p)). fst x = ra \<longrightarrow> rrq_datagram B oack hi (snd x)"
    using post assms(6) by (auto simp: src.rrq_post_def rrq_sends_def sends_only_def)
  then have G: "\<forall>d. (ra, d) \<in> set (sent (state_of ?p)) \<longrightarrow> sender_promise B oack hi d"
    using rrq_datagram_genuine [OF _ oack_ok B_props(2)] by auto
  show ?thesis
  proof (cases "os_bind sys (bind_addr_for (cf_listen cfg))")
    case (Inl e)
    with assms(6,7) negotiated_window_pos [OF neg_ok] show ?thesis
      by (intro exI [of _ 1]) (simp_all add: handle_initial_def)
  next
    case (Inr a)
    then have "handle_initial sys cfg ra frame n = map_state (apfst ConnRrq) ?p"
      using assms(7) rd_sys by (simp add: handle_initial_def)
    with hi post G show ?thesis
      by (intro exI [of _ hi]) (auto simp: src.rrq_post_def dl_srel_def)
  qed
qed

lemma dl_start_receiver:
  assumes "sink_contents contents k = []" "outbox n = []" "op_mode opts = md"
    and req: "negotiate cfg (build_request_options opts None) (Some len) = Some (oack, neg)"
    and Q: "Q = do_get bnd opts server remote (receiver_new k md) n"
  shows "(\<forall>t. Q = Running t \<longrightarrow> dst.get_srel md B oack sa neg start t) \<and> (\<forall>t. Q \<noteq> Panicked t)
    \<and> (\<forall>r t. Q \<noteq> Done (Inr r) t) \<and> (\<forall>d. (sa, d) \<in> set (sent (state_of Q)) \<longrightarrow> genuine_ack start d)"
proof -
  let ?g = "getter_new opts server remote (receiver_new k md)"
  obtain r n' where s: "send_to (gt_server ?g) (gt_request ?g) n = (r, n')" by fastforce
  have "genuine_ack start (gt_request ?g)"
    using genuine_ack_packet [of "Rrq remote (op_mode opts) (build_request_options opts None)" start]
    by (simp add: getter_new_def Let_def)
  then have "\<forall>d. (sa, d) \<in> set (outbox n') \<longrightarrow> genuine_ack start d"
    using send_to_outbox [of "gt_server ?g" "gt_request ?g" n] s assms(2) by auto
  moreover have "dst.get_srel md B oack sa neg start (GetRequest ?g 0, n'')" for n''
    using negotiate_nothing [of "build_request_options opts None" cfg "Some len"] req
    by (intro dst.getter_new_srel [OF dst.receiver_new_at [OF assms(1)]]) auto
  ultimately show ?thesis
    using s assms(2) unfolding Q
    by (auto simp: do_get_unfold get_send_request_def split: sum.splits)
qed

text \<open>The system of a download as it starts.\<close>

lemma dl_start_inv:
  assumes "resolve (cf_root cfg) remote = Inr path" "os_open sys path = Inr file" "remaining file = src"
    and "os_len sys file = Inr len" "negotiate cfg (build_request_options opts None) (Some len) = Some (oack, neg)"
    and "outbox n = []" "decode frame = Inr (Rrq remote md (build_request_options opts None))"
    and "sink_contents contents k = []" "outbox n' = []" "op_mode opts = md"
  shows "\<exists>hi \<ge> 1. dl.sys_inv start start hi (handle_initial sys cfg ra frame n,
    do_get bnd opts server remote (receiver_new k md) n')"
proof -
  obtain hi where "1 \<le> hi" "start = 0 \<longrightarrow> hi = 1" "hi \<le> length B + 1" "hi - start \<le> W"
    "\<forall>s. handle_initial sys cfg ra frame n = Running s \<longrightarrow> dl_srel start hi s"
    "\<forall>r s. handle_initial sys cfg ra frame n = Done (Inr r) s \<longrightarrow> start = length B + 1"
    "\<forall>d. (ra, d) \<in> set (sent (state_of (handle_initial sys cfg ra frame n))) \<longrightarrow> sender_promise B oack hi d"
    using dl_start_sender [OF assms(1-7)] by (elim exE conjE) (rule that)
  then show ?thesis
    using dl_start_receiver [OF assms(8-10,5) refl, of bnd server remote]
    unfolding dl.sys_inv_def window_ok_def by (intro exI [of _ hi]) simp
qed

text \<open>Every run from such a start ends well for a side that returns without an error.\<close>

abbreviation "dl_run \<equiv> sys_reach (conn_event sys) (get_event wr fl) sent sent sa ra
  (\<lambda>_. not_from ra) (get_env sa)"

lemma dl_received:
  assumes "dl_run S0 (P, Done (Inr r) st)" "\<exists>hi \<ge> 1. dl.sys_inv start start hi S0"
  shows "dst.get_result src r st"
  using assms dl.receiver_result dl_end_def by blast

lemma dl_delivered:
  assumes "dl_run S0 (Done (Inr u) s, Q)" "\<exists>hi \<ge> 1. dl.sys_inv start start hi S0"
  shows "\<exists>q t. Q = Done q t \<and> (\<forall>r. q = Inr r \<longrightarrow> dst.get_result src r t)"
  using assms dl.sender_result dl_end_def by blast

end

text \<open>What a download runs with, from the configuration of both sides.\<close>

lemma downloadI:
  assumes "byte_source (os_read sys) remaining" "byte_sink wr fl contents"
    and "negotiate cfg req (Some len) = Some (oack, neg)" "option_set_ok req" "transfer_fits md neg src"
  shows "download (os_read sys) remaining wr fl contents sys md src oack neg"
  using assms negotiate_set_ok [OF assms(3,4)] negotiate_merge [OF assms(3)]
  by (simp add: download_def download_axioms_def)

lemma decode_request_packet:
  assumes "cstr_ok remote" "client_options_ok opts"
  shows "decode (encode (Rrq remote (op_mode opts) (build_request_options opts sz)))
      = Inr (Rrq remote (op_mode opts) (build_request_options opts sz))"
    "decode (encode (Wrq remote (op_mode opts) (build_request_options opts sz)))
      = Inr (Wrq remote (op_mode opts) (build_request_options opts sz))"
  using assms build_request_options_ok by (simp_all add: decode_encode)

text \<open>
  The two tasks of a download as they start: the server's task on the client's request and the
  client's \<open>do_get\<close>. \<open>got src r st\<close>: the client returned \<open>r\<close> and its sink holds \<open>src\<close>.
\<close>

definition download_start where
  "download_start sys cfg ra bnd opts server remote k fs fs' =
     (handle_initial sys cfg ra (encode (Rrq remote (op_mode opts) (build_request_options opts None))) (net_new fs),
      do_get bnd opts server remote (receiver_new k (op_mode opts)) (net_new fs'))"

definition got :: "('g \<Rightarrow> bytes) \<Rightarrow> bytes \<Rightarrow> u64 \<Rightarrow> 'g get_state \<Rightarrow> bool" where
  "got contents src r st \<longleftrightarrow> (\<exists>s a n. st = (GetData s a, n)
     \<and> sink_contents contents (rc_sink (gt_writer s)) = src \<and> r = of_nat (length src))"

lemma got_result: "byte_sink wr fl contents \<Longrightarrow> byte_sink.get_result contents src r st \<longleftrightarrow> got contents src r st"
  by (cases st; cases "fst st") (auto simp: byte_sink.get_result_def got_def)

lemma download_runs:
  assumes "byte_source (os_read sys) remaining" "byte_sink wr fl contents"
    and "cstr_ok remote" "client_options_ok opts"
    and "resolve (cf_root cfg) remote = Inr path" "os_open sys path = Inr f" "os_len sys f = Inr len"
    and "negotiate cfg (build_request_options opts None) (Some len) = Some (oack, neg)"
    and "transfer_fits (op_mode opts) neg (remaining f)" "sink_contents contents k = []"
    and "sys_reach (conn_event sys) (get_event wr fl) sent sent sa ra (\<lambda>_. not_from ra) (get_env sa)
      (download_start sys cfg ra bnd opts server remote k fs fs') (P, Q)"
  shows "Q = Done (Inr r) t \<Longrightarrow> got contents (remaining f) r t"
    and "P = Done (Inr u) s \<Longrightarrow> \<exists>q t. Q = Done q t \<and> (\<forall>r. q = Inr r \<longrightarrow> got contents (remaining f) r t)"
proof -
  note dl = downloadI [OF assms(1,2,8) build_request_options_ok [OF assms(4)] assms(9)]
  note start = download.dl_start_inv [OF dl assms(5,6) refl assms(7,8) outbox_net_new
      decode_request_packet(1) [OF assms(3,4)] assms(10) outbox_net_new refl]
  note run = assms(11) [unfolded download_start_def]
  show "got contents (remaining f) r t" if "Q = Done (Inr r) t"
    using download.dl_received [OF dl run [unfolded that] start] by (simp add: got_result [OF assms(2)])
  show "\<exists>q t. Q = Done q t \<and> (\<forall>r. q = Inr r \<longrightarrow> got contents (remaining f) r t)" if "P = Done (Inr u) s"
    using download.dl_delivered [OF dl run [unfolded that] start] by (simp add: got_result [OF assms(2)])
qed

subsection \<open>Uploads\<close>

text \<open>\<open>stored contents src st\<close>: the server's task ran and its file holds \<open>src\<close>.\<close>

definition stored :: "('g \<Rightarrow> bytes) \<Rightarrow> bytes \<Rightarrow> 'g conn_state \<Rightarrow> bool" where
  "stored contents src st \<longleftrightarrow> (\<exists>s a n. st = (ConnWrq (WrqRun s a), n) \<and> contents (wr_file s) = src)"

locale upload =
  src: byte_source rd remaining + dst: byte_sink wr fl contents
  for rd :: "'f reader" and remaining :: "'f \<Rightarrow> bytes"
    and wr :: "'g writer" and fl :: "'g flusher" and contents :: "'g \<Rightarrow> bytes" +
  fixes sys :: "'g os" and md :: mode and src :: bytes and oack :: option_set and neg :: negotiated
    and sa :: sockaddr and ra :: sockaddr
  assumes wr_sys: "os_write sys = wr" "os_flush sys = fl"
    and oack_ok: "option_set_ok oack" and merged: "merge_oack negotiated_defaults oack = neg"
    and fits: "transfer_fits md neg src"
begin

abbreviation "B \<equiv> wire_blocks md neg src"
abbreviation "K \<equiv> unat (ng_blksize neg)"
abbreviation "W \<equiv> unat (ng_windowsize neg)"

lemma neg_ok: "negotiated_ok neg"
  using merge_oack_ok [OF oack_ok negotiated_defaults_ok] merged by simp

lemmas B_props = wire_blocks_props [OF neg_ok, of md src]

definition ul_rrel :: "nat \<Rightarrow> 'g conn_state \<Rightarrow> bool" where
  "ul_rrel M st \<longleftrightarrow> (\<exists>t m. M = m + 1 \<and> fst st = ConnWrq t \<and> dst.wrq_srel md B oack sa neg m (t, snd st))"

definition ul_end :: "'g conn_state \<Rightarrow> bool" where
  "ul_end st \<longleftrightarrow> (\<exists>t. fst st = ConnWrq t \<and> dst.wrq_holds src (t, snd st))
     \<and> (sa, encode (Ack (of_nat (length B)))) \<in> set (sent st)"

definition ul_holds :: "'g conn_state \<Rightarrow> bool" where
  "ul_holds st \<longleftrightarrow> (\<exists>t. fst st = ConnWrq t \<and> dst.wrq_holds src (t, snd st))"

lemma ul_sender_step:
  assumes "src.put_srel B W oack ra K lo hi st" "lo \<le> M"
    and "put_env ra st ev \<or> (\<exists>d. ev = RxFrom ra d \<and> receiver_promise oack M d)"
  shows "\<exists>lo' hi' new. lo \<le> lo' \<and> lo' \<le> M \<and> hi \<le> hi' \<and> hi' \<le> length B + 1 \<and> hi' - lo' \<le> W \<and> (M = 0 \<longrightarrow> hi' = 1)
        \<and> (\<forall>s'. put_event rd ev st = Running s' \<longrightarrow> src.put_srel B W oack ra K lo' hi' s')
        \<and> (\<forall>r s'. put_event rd ev st = Done (Inr r) s' \<longrightarrow> lo' = length B + 1)
        \<and> sent (state_of (put_event rd ev st)) = sent st @ new
        \<and> (\<forall>d. (ra, d) \<in> set new \<longrightarrow> genuine_data B hi' d)"
proof -
  obtain lo' hi' where lo': "lo \<le> lo'" "lo' \<le> M" "hi \<le> hi'" and post: "src.put_post B W oack ra K lo' hi' (snd st) (put_event rd ev st)"
    using src.put_event_post [OF assms(1,2) B_props(3) [OF fits] B_props(2) assms(3)]
    unfolding Bex_def atLeastAtMost_iff by blast
  obtain new where "sent (state_of (put_event rd ev st)) = sent st @ new"
    "\<forall>x \<in> set new. fst x = ra \<longrightarrow> genuine_data B hi' (snd x)"
    using post by (auto simp: src.put_post_def put_sends_def sends_only_def)
  moreover have "0 < M"
    using assms(1,2) src.put_rel_bound [of B W lo hi]
    by (fastforce simp: src.put_srel_def split: put_task.splits)
  ultimately show ?thesis
    using lo' post unfolding src.put_post_def by (intro exI [of _ lo'] exI [of _ hi'] exI [of _ new]) auto
qed

lemma ul_receiver_step:
  assumes "ul_rrel M st" "M \<le> hi" "not_from sa ev \<or> (\<exists>d. ev = RxFrom sa d \<and> genuine_data B hi d)"
  shows "\<exists>M' new. M \<le> M' \<and> M' \<le> hi
        \<and> (\<forall>t'. conn_event sys ev st = Running t' \<longrightarrow> ul_rrel M' t')
        \<and> (\<forall>t'. conn_event sys ev st \<noteq> Panicked t')
        \<and> (\<forall>r t'. conn_event sys ev st = Done r t' \<longrightarrow> M' = length B + 1 \<longrightarrow> ul_holds t')
        \<and> (\<forall>r t'. conn_event sys ev st = Done (Inr r) t' \<longrightarrow> M' = length B + 1 \<and> ul_end t')
        \<and> sent (state_of (conn_event sys ev st)) = sent st @ new
        \<and> (\<forall>d. (sa, d) \<in> set new \<longrightarrow> receiver_promise oack M' d)"
proof -
  obtain t n m where st: "st = (ConnWrq t, n)" and m: "M = m + 1" and rel: "dst.wrq_srel md B oack sa neg m (t, n)"
    using assms(1) by (cases st) (auto simp: ul_rrel_def)
  let ?p = "wrq_event wr fl ev (t, n)"
  have "\<forall>d. ev = RxFrom sa d \<longrightarrow> genuine_data B hi d" using assms(3) by (auto simp: not_from_iff)
  from dst.wrq_event_post [OF rel B_props(1) B_props(4) [OF fits] this] assms(2) m
  obtain m' where m': "m \<le> m'" "m' + 1 \<le> hi" and post: "dst.wrq_post md B src oack sa neg m' n ?p"
    by auto
  obtain new where new: "sent (state_of ?p) = outbox n @ new"
    "\<forall>x \<in> set new. fst x = sa \<longrightarrow> wrq_datagram oack (m' + 1) (snd x)"
    using post by (auto simp: dst.wrq_post_def wrq_sends_def sends_only_def)
  have "\<forall>d. (sa, d) \<in> set new \<longrightarrow> receiver_promise oack (m' + 1) d"
    using new(2) wrq_datagram_genuine [OF _ oack_ok] by auto
  moreover have "sent (state_of (conn_event sys ev st)) = sent st @ new"
    using new(1) st wr_sys by simp
  moreover have "\<forall>t'. conn_event sys ev st = Running t' \<longrightarrow> ul_rrel (m' + 1) t'"
    "\<forall>t'. conn_event sys ev st \<noteq> Panicked t'"
    "\<forall>r t'. conn_event sys ev st = Done r t' \<longrightarrow> m' + 1 = length B + 1 \<longrightarrow> ul_holds t'"
    "\<forall>r t'. conn_event sys ev st = Done (Inr r) t' \<longrightarrow> m' + 1 = length B + 1 \<and> ul_end t'"
    using post st wr_sys by (auto simp: dst.wrq_post_def ul_rrel_def ul_holds_def ul_end_def)
  ultimately show ?thesis
    using m m' by (intro exI [of _ "m' + 1"] exI [of _ new]) (intro conjI; (assumption | simp))
qed

lemma ul_rrel_bound: "ul_rrel M t \<Longrightarrow> M < length B + 1"
  by (auto simp: ul_rrel_def dst.wrq_srel_def dst.wrq_rel_def)

end

sublocale upload \<subseteq> ul: transfer "put_event rd" "conn_event sys" sent sent sa ra
  "put_env ra" "\<lambda>_. not_from sa" "genuine_data B" "receiver_promise oack"
  "src.put_srel B W oack ra K" ul_rrel ul_holds
  W "length B + 1" "\<lambda>_. ul_end"
  by unfold_locales
    (rule receiver_promise_mono genuine_data_mono ul_rrel_bound ul_sender_step ul_receiver_step, assumption+ | assumption)+

context upload begin

lemma ul_serve_post:
  assumes "resolve (cf_root cfg) remote = Inr path"
    and "os_create sys (if \<not> cf_allow_overwrite cfg then CreateNew else Truncate) path = Inr file"
    and "contents file = []" "negotiate cfg options None = Some (oack, neg)"
  shows "dst.wrq_post md B src oack sa neg 0 n (serve_wrq (os_create sys) cfg sa remote md options n)"
proof -
  let ?r = "wrq_receiver_new sa cfg neg file md"
  have rel: "dst.wrq_rel md B sa neg 0 ?r"
    using dst.wrq_receiver_new_rel [OF _ assms(3), of B md sa neg cfg] by simp
  obtain r n' where s: "(if \<not> option_set_is_empty oack then wrq_send_initial_oack sa oack n
      else send_ack sa 0 n) = (r, n')" by fastforce
  have "wrq_sends oack (0 + 1) sa n n'"
  proof (cases "option_set_is_empty oack")
    case True
    with s have "send_ack sa (of_nat 0) n = (r, n')" by simp
    from wrq_sends_ack [OF _ this, of 1 oack] show ?thesis by simp
  next
    case False
    with s sends_only_send [of "\<lambda>x. fst x = sa \<longrightarrow> wrq_datagram oack 1 (snd x)" sa "encode (Oack oack)" n]
    show ?thesis by (simp add: wrq_sends_def wrq_send_initial_oack_def wrq_datagram_def)
  qed
  moreover have "answered oack sa n'" if "r = Inr u" for u
    using that s by (auto simp: answered_def answer_def wrq_send_initial_oack_def send_ack_def
        split: if_splits intro: send_to_sent)
  ultimately show ?thesis
    using dst.wrq_post_trans dst.wrq_loop_post [OF rel] s assms
    by (cases r) (simp_all add: serve_wrq_def Let_def dst.wrq_post_failed)
qed

lemma ul_start_receiver:
  assumes "resolve (cf_root cfg) remote = Inr path"
    and "os_create sys (if \<not> cf_allow_overwrite cfg then CreateNew else Truncate) path = Inr file"
    and "contents file = []" "negotiate cfg options None = Some (oack, neg)"
    and "outbox n = []" "decode frame = Inr (Wrq remote md options)"
    and Q: "Q = handle_initial sys cfg sa frame n"
  shows "(\<forall>t. Q = Running t \<longrightarrow> ul_rrel 1 t) \<and> (\<forall>t. Q \<noteq> Panicked t)
    \<and> (\<forall>r t. Q \<noteq> Done (Inr r) t) \<and> (\<forall>d. (sa, d) \<in> set (sent (state_of Q)) \<longrightarrow> receiver_promise oack 1 d)"
proof (cases "os_bind sys (bind_addr_for (cf_listen cfg))")
  case (Inl e)
  with assms show ?thesis by (simp add: handle_initial_def)
next
  case (Inr a)
  let ?p = "serve_wrq (os_create sys) cfg sa remote md options n"
  have post: "dst.wrq_post md B src oack sa neg 0 n ?p" using ul_serve_post [OF assms(1-4)] .
  then have "\<forall>x \<in> set (sent (state_of ?p)). fst x = sa \<longrightarrow> wrq_datagram oack 1 (snd x)"
    using assms(5) by (auto simp: dst.wrq_post_def wrq_sends_def sends_only_def)
  then have "\<forall>d. (sa, d) \<in> set (sent (state_of ?p)) \<longrightarrow> receiver_promise oack 1 d"
    using wrq_datagram_genuine [OF _ oack_ok] by auto
  moreover have "Q = map_state (apfst ConnWrq) ?p"
    using Inr assms(6) Q by (simp add: handle_initial_def)
  ultimately show ?thesis
    using post by (auto simp: dst.wrq_post_def ul_rrel_def)
qed

lemma ul_fresh_sender:
  assumes "source_remaining remaining s0 = src"
  defines "g \<equiv> put_sender_new s0 md"
  shows "B = blocks_of K (put_stream remaining g)" "\<not> sn_eof g" "\<not> sn_final_emitted g"
  using assms by (simp_all add: g_def put_sender_new_def put_stream_def)

lemma ul_start_inv:
  assumes "resolve (cf_root cfg) remote = Inr path"
    and "os_create sys (if \<not> cf_allow_overwrite cfg then CreateNew else Truncate) path = Inr file"
    and "contents file = []" "negotiate cfg options None = Some (oack, neg)"
    and "outbox n = []" "decode frame = Inr (Wrq remote md options)"
    and "source_remaining remaining s0 = src" "outbox n' = []" "K = 512" "options = build_request_options opts sz"
  shows "ul.sys_inv 1 1 1 (do_put bnd opts server remote (put_sender_new s0 md) sz n',
    handle_initial sys cfg sa frame n)"
proof -
  let ?g = "putter_new opts server remote (put_sender_new s0 md) sz"
  obtain r n2 where s: "send_to (pt_server ?g) (pt_request ?g) n' = (r, n2)" by fastforce
  have G: "genuine_data B 1 (pt_request ?g)"
    using genuine_data_packet [of "Wrq remote (op_mode opts) (build_request_options opts sz)" B 1]
    by (simp add: putter_new_def Let_def)
  with send_to_outbox [of "pt_server ?g" "pt_request ?g" n'] s assms(8)
  have snt: "\<forall>d. (ra, d) \<in> set (outbox n2) \<longrightarrow> genuine_data B 1 d" by auto
  have "handshake_safe oack K W"
    using assms(9) merged negotiated_window_pos [OF neg_ok] by (simp add: handshake_safe_def Let_def)
  moreover have "pt_want_oack ?g \<or> option_set_is_empty oack"
    using negotiate_nothing [of options cfg None] assms(4,10) by (auto simp: putter_new_def Let_def)
  ultimately have rel: "src.put_srel B W oack ra K 1 1 (PutRequest ?g 0, n'')" for n''
    using G ul_fresh_sender [OF assms(7)] unfolding src.put_srel_def by (simp add: putter_new_def Let_def)
  show ?thesis
    using ul_start_receiver [OF assms(1-6) refl] s snt rel assms(8)
    unfolding ul.sys_inv_def by (auto simp: window_ok_def do_put_unfold put_send_request_def split: sum.splits)
qed

abbreviation "ul_run \<equiv> sys_reach (put_event rd) (conn_event sys) sent sent sa ra
  (put_env ra) (\<lambda>_. not_from sa)"

text \<open>
  Until the client has an answer to its request, whatever the block size: it has sent nothing but
  the request, and the server keeps its side of the contract.
\<close>

definition ul_server_ok :: "('g conn_state, unit) progress \<Rightarrow> bool" where
  "ul_server_ok Q \<longleftrightarrow> (\<forall>t. Q = Running t \<longrightarrow> ul_rrel 1 t) \<and> (\<forall>t. Q \<noteq> Panicked t) \<and> (\<forall>r t. Q \<noteq> Done (Inr r) t)
     \<and> (\<forall>d. (sa, d) \<in> set (sent (state_of Q)) \<longrightarrow> receiver_promise oack 1 d)"

lemma ul_server_moves:
  assumes "ul_server_ok (Running t)" "not_from sa ev \<or> (\<exists>d. ev = RxFrom sa d \<and> genuine_data B 1 d)"
  shows "ul_server_ok (conn_event sys ev t)"
proof -
  have "ul_rrel 1 t" using assms(1) by (simp add: ul_server_ok_def)
  from ul_receiver_step [OF this order_refl assms(2)] obtain M' new where m': "1 \<le> M'" "M' \<le> 1"
    "\<forall>t'. conn_event sys ev t = Running t' \<longrightarrow> ul_rrel M' t'" "\<forall>t'. conn_event sys ev t \<noteq> Panicked t'"
    "\<forall>r t'. conn_event sys ev t = Done (Inr r) t' \<longrightarrow> M' = length B + 1 \<and> ul_end t'"
    "sent (state_of (conn_event sys ev t)) = sent t @ new" "\<forall>d. (sa, d) \<in> set new \<longrightarrow> receiver_promise oack M' d"
    by blast
  then have "M' = 1" by simp
  with m' have "\<forall>t'. conn_event sys ev t = Running t' \<longrightarrow> ul_rrel 1 t'" "\<forall>t'. conn_event sys ev t \<noteq> Panicked t'"
    "\<forall>r t'. conn_event sys ev t = Done (Inr r) t' \<longrightarrow> 1 = length B + 1"
    "sent (state_of (conn_event sys ev t)) = sent t @ new" "\<forall>d. (sa, d) \<in> set new \<longrightarrow> receiver_promise oack 1 d"
    by simp_all
  moreover have "0 < length B" by simp
  ultimately show ?thesis using assms(1) unfolding ul_server_ok_def by auto
qed

definition ul_waiting :: "'f putter \<Rightarrow> ('f put_state, u64, 'g conn_state, unit) system \<Rightarrow> bool" where
  "ul_waiting g S \<longleftrightarrow> (\<forall>g' a n. fst S = Running (PutRequest g' a, n) \<longrightarrow>
     g' = g \<and> (\<forall>d. (ra, d) \<in> set (outbox n) \<longrightarrow> genuine_data B 1 d) \<and> ul_server_ok (snd S))"

lemma ul_waiting_sender:
  assumes "ul_waiting g (Running s, Q)" "genuine_data B 1 (pt_request g)"
  shows "ul_waiting g (put_event rd ev s, Q)"
  unfolding ul_waiting_def
proof (intro allI impI)
  fix g' a n assume "fst (put_event rd ev s, Q) = Running (PutRequest g' a, n)"
  then have "put_event rd ev s = Running (PutRequest g' a, n)" by simp
  from put_event_request [OF this] obtain a0 n0 where s: "s = (PutRequest g' a0, n0)"
    "outbox n = outbox n0 \<or> outbox n = outbox n0 @ [(pt_server g', pt_request g')]" by blast
  with assms show "g' = g \<and> (\<forall>d. (ra, d) \<in> set (outbox n) \<longrightarrow> genuine_data B 1 d)
      \<and> ul_server_ok (snd (put_event rd ev s, Q))"
    by (auto simp: ul_waiting_def)
qed

lemma ul_waiting_receiver:
  assumes "ul_waiting g (P, Running t)" "not_from sa ev \<or> (\<exists>d. ev = RxFrom sa d \<and> (ra, d) \<in> set (sent (state_of P)))"
  shows "ul_waiting g (P, conn_event sys ev t)"
  unfolding ul_waiting_def
proof (intro allI impI)
  fix g' a n assume P: "fst (P, conn_event sys ev t) = Running (PutRequest g' a, n)"
  with assms(1) have w: "g' = g" "\<forall>d. (ra, d) \<in> set (outbox n) \<longrightarrow> genuine_data B 1 d"
    "ul_server_ok (Running t)" by (auto simp: ul_waiting_def)
  with ul_server_moves [OF w(3), of ev] assms(2) P
  show "g' = g \<and> (\<forall>d. (ra, d) \<in> set (outbox n) \<longrightarrow> genuine_data B 1 d)
      \<and> ul_server_ok (snd (P, conn_event sys ev t))"
    by auto
qed

lemma ul_waiting_reach:
  assumes "ul_run S0 S" "ul_waiting g S0" "genuine_data B 1 (pt_request g)"
  shows "ul_waiting g S"
  using assms(1)
proof (induction rule: sys_reach.induct)
  case (reach_step S S')
  from reach_step(2,3) show ?case
    by (induction rule: sys_step.induct)
      (use assms(3) in \<open>auto intro: ul_waiting_sender ul_waiting_receiver\<close>)
qed (rule assms(2))

lemma ul_start_waiting:
  assumes "resolve (cf_root cfg) remote = Inr path"
    and "os_create sys (if \<not> cf_allow_overwrite cfg then CreateNew else Truncate) path = Inr file"
    and "contents file = []" "negotiate cfg options None = Some (oack, neg)"
    and "outbox n = []" "decode frame = Inr (Wrq remote md options)" "outbox n' = []"
  shows "ul_waiting (putter_new opts server remote (put_sender_new s0 md) sz)
    (do_put bnd opts server remote (put_sender_new s0 md) sz n', handle_initial sys cfg sa frame n)"
proof -
  let ?g = "putter_new opts server remote (put_sender_new s0 md) sz"
  obtain r n2 where s: "send_to (pt_server ?g) (pt_request ?g) n' = (r, n2)" by fastforce
  have "genuine_data B 1 (pt_request ?g)"
    using genuine_data_packet [of "Wrq remote (op_mode opts) (build_request_options opts sz)" B 1]
    by (simp add: putter_new_def Let_def)
  with send_to_outbox [of "pt_server ?g" "pt_request ?g" n'] s assms(7)
  have "\<forall>d. (ra, d) \<in> set (outbox n2) \<longrightarrow> genuine_data B 1 d" by auto
  moreover have "ul_server_ok (handle_initial sys cfg sa frame n)"
    using ul_start_receiver [OF assms(1-6) refl] unfolding ul_server_ok_def by auto
  ultimately show ?thesis
    using s assms(7) by (auto simp: ul_waiting_def do_put_unfold put_send_request_def split: sum.splits)
qed

text \<open>When the client then reads the OACK, the contract holds from there on, for any block size.\<close>

lemma ul_oack_inv:
  assumes "ul_waiting (putter_new opts server remote (put_sender_new s0 md) sz) (Running (PutRequest g a, n), Q)"
    and "negotiate cfg (build_request_options opts sz) None = Some (oack, neg)"
    and "source_remaining remaining s0 = src" "\<not> option_set_is_empty oack"
  shows "\<exists>hi. ul.sys_inv 1 1 hi (put_event rd (RxFrom ra (encode (Oack oack))) (PutRequest g a, n), Q)"
proof -
  let ?g = "putter_new opts server remote (put_sender_new s0 md) sz"
  have g: "g = ?g" "\<forall>d. (ra, d) \<in> set (outbox n) \<longrightarrow> genuine_data B 1 d" and ok: "ul_server_ok Q"
    using assms(1) by (simp_all add: ul_waiting_def)
  have "pt_want_oack ?g"
    using assms(2,4) negotiate_nothing [of "build_request_options opts sz" cfg None]
    by (auto simp: putter_new_def Let_def)
  moreover have "decode (rx_buffer (encode (Oack oack))) = Inr (Oack oack)"
    using length_encode_oack [OF oack_ok] decode_encode [of "Oack oack"] oack_ok
    by (simp add: MAX_PACKET_SIZE_eq)
  ultimately have ev: "put_event rd (RxFrom ra (encode (Oack oack))) (PutRequest g a, n)
      = put_begin rd ?g ra neg n"
    using merged by (simp add: g put_request_event_def) (simp add: putter_new_def Let_def)
  let ?p = "put_begin rd ?g ra neg n"
  obtain hi where hi: "1 \<le> hi" and post: "src.put_post B W oack ra K 1 hi n ?p"
    using src.put_begin_post [of B K ?g neg W oack ra n] ul_fresh_sender [OF assms(3)]
      negotiated_bsize_pos [OF neg_ok] negotiated_window_pos [OF neg_ok] B_props(2)
    by (auto simp: putter_new_def Let_def)
  then obtain new where new: "sent (state_of ?p) = outbox n @ new"
    "\<forall>x \<in> set new. fst x = ra \<longrightarrow> genuine_data B hi (snd x)"
    by (auto simp: src.put_post_def put_sends_def sends_only_def)
  have "genuine_data B hi d" if "(ra, d) \<in> set (sent (state_of ?p))" for d
    using that new g(2) genuine_data_mono [OF _ hi] by fastforce
  with ok hi post have "ul.sys_inv 1 1 hi (?p, Q)"
    unfolding ul.sys_inv_def ul_server_ok_def src.put_post_def window_ok_def by auto
  then show ?thesis unfolding ev ..
qed

lemma ul_end_stored: "ul_end st \<Longrightarrow> stored contents src st"
  by (cases st; cases "fst st"; cases "\<exists>w a. fst st = ConnWrq (WrqRun w a)")
    (auto simp: ul_end_def dst.wrq_holds_def stored_def split: wrq_task.splits)

lemma ul_holds_stored:
  assumes "ul_holds st"
  shows "stored contents src st"
proof -
  obtain t n where "st = (ConnWrq t, n)" "dst.wrq_holds src (t, n)"
    using assms by (cases st) (auto simp: ul_holds_def)
  then show ?thesis by (cases t) (auto simp: dst.wrq_holds_def stored_def)
qed

lemma ul_received:
  assumes "ul_run S0 (P, Done (Inr r) st)" "ul.sys_inv 1 1 hi S0"
  shows "stored contents src st"
  using ul.receiver_result [OF assms] by (rule ul_end_stored)

lemma ul_delivered:
  assumes "ul_run S0 (Done (Inr u) s, Q)" "ul.sys_inv 1 1 hi S0"
  shows "\<exists>q t. Q = Done q t \<and> stored contents src t"
  using ul.sender_result [OF assms] ul_holds_stored by force

end

lemma uploadI:
  assumes "byte_source rd remaining" "byte_sink (os_write sys) (os_flush sys) contents"
    and "negotiate cfg req None = Some (oack, neg)" "option_set_ok req" "transfer_fits md neg src"
  shows "upload rd remaining (os_write sys) (os_flush sys) contents sys md src oack neg"
  using assms negotiate_set_ok [OF assms(3,4)] negotiate_merge [OF assms(3)]
  by (simp add: upload_def upload_axioms_def)

text \<open>
  The two tasks of an upload as they start.
\<close>

definition upload_start where
  "upload_start sys cfg sa bnd opts server remote s0 sz fs fs' =
     (do_put bnd opts server remote (put_sender_new s0 (op_mode opts)) sz (net_new fs'),
      handle_initial sys cfg sa (encode (Wrq remote (op_mode opts) (build_request_options opts sz))) (net_new fs))"

lemma upload_runs:
  assumes "byte_source rd remaining" "byte_sink (os_write sys) (os_flush sys) contents"
    and "cstr_ok remote" "client_options_ok opts" "resolve (cf_root cfg) remote = Inr path"
    and "os_create sys (if \<not> cf_allow_overwrite cfg then CreateNew else Truncate) path = Inr f" "contents f = []"
    and "negotiate cfg (build_request_options opts sz) None = Some (oack, neg)"
    and "transfer_fits (op_mode opts) neg (source_remaining remaining s0)" "ng_blksize neg = 512"
    and "sys_reach (put_event rd) (conn_event sys) sent sent sa ra (put_env ra) (\<lambda>_. not_from sa)
      (upload_start sys cfg sa bnd opts server remote s0 sz fs fs') (P, Q)"
  shows "Q = Done (Inr r) t \<Longrightarrow> stored contents (source_remaining remaining s0) t"
    and "P = Done (Inr u) s \<Longrightarrow> \<exists>q t. Q = Done q t \<and> stored contents (source_remaining remaining s0) t"
proof -
  note ul = uploadI [OF assms(1,2,8) build_request_options_ok [OF assms(4)] assms(9)]
  have "unat (ng_blksize neg) = 512" using assms(10) by simp
  note start = upload.ul_start_inv [OF ul assms(5-8) outbox_net_new
      decode_request_packet(2) [OF assms(3,4)] refl outbox_net_new this refl]
  note run = assms(11) [unfolded upload_start_def]
  show "stored contents (source_remaining remaining s0) t" if "Q = Done (Inr r) t"
    using upload.ul_received [OF ul run [unfolded that] start] .
  show "\<exists>q t. Q = Done q t \<and> stored contents (source_remaining remaining s0) t" if "P = Done (Inr u) s"
    using upload.ul_delivered [OF ul run [unfolded that] start] .
qed

text \<open>The same for any block size, from the moment the client reads the OACK.\<close>

lemma upload_oack_runs:
  assumes "byte_source rd remaining" "byte_sink (os_write sys) (os_flush sys) contents"
    and "cstr_ok remote" "client_options_ok opts" "resolve (cf_root cfg) remote = Inr path"
    and "os_create sys (if \<not> cf_allow_overwrite cfg then CreateNew else Truncate) path = Inr f" "contents f = []"
    and "negotiate cfg (build_request_options opts sz) None = Some (oack, neg)"
    and "transfer_fits (op_mode opts) neg (source_remaining remaining s0)" "\<not> option_set_is_empty oack"
    and "sys_reach (put_event rd) (conn_event sys) sent sent sa ra (put_env ra) (\<lambda>_. not_from sa)
      (upload_start sys cfg sa bnd opts server remote s0 sz fs fs') (Running (PutRequest g a, n), Q1)"
    and "sys_reach (put_event rd) (conn_event sys) sent sent sa ra (put_env ra) (\<lambda>_. not_from sa)
      (put_event rd (RxFrom ra (encode (Oack oack))) (PutRequest g a, n), Q1) (P, Q)"
  shows "Q = Done (Inr r) t \<Longrightarrow> stored contents (source_remaining remaining s0) t"
    and "P = Done (Inr u) s \<Longrightarrow> \<exists>q t. Q = Done q t \<and> stored contents (source_remaining remaining s0) t"
proof -
  let ?md = "op_mode opts" and ?src = "source_remaining remaining s0"
  note ul = uploadI [OF assms(1,2,8) build_request_options_ok [OF assms(4)] assms(9)]
  have req: "genuine_data (wire_blocks ?md neg ?src) 1 (pt_request (putter_new opts server remote (put_sender_new s0 ?md) sz))"
    using genuine_data_packet [of "Wrq remote ?md (build_request_options opts sz)" "wire_blocks ?md neg ?src" 1]
    by (simp add: putter_new_def Let_def)
  note waiting = upload.ul_waiting_reach [OF ul assms(11) [unfolded upload_start_def]
      upload.ul_start_waiting [OF ul assms(5-8) outbox_net_new decode_request_packet(2) [OF assms(3,4)] outbox_net_new] req]
  obtain hi where start: "transfer.sys_inv sent sent sa ra (genuine_data (wire_blocks ?md neg ?src))
      (receiver_promise oack)
      (byte_source.put_srel remaining (wire_blocks ?md neg ?src) (unat (ng_windowsize neg)) oack ra (unat (ng_blksize neg)))
      (upload.ul_rrel contents ?md ?src oack neg sa)
      (upload.ul_holds contents ?src) (unat (ng_windowsize neg)) (length (wire_blocks ?md neg ?src) + 1) (\<lambda>_. upload.ul_end contents ?md ?src neg sa) 1 1 hi
      (put_event rd (RxFrom ra (encode (Oack oack))) (PutRequest g a, n), Q1)"
    using upload.ul_oack_inv [OF ul waiting assms(8) refl assms(10)] by blast
  show "stored contents ?src t" if "Q = Done (Inr r) t"
    using upload.ul_received [OF ul assms(12) [unfolded that] start] .
  show "\<exists>q t. Q = Done q t \<and> stored contents ?src t" if "P = Done (Inr u) s"
    using upload.ul_delivered [OF ul assms(12) [unfolded that] start] .
qed

end
