(* ===== verification/Scenarios.thy ===== *)
theory Scenarios
  imports End_To_End
begin

text \<open>
  A concrete system in memory on which the theorems about whole transfers are applied: files
  are byte vectors, sends succeed, one client and one server task.
\<close>

definition client_addr :: sockaddr where "client_addr = V4 0x7F000001 40000"
definition server_addr :: sockaddr where "server_addr = V4 0x7F000001 69"
definition server_tid :: sockaddr where "server_tid = V4 0x7F000001 50000"

definition mem_sys :: "bytes \<Rightarrow> bytes os" where
  "mem_sys content =
     \<lparr>os_open = (\<lambda>_. Inr content), os_len = (\<lambda>f. Inr (of_nat (length f))), os_create = (\<lambda>_ _. Inr []),
      os_read = vec_read, os_write = vec_write, os_flush = vec_flush, os_bind = Inr,
      os_canonicalize = Inr\<rparr>"

definition any_bind :: "sockaddr \<Rightarrow> io_error + unit" where
  "any_bind _ = Inr ()"

definition root_cfg :: config where
  "root_cfg = config_default\<lparr>cf_root := [SEP]\<rparr>"

lemma mem_sys_fields [simp]:
  "os_open (mem_sys c) p = Inr c" "os_len (mem_sys c) f = Inr (of_nat (length f))"
  "os_create (mem_sys c) h p = Inr []" "os_read (mem_sys c) = vec_read"
  "os_write (mem_sys c) = vec_write" "os_flush (mem_sys c) = vec_flush" "os_bind (mem_sys c) = Inr"
  by (simp_all add: mem_sys_def)

lemma root_cfg_fields [simp]:
  "cf_root root_cfg = [SEP]" "cf_retries root_cfg = 5" "cf_allow_overwrite root_cfg = False"
  "cf_max_block_size root_cfg = 65464" "cf_allow_windowsize root_cfg = True"
  by (simp_all add: root_cfg_def config_default_def MAX_BLOCK_SIZE_def)

lemma default_fields [simp]:
  "op_mode client_options_default = Octet" "op_retries client_options_default = 5"
  "build_request_options client_options_default sz = option_set_new"
  "client_options_ok client_options_default"
  by (simp_all add: client_options_default_def build_request_options_def client_options_ok_def)

lemma default_neg [simp]:
  "unat (ng_blksize negotiated_defaults) = 512" "unat (ng_windowsize negotiated_defaults) = 1"
  "ng_windowsize negotiated_defaults = 1"
  by (simp_all add: negotiated_defaults_def proto_consts)

lemma name_ok [simp]: "cstr_ok [97]" "resolve [SEP] [97] = Inr [SEP, 97]"
  by (simp_all add: cstr_ok_def utf8_valid_ascii resolve_ok_iff SEP_def DOT_def is_absolute_def path_join_def)

lemma addrs_distinct [simp]:
  "client_addr \<noteq> server_addr" "client_addr \<noteq> server_tid" "server_tid \<noteq> server_addr"
  "server_addr \<noteq> client_addr" "server_tid \<noteq> client_addr" "server_addr \<noteq> server_tid"
  by (simp_all add: client_addr_def server_addr_def server_tid_def)

lemma no_options [simp]: "negotiate cfg option_set_new fs = Some (option_set_new, negotiated_defaults)"
  by (rule negotiate_nothing) simp

lemma fits_small: "length src < 512 \<Longrightarrow> transfer_fits Octet negotiated_defaults src"
  by (simp add: transfer_fits_def)

text \<open>How the senders and receivers run on memory.\<close>

lemmas run_simps = handle_initial_def serve_rrq_def serve_wrq_def rrq_next_window_def
  fill_window.simps rrq_sender_new_def read_one_block_def pull_chunks.simps vec_read_def
  encode_chunk_def cut_block_eq rrq_send_def send_window_def send_to_def net_new_def
  do_get_unfold do_put_unfold any_bind_def get_send_request_def put_send_request_def
  get_request_event_def get_first_data_def getter_new_def receiver_new_def receiver_write_block_def
  decode_chunk_def write_raw_def get_final_def send_ack_def receiver_finish_def decode_tail_def
  MAX_PACKET_SIZE_eq arm_def wrq_receiver_new_def wrq_loop_def

definition small :: bytes where "small = [1, 2, 3]"

lemma small_facts: "length small = 3" "transfer_fits Octet negotiated_defaults small"
  "ng_blksize negotiated_defaults = 512"
  by (simp add: small_def, rule fits_small, simp add: small_def, simp add: negotiated_defaults_def proto_consts)

abbreviation get_request :: bytes where
  "get_request \<equiv> encode (Rrq [97] (op_mode client_options_default)
     (build_request_options client_options_default None))"

abbreviation dl_reach where
  "dl_reach \<equiv> sys_reach (conn_event (mem_sys small)) (get_event vec_write vec_flush) sent sent
     server_tid client_addr (\<lambda>_. not_from client_addr) (get_env server_tid)
     (handle_initial (mem_sys small) root_cfg client_addr get_request (net_new []),
      do_get any_bind client_options_default server_addr [97]
        (receiver_new (SinkVec []) (op_mode client_options_default)) (net_new []))"

text \<open>A download of three bytes: one DATA packet, one ACK.\<close>

definition dl_server :: "bytes rrq_sender" where
  "dl_server = \<lparr>rs_peer = client_addr, rs_cfg = root_cfg, rs_neg = negotiated_defaults, rs_file = [],
     rs_encoder = None, rs_pending = [], rs_eof = True, rs_in_flight = [(1, small)],
     rs_next_block = 2, rs_last_sent_short = True\<rparr>"

lemma dl_server_start:
  "\<exists>n. handle_initial (mem_sys small) root_cfg client_addr get_request (net_new [])
       = Running (ConnRrq (RrqData dl_server 0), n)
     \<and> outbox n = [(client_addr, encode (Data 1 small))] \<and> faults n = []"
  by (simp add: decode_encode run_simps small_def dl_server_def)

lemma dl_client_start:
  "\<exists>n. do_get any_bind client_options_default server_addr [97]
        (receiver_new (SinkVec []) (op_mode client_options_default)) (net_new [])
     = Running (GetRequest (getter_new client_options_default server_addr [97]
         (receiver_new (SinkVec []) Octet)) 0, n) \<and> faults n = []"
  by (simp add: run_simps Let_def)

lemma dl_client_end:
  assumes "faults n = []"
  shows "\<exists>s n'. get_event vec_write vec_flush (RxFrom server_tid (encode (Data 1 small)))
      (GetRequest (getter_new client_options_default server_addr [97] (receiver_new (SinkVec []) Octet)) 0, n)
    = Done (Inr 3) (GetData s 0, n') \<and> (server_tid, encode (Ack 1)) \<in> set (outbox n')"
  using assms by (simp add: run_simps small_def Let_def)

lemma dl_server_end:
  "\<exists>st. conn_event (mem_sys small) (RxFrom client_addr (encode (Ack 1)))
      (ConnRrq (RrqData dl_server 0), n) = Done (Inr ()) st"
  by (simp add: rrq_data_event_def recv_one_def dl_server_def MAX_PACKET_SIZE_eq server_consume_ack_def
      rrq_next_window_def fill_window.simps read_one_block_def)

lemma dl_reach_received: "\<exists>n st. dl_reach (Running (ConnRrq (RrqData dl_server 0), n), Done (Inr 3) st)
    \<and> (server_tid, encode (Ack 1)) \<in> set (sent st)"
proof -
  obtain n where P: "handle_initial (mem_sys small) root_cfg client_addr get_request (net_new [])
      = Running (ConnRrq (RrqData dl_server 0), n)"
    "outbox n = [(client_addr, encode (Data 1 small))]" using dl_server_start by blast
  let ?Q = "do_get any_bind client_options_default server_addr [97]
        (receiver_new (SinkVec []) (op_mode client_options_default)) (net_new [])
      :: (bytes get_state, u64) progress"
  obtain m where Q: "?Q = Running (GetRequest (getter_new client_options_default server_addr [97]
         (receiver_new (SinkVec []) Octet)) 0, m)" "faults m = []"
    using dl_client_start by blast
  obtain s m' where e: "get_event vec_write vec_flush (RxFrom server_tid (encode (Data 1 small)))
      (GetRequest (getter_new client_options_default server_addr [97] (receiver_new (SinkVec []) Octet)) 0, m)
    = Done (Inr 3) (GetData s 0, m')" "(server_tid, encode (Ack 1)) \<in> set (outbox m')"
    using dl_client_end [OF Q(2)] by blast
  have "dl_reach (Running (ConnRrq (RrqData dl_server 0), n), ?Q)"
    unfolding P(1) [symmetric] by (rule reach_start)
  from reach_to_receiver [OF this [unfolded Q(1)] _ e(1)] P(2)
  have "dl_reach (Running (ConnRrq (RrqData dl_server 0), n), Done (Inr 3) (GetData s 0, m'))"
    unfolding Q(1) [symmetric] by simp
  then show ?thesis using e(2) by fastforce
qed

lemma dl_reach_done: "\<exists>P Q. dl_reach (Done (Inr ()) P, Done (Inr 3) Q)"
proof -
  obtain st n where r: "dl_reach (Running (ConnRrq (RrqData dl_server 0), n), Done (Inr 3) st)"
    "(server_tid, encode (Ack 1)) \<in> set (sent st)"
    using dl_reach_received by blast
  obtain P' where "conn_event (mem_sys small) (RxFrom client_addr (encode (Ack 1)))
      (ConnRrq (RrqData dl_server 0), n) = Done (Inr ()) P'"
    using dl_server_end by blast
  from reach_to_sender [OF r(1) _ this] r(2) show ?thesis by fastforce
qed

text \<open>Both sides time out once and send again: the server its window, the client its request.\<close>

lemma dl_server_timeout:
  assumes "faults n = []"
  shows "\<exists>n'. conn_event (mem_sys small) RxTimeout (ConnRrq (RrqData dl_server 0), n)
      = Running (ConnRrq (RrqData dl_server 1), n') \<and> faults n' = []"
  using assms by (simp add: rrq_data_event_def recv_one_def rrq_send_def dl_server_def send_window_def send_to_def arm_def)

abbreviation dl_getter where
  "dl_getter \<equiv> getter_new client_options_default server_addr [97] (receiver_new (SinkVec []) Octet)"

lemma dl_client_timeout:
  assumes "faults n = []"
  shows "\<exists>n'. get_event vec_write vec_flush RxTimeout (GetRequest dl_getter 0, n)
      = Running (GetRequest dl_getter 1, n') \<and> faults n' = []"
  using assms by (simp add: get_request_event_def get_retry_def get_send_request_def getter_new_def send_to_def arm_def Let_def)

lemma dl_reach_timeouts:
  "\<exists>n m. dl_reach (Running (ConnRrq (RrqData dl_server 1), n), Running (GetRequest dl_getter 1, m))
    \<and> faults n = [] \<and> faults m = []"
proof -
  obtain n where P: "handle_initial (mem_sys small) root_cfg client_addr get_request (net_new [])
      = Running (ConnRrq (RrqData dl_server 0), n)" "faults n = []" using dl_server_start by blast
  let ?Q = "do_get any_bind client_options_default server_addr [97]
        (receiver_new (SinkVec []) (op_mode client_options_default)) (net_new []) :: (bytes get_state, u64) progress"
  obtain m where Q: "?Q = Running (GetRequest dl_getter 0, m)" "faults m = []"
    using dl_client_start by blast
  obtain n' where e1: "conn_event (mem_sys small) RxTimeout (ConnRrq (RrqData dl_server 0), n)
      = Running (ConnRrq (RrqData dl_server 1), n')" "faults n' = []" using dl_server_timeout [OF P(2)] by blast
  obtain m' where e2: "get_event vec_write vec_flush RxTimeout (GetRequest dl_getter 0, m)
      = Running (GetRequest dl_getter 1, m')" "faults m' = []" using dl_client_timeout [OF Q(2)] by blast
  have "dl_reach (Running (ConnRrq (RrqData dl_server 0), n), ?Q)"
    unfolding P(1) [symmetric] by (rule reach_start)
  from reach_other_receiver [OF reach_other_sender [OF this [unfolded Q(1)] _ e1(1)] _ e2(1)] e1(2) e2(2)
  show ?thesis unfolding Q(1) [symmetric] by auto
qed

subsection \<open>An upload of three bytes\<close>

abbreviation ul_start where
  "ul_start opts data \<equiv>
     (do_put any_bind opts server_addr [97] (put_sender_new (SrcSlice data 0) (op_mode opts))
        (Some (of_nat (length data))) (net_new []),
      handle_initial (mem_sys []) root_cfg client_addr
        (encode (Wrq [97] (op_mode opts) (build_request_options opts (Some (of_nat (length data))))))
        (net_new []))"

abbreviation ul_reach where
  "ul_reach opts data \<equiv> sys_reach (put_event vec_read) (conn_event (mem_sys [])) sent sent
     client_addr server_tid (put_env server_tid) (\<lambda>_. not_from client_addr) (ul_start opts data)"

abbreviation ul_sender :: "client_options \<Rightarrow> bytes \<Rightarrow> bytes putter" where
  "ul_sender opts data \<equiv> putter_new opts server_addr [97] (put_sender_new (SrcSlice data 0) (op_mode opts))
     (Some (of_nat (length data)))"

lemma ul_client_start:
  "\<exists>n. do_put any_bind opts server_addr [97] (put_sender_new (SrcSlice data 0) (op_mode opts))
        (Some (of_nat (length data))) (net_new []) = Running (PutRequest (ul_sender opts data) 0, n)
     \<and> faults n = []"
  by (simp add: run_simps putter_new_def Let_def)

text \<open>ACK(0) ends the client's handshake with the default parameters: the first 512 bytes are sent.\<close>

lemma ul_client_ack0:
  assumes "faults n = []" "op_mode opts = Octet"
  shows "\<exists>s n'. put_event vec_read (RxFrom server_tid (encode (Ack 0))) (PutRequest (ul_sender opts data) 0, n)
      = Running (PutData s 0, n') \<and> faults n' = []
    \<and> (server_tid, encode (Data 1 (take 512 data))) \<in> set (outbox n')
    \<and> pt_in_flight s = [(1, take 512 data)] \<and> pt_peer s = server_tid
    \<and> pt_neg s = negotiated_defaults \<and> pt_total s = of_nat (min 512 (length data))
    \<and> pt_last_sent_short s = (length data < 512)"
proof -
  have "\<not> 512 \<le> min 512 (length data) \<longleftrightarrow> length data < 512" by linarith
  with assms show ?thesis
    by (auto simp: put_request_event_def MAX_PACKET_SIZE_eq put_begin_def put_next_window_def
        put_fill.simps next_block_def pull_chunks.simps encode_chunk_def cut_block_eq put_sender_new_def
        set_blksize_def Let_def putter_new_def put_send_def send_to_def arm_def min_def)
qed

text \<open>The server takes a first block shorter than its block size for the whole file.\<close>

abbreviation ul_server :: "negotiated \<Rightarrow> bytes wrq_receiver" where
  "ul_server neg \<equiv> wrq_receiver_new client_addr root_cfg neg [] Octet"

lemma ul_server_short:
  assumes "faults n = []" "length data < unat (ng_blksize neg)" "length data \<le> 65464"
  shows "\<exists>s n'. conn_event (mem_sys []) (RxFrom client_addr (encode (Data 1 data)))
      (ConnWrq (WrqRun (ul_server neg) a), n) = Done (Inr ()) (ConnWrq (WrqRun s 0), n')
    \<and> wr_file s = data \<and> (client_addr, encode (Ack 1)) \<in> set (outbox n')"
  using assms
  by (simp add: wrq_run_event_def recv_one_def wrq_receiver_new_def MAX_PACKET_SIZE_eq wrq_data_def
      wrq_in_order_def wrq_write_block_def decode_chunk_def vec_write_def wrq_write_tail_def
      decode_tail_def vec_flush_def wrq_ack_def send_ack_def wrq_loop_def Let_def)

lemma ul_server_start:
  "\<exists>n. snd (ul_start client_options_default data)
      = Running (ConnWrq (WrqRun (ul_server negotiated_defaults) 0), n)
    \<and> faults n = [] \<and> (client_addr, encode (Ack 0)) \<in> set (outbox n)"
  by (simp add: decode_encode handle_initial_def serve_wrq_def Let_def send_ack_def net_new_def
      wrq_loop_def wrq_receiver_new_def)

lemma ul_client_done:
  assumes "faults n = []" "pt_in_flight s = [(1, d)]" "pt_peer s = server_tid" "pt_last_sent_short s"
  shows "\<exists>st. put_event vec_read (RxFrom server_tid (encode (Ack 1))) (PutData s 0, n)
    = Done (Inr (pt_total s)) st"
  using assms by (simp add: put_data_event_def recv_one_def MAX_PACKET_SIZE_eq)

subsection \<open>An upload whose OACK is lost\<close>

definition big_opts :: client_options where
  "big_opts = client_options_default\<lparr>op_blksize := Some 1024\<rparr>"

definition big_neg :: negotiated where
  "big_neg = negotiated_defaults\<lparr>ng_blksize := 1024\<rparr>"

lemma big_opts_fields [simp]:
  "op_mode big_opts = Octet" "client_options_ok big_opts"
  "build_request_options big_opts sz = \<lparr>items = [BlockSize 1024]\<rparr>"
  by (simp_all add: big_opts_def client_options_default_def client_options_ok_def proto_consts
      build_request_options_def option_set_insert_def option_set_new_def)

lemma big_negotiated [simp]:
  "negotiate root_cfg \<lparr>items = [BlockSize 1024]\<rparr> fs = Some (\<lparr>items = [BlockSize 1024]\<rparr>, big_neg)"
  by (simp add: negotiate_def negotiate_blksize_def negotiate_timeout_def negotiate_tsize_def
      negotiate_windowsize_def block_size_def timeout_opt_def transfer_size_def window_size_def
      clamp_u16_def MIN_BLOCK_SIZE_def option_set_insert_def option_set_new_def big_neg_def)

lemma big_server_start:
  "\<exists>n. snd (ul_start big_opts data) = Running (ConnWrq (WrqRun (ul_server big_neg) 0), n)
    \<and> faults n = []"
proof -
  have "decode (encode (Wrq [97] Octet \<lparr>items = [BlockSize 1024]\<rparr>))
      = Inr (Wrq [97] Octet \<lparr>items = [BlockSize 1024]\<rparr>)"
    by (rule decode_encode) (simp add: option_set_ok_def proto_consts)
  then show ?thesis
    by (simp add: handle_initial_def serve_wrq_def Let_def net_new_def wrq_send_initial_oack_def
        option_set_is_empty_def wrq_loop_def wrq_receiver_new_def)
qed

text \<open>After a timeout the server repeats not its OACK but ACK(0).\<close>

lemma ul_server_timeout:
  assumes "faults n = []"
  shows "\<exists>n'. conn_event (mem_sys []) RxTimeout (ConnWrq (WrqRun (ul_server neg) 0), n)
      = Running (ConnWrq (WrqRun (ul_server neg) 1), n')
    \<and> faults n' = [] \<and> (client_addr, encode (Ack 0)) \<in> set (outbox n')"
  using assms by (simp add: wrq_run_event_def recv_one_def wrq_receiver_new_def wrq_ack_def send_ack_def
      wrq_loop_def)

lemma ul_reach_started:
  assumes "snd (ul_start opts data) = Q"
  shows "\<exists>n. ul_reach opts data (Running (PutRequest (ul_sender opts data) 0, n), Q) \<and> faults n = []"
proof -
  obtain n where P: "fst (ul_start opts data) = Running (PutRequest (ul_sender opts data) 0, n)" "faults n = []"
    using ul_client_start [of opts data] by auto
  have "ul_reach opts data (fst (ul_start opts data), snd (ul_start opts data))"
    unfolding fst_conv snd_conv by (rule reach_start)
  with P assms show ?thesis by auto
qed

text \<open>Both sides time out once.\<close>

lemma ul_client_timeout:
  assumes "faults n = []" "op_retries opts \<noteq> 0"
  shows "\<exists>n'. put_event vec_read RxTimeout (PutRequest (ul_sender opts data) 0, n)
      = Running (PutRequest (ul_sender opts data) 1, n') \<and> faults n' = []"
  using assms by (simp add: put_request_event_def put_retry_def put_send_request_def putter_new_def send_to_def arm_def Let_def)

lemma ul_reach_timeouts:
  "\<exists>n m. ul_reach client_options_default data (Running (PutRequest (ul_sender client_options_default data) 1, n),
      Running (ConnWrq (WrqRun (ul_server negotiated_defaults) 1), m)) \<and> faults n = [] \<and> faults m = []"
proof -
  let ?g = "ul_sender client_options_default data"
  obtain q where Q: "snd (ul_start client_options_default data)
      = Running (ConnWrq (WrqRun (ul_server negotiated_defaults) 0), q)" "faults q = []"
    using ul_server_start by blast
  obtain n where r0: "ul_reach client_options_default data (Running (PutRequest ?g 0, n),
      Running (ConnWrq (WrqRun (ul_server negotiated_defaults) 0), q))" "faults n = []"
    using ul_reach_started [OF Q(1)] by blast
  obtain n' where e1: "put_event vec_read RxTimeout (PutRequest ?g 0, n) = Running (PutRequest ?g 1, n')" "faults n' = []"
    using ul_client_timeout [OF r0(2), of client_options_default data] by auto
  obtain q' where e2: "conn_event (mem_sys []) RxTimeout (ConnWrq (WrqRun (ul_server negotiated_defaults) 0), q)
      = Running (ConnWrq (WrqRun (ul_server negotiated_defaults) 1), q')" "faults q' = []"
    using ul_server_timeout [OF Q(2)] by blast
  from reach_other_receiver [OF reach_other_sender [OF r0(1) _ e1(1)] _ e2(1)] e1(2) e2(2) show ?thesis by auto
qed

lemma ul_reach_done:
  assumes "length data < 512"
  shows "\<exists>P s n. ul_reach client_options_default data
    (Done (Inr (of_nat (length data))) P, Done (Inr ()) (ConnWrq (WrqRun s 0), n)) \<and> wr_file s = data"
proof -
  let ?g = "ul_sender client_options_default data"
  obtain q where Q: "snd (ul_start client_options_default data)
      = Running (ConnWrq (WrqRun (ul_server negotiated_defaults) 0), q)"
    "faults q = []" "(client_addr, encode (Ack 0)) \<in> set (outbox q)"
    using ul_server_start by blast
  obtain n where r0: "ul_reach client_options_default data (Running (PutRequest ?g 0, n),
      Running (ConnWrq (WrqRun (ul_server negotiated_defaults) 0), q))" "faults n = []"
    using ul_reach_started [OF Q(1)] by blast
  obtain s n1 where e1: "put_event vec_read (RxFrom server_tid (encode (Ack 0))) (PutRequest ?g 0, n)
      = Running (PutData s 0, n1)" and f1: "faults n1 = []"
    "(server_tid, encode (Data 1 (take 512 data))) \<in> set (outbox n1)" "pt_in_flight s = [(1, take 512 data)]"
    "pt_peer s = server_tid" "pt_total s = of_nat (min 512 (length data))"
    "pt_last_sent_short s = (length data < 512)"
    using ul_client_ack0 [OF r0(2), of client_options_default data] by auto
  have d: "take 512 data = data" using assms by simp
  note r1 = reach_to_sender [OF r0(1) _ e1]
  obtain t q1 where e2: "conn_event (mem_sys []) (RxFrom client_addr (encode (Data 1 data)))
      (ConnWrq (WrqRun (ul_server negotiated_defaults) 0), q) = Done (Inr ()) (ConnWrq (WrqRun t 0), q1)"
    "wr_file t = data" "(client_addr, encode (Ack 1)) \<in> set (outbox q1)"
    using ul_server_short [OF Q(2), of data negotiated_defaults 0] assms by auto
  note r2 = reach_to_receiver [OF r1 _ e2(1)]
  have "pt_last_sent_short s" using f1(6) assms by simp
  from ul_client_done [OF f1(1) _ f1(4) this] f1(3)
  obtain st where "put_event vec_read (RxFrom server_tid (encode (Ack 1))) (PutData s 0, n1)
      = Done (Inr (pt_total s)) st" by blast
  from reach_to_sender [OF r2 _ this] Q(3) e2(2,3) f1(2,5) d assms show ?thesis
    by (fastforce simp: min_def)
qed

text \<open>
  The whole run: the OACK is not delivered, the server times out, ACK(0) starts the client at
  512 bytes a block, and the server takes its first block for the end of the file.
\<close>

lemma big_reach_truncated:
  assumes "512 \<le> length data"
  shows "\<exists>P s n. ul_reach big_opts data (P, Done (Inr ()) (ConnWrq (WrqRun s 0), n))
    \<and> wr_file s = take 512 data"
proof -
  let ?g = "ul_sender big_opts data"
  obtain q where Q: "snd (ul_start big_opts data) = Running (ConnWrq (WrqRun (ul_server big_neg) 0), q)"
    "faults q = []" using big_server_start by blast
  obtain n where r0: "ul_reach big_opts data (Running (PutRequest ?g 0, n),
      Running (ConnWrq (WrqRun (ul_server big_neg) 0), q))" "faults n = []"
    using ul_reach_started [OF Q(1)] by blast
  obtain q1 where e1: "conn_event (mem_sys []) RxTimeout (ConnWrq (WrqRun (ul_server big_neg) 0), q)
      = Running (ConnWrq (WrqRun (ul_server big_neg) 1), q1)" and f1: "faults q1 = []"
    "(client_addr, encode (Ack 0)) \<in> set (outbox q1)"
    using ul_server_timeout [OF Q(2)] by blast
  note r1 = reach_other_receiver [OF r0(1) _ e1]
  obtain s n1 where e2: "put_event vec_read (RxFrom server_tid (encode (Ack 0))) (PutRequest ?g 0, n)
      = Running (PutData s 0, n1)" and f2: "(server_tid, encode (Data 1 (take 512 data))) \<in> set (outbox n1)"
    using ul_client_ack0 [OF r0(2), of big_opts data] by auto
  note r2 = reach_to_sender [OF r1 _ e2]
  have "length (take 512 data) < unat (ng_blksize big_neg)" "length (take 512 data) \<le> 65464"
    by (simp_all add: big_neg_def)
  from ul_server_short [OF f1(1) this, of 1]
  obtain t q2 where e3: "conn_event (mem_sys []) (RxFrom client_addr (encode (Data 1 (take 512 data))))
      (ConnWrq (WrqRun (ul_server big_neg) 1), q1) = Done (Inr ()) (ConnWrq (WrqRun t 0), q2)"
    "wr_file t = take 512 data" by blast
  from reach_to_receiver [OF r2 _ e3(1)] f1(2) f2 e3(2) show ?thesis by fastforce
qed

text \<open>An upload in 1024-byte blocks whose OACK arrives.\<close>

lemma big_merge [simp]: "merge_oack negotiated_defaults \<lparr>items = [BlockSize 1024]\<rparr> = big_neg"
  by (simp add: merge_oack_def block_size_def timeout_opt_def window_size_def big_neg_def Let_def)

lemma big_neg_facts: "unat (ng_blksize big_neg) = 1024" "unat (ng_windowsize big_neg) = 1"
  by (simp_all add: big_neg_def)

lemma big_client_oack:
  assumes "faults n = []"
  shows "\<exists>s n'. put_event vec_read (RxFrom server_tid (encode (Oack \<lparr>items = [BlockSize 1024]\<rparr>)))
      (PutRequest (ul_sender big_opts small) 0, n) = Running (PutData s 0, n')
    \<and> (server_tid, encode (Data 1 small)) \<in> set (outbox n')"
proof -
  have ok: "option_set_ok \<lparr>items = [BlockSize 1024]\<rparr>"
    by (simp add: option_set_ok_def proto_consts)
  have "decode (rx_buffer (encode (Oack \<lparr>items = [BlockSize 1024]\<rparr>))) = Inr (Oack \<lparr>items = [BlockSize 1024]\<rparr>)"
    using length_encode_oack [OF ok] decode_encode [of "Oack \<lparr>items = [BlockSize 1024]\<rparr>"] ok
    by (simp add: MAX_PACKET_SIZE_eq)
  with assms show ?thesis
    by (simp add: put_request_event_def putter_new_def Let_def option_set_is_empty_def put_begin_def big_neg_facts
        put_next_window_def put_fill.simps next_block_def pull_chunks.simps encode_chunk_def cut_block_eq
        put_sender_new_def set_blksize_def put_send_def send_to_def arm_def small_def)
qed

lemma big_reach_stored:
  "\<exists>n q. ul_reach big_opts small (Running (PutRequest (ul_sender big_opts small) 0, n), q)
    \<and> (\<exists>P t. sys_reach (put_event vec_read) (conn_event (mem_sys [])) sent sent client_addr server_tid
         (put_env server_tid) (\<lambda>_. not_from client_addr)
         (put_event vec_read (RxFrom server_tid (encode (Oack \<lparr>items = [BlockSize 1024]\<rparr>)))
           (PutRequest (ul_sender big_opts small) 0, n), q) (P, Done (Inr ()) t))"
proof -
  obtain q where Q: "snd (ul_start big_opts small) = Running (ConnWrq (WrqRun (ul_server big_neg) 0), q)"
    "faults q = []" using big_server_start by blast
  obtain n where r0: "ul_reach big_opts small (Running (PutRequest (ul_sender big_opts small) 0, n),
      Running (ConnWrq (WrqRun (ul_server big_neg) 0), q))" "faults n = []"
    using ul_reach_started [OF Q(1)] by blast
  obtain s n1 where e1: "put_event vec_read (RxFrom server_tid (encode (Oack \<lparr>items = [BlockSize 1024]\<rparr>)))
      (PutRequest (ul_sender big_opts small) 0, n) = Running (PutData s 0, n1)"
    "(server_tid, encode (Data 1 small)) \<in> set (outbox n1)"
    using big_client_oack [OF r0(2)] by blast
  have "length small < unat (ng_blksize big_neg)" "length small \<le> 65464"
    by (simp_all add: big_neg_def small_def)
  from ul_server_short [OF Q(2) this, of 0]
  obtain t q1 where e2: "conn_event (mem_sys []) (RxFrom client_addr (encode (Data 1 small)))
      (ConnWrq (WrqRun (ul_server big_neg) 0), q) = Done (Inr ()) (ConnWrq (WrqRun t 0), q1)" by blast
  have "(server_tid, encode (Data 1 small)) \<in> set (sent (state_of (Running (PutData s 0, n1))))"
    using e1(2) by simp
  note run = reach_to_receiver [where sout = sent and P = "Running (PutData s 0, n1)"
      and rstep = "conn_event (mem_sys [])" and t = "(ConnWrq (WrqRun (ul_server big_neg) 0), q)", OF reach_start this e2]
  show ?thesis
    using r0(1) by (intro exI conjI) (assumption, unfold e1(1), rule run)
qed
end
