(* ===== verification/Amplification.thy ===== *)
theory Amplification
  imports Scenarios
begin

text \<open>
  What the server sends to an address that never answers. A request is a single datagram whose
  source address may be forged, so this bounds what a forger can make the server send to a third
  party: one window for each attempt and one ERROR.
\<close>

text \<open>At most \<open>k\<close> datagrams were sent to \<open>p\<close>, none longer than \<open>l\<close> bytes.\<close>

definition sent_within :: "sockaddr \<Rightarrow> nat \<Rightarrow> nat \<Rightarrow> net \<Rightarrow> bool" where
  "sent_within p k l n \<longleftrightarrow> length (filter (\<lambda>x. fst x = p) (outbox n)) \<le> k
     \<and> (\<forall>x \<in> set (outbox n). fst x = p \<longrightarrow> length (snd x) \<le> l)"

lemma sent_within_mono: "sent_within p k l n \<Longrightarrow> k \<le> k' \<Longrightarrow> sent_within p k' l n"
  by (auto simp: sent_within_def)

lemma sent_within_arm [simp]: "sent_within p k l (arm d n) = sent_within p k l n"
  by (simp add: sent_within_def)

lemma sent_within_send:
  assumes "send_to dst buf n = (r, n')" "sent_within p k l n" "dst = p \<Longrightarrow> length buf \<le> l"
  shows "sent_within p (k + 1) l n'" "dst \<noteq> p \<Longrightarrow> sent_within p k l n'"
  using assms send_to_outbox [of dst buf n] by (auto simp: sent_within_def)

lemma sent_within_error:
  assumes "sent_within p k l n" "length msg + 5 \<le> l"
  shows "sent_within p (k + 1) l (send_error q c msg n)"
proof -
  obtain r n' where s: "send_to q (encode (ErrorPkt c msg)) n = (r, n')" by fastforce
  have "length (encode (ErrorPkt c msg)) \<le> l" using assms(2) by (simp add: encode_simps)
  from sent_within_send(1) [OF s assms(1) this] s show ?thesis by (simp add: send_error_def)
qed

lemma sent_within_recv:
  assumes "recv_one p ev n = (r, n')" "sent_within p k l n"
  shows "sent_within p k l n'"
proof (cases ev)
  case (RxFrom q d)
  obtain u n2 where s: "send_to q unknown_tid_packet n = (u, n2)" by fastforce
  show ?thesis using assms RxFrom s sent_within_send(2) [OF s assms(2)]
    by (auto simp: recv_one_def split: if_splits)
qed (use assms in \<open>simp_all add: recv_one_def\<close>)

lemma sent_within_flight:
  assumes "send_flight p fl n = (r, n')" "sent_within p k l n" "\<forall>(bn, d) \<in> set fl. length d + 4 \<le> l"
  shows "sent_within p (k + length fl) l n'"
  using assms
proof (induction p fl n arbitrary: k rule: send_flight.induct)
  case (2 p bn d fl n)
  obtain q n1 where s: "send_to p (encode (Data bn d)) n = (q, n1)" by fastforce
  have "length (encode (Data bn d)) \<le> l" using "2.prems"(3) by (simp add: encode_simps)
  note one = sent_within_send(1) [OF s "2.prems"(2) this]
  show ?case
  proof (cases q)
    case (Inl e)
    with "2.prems"(1) s sent_within_mono [OF one] show ?thesis by simp
  next
    case (Inr u)
    with "2.IH" [OF s [symmetric] Inr _ one] "2.prems"(1,3) s show ?thesis by simp
  qed
qed simp

subsection \<open>Waiting without an answer\<close>

text \<open>\<open>I\<close> holds while the machine waits and \<open>J\<close> when it has ended.\<close>

fun holds :: "('s \<Rightarrow> bool) \<Rightarrow> ('s \<Rightarrow> bool) \<Rightarrow> ('s, 'r) progress \<Rightarrow> bool" where
  "holds I J (Running s) \<longleftrightarrow> I s"
| "holds I J (Done r s) \<longleftrightarrow> J s"
| "holds I J (Panicked s) \<longleftrightarrow> J s"

lemma drive_holds:
  assumes "holds I J p" "\<forall>ev \<in> set evs. ok ev" "\<And>ev s. ok ev \<Longrightarrow> I s \<Longrightarrow> holds I J (step ev s)"
  shows "holds I J (drive step p evs)"
  using assms(1,2)
proof (induction evs arbitrary: p)
  case (Cons ev evs)
  then show ?case using assms(3) by (cases p) auto
qed simp

lemma holds_weaken: "holds I J p \<Longrightarrow> (\<And>s. I s \<Longrightarrow> J s) \<Longrightarrow> J (state_of p)"
  by (cases p) auto

lemma holds_map: "holds (I \<circ> f) (J \<circ> f) p \<Longrightarrow> holds I J (map_state f p)"
  by (cases p) auto

text \<open>Blocks are no longer than the block size, windows no longer than the window size, whatever the file does.\<close>

definition flight_within :: "'f rrq_sender \<Rightarrow> bool" where
  "flight_within s \<longleftrightarrow> length (rs_in_flight s) \<le> unat (ng_windowsize (rs_neg s))
     \<and> (\<forall>(bn, d) \<in> set (rs_in_flight s). length d \<le> unat (ng_blksize (rs_neg s)))"

lemma read_one_block_short:
  "read_one_block rd s = (Inr (Some b), s') \<Longrightarrow> length b \<le> unat (ng_blksize (rs_neg s))"
  by (auto simp: read_one_block_def Let_def cut_block_eq split: if_splits prod.splits sum.splits)

lemma fill_window_within:
  assumes "fill_window rd s = (r, s')" "flight_within s"
  shows "flight_within s'"
  using assms
proof (induction "unat (ng_windowsize (rs_neg s)) - length (rs_in_flight s)" arbitrary: s rule: less_induct)
  case less
  note unf = fill_window.simps [of rd s]
  show ?case
  proof (cases "length (rs_in_flight s) < unat (ng_windowsize (rs_neg s))")
    case True
    obtain q s1 where q: "read_one_block rd s = (q, s1)" by fastforce
    note frame = read_one_block_frame [OF q]
    show ?thesis
    proof (cases "\<exists>b. q = Inr (Some b)")
      case Some: True
      then obtain b where b: "q = Inr (Some b)" by blast
      let ?s = "s1\<lparr>rs_in_flight := rs_in_flight s1 @ [(rs_next_block s1, b)], rs_next_block := rs_next_block s1 + 1\<rparr>"
      have "fill_window rd ?s = (r, s')"
        using less.prems True q b unf by simp
      moreover have "unat (ng_windowsize (rs_neg ?s)) - length (rs_in_flight ?s)
          < unat (ng_windowsize (rs_neg s)) - length (rs_in_flight s)"
        using True frame by simp
      moreover have "flight_within ?s"
        using less.prems(2) True frame read_one_block_short [OF q [unfolded b]] by (auto simp: flight_within_def)
      ultimately show ?thesis using less.hyps [of ?s] by blast
    next
      case False
      with less.prems True q unf have "s' = s1"
        by (cases q) (auto split: option.splits)
      with frame less.prems(2) show ?thesis by (simp add: flight_within_def)
    qed
  next
    case False
    with less.prems unf show ?thesis by simp
  qed
qed

subsection \<open>Downloads\<close>

text \<open>
  A download whose client never answers: after attempt \<open>a\<close> at most \<open>a + 1\<close> windows were sent to it.
\<close>

definition budget :: "u32 \<Rightarrow> negotiated \<Rightarrow> nat \<Rightarrow> nat" where
  "budget a neg k = (unat a + k) * unat (ng_windowsize neg)"

definition datagram_limit :: "negotiated \<Rightarrow> nat" where
  "datagram_limit neg = max 512 (unat (ng_blksize neg)) + 4"

definition rrq_unanswered :: "sockaddr \<Rightarrow> u32 \<Rightarrow> negotiated \<Rightarrow> 'f rrq_state \<Rightarrow> bool" where
  "rrq_unanswered p r neg st \<longleftrightarrow> negotiated_ok neg \<and>
     (case fst st of
        RrqData s a \<Rightarrow> rs_peer s = p \<and> cf_retries (rs_cfg s) = r \<and> rs_neg s = neg \<and> a \<le> r \<and> flight_within s
          \<and> sent_within p (budget a neg 1) (datagram_limit neg) (snd st)
      | RrqOack s oack a \<Rightarrow> rs_peer s = p \<and> cf_retries (rs_cfg s) = r \<and> rs_neg s = neg \<and> a \<le> r \<and> option_set_ok oack
          \<and> sent_within p (budget a neg 1) (datagram_limit neg) (snd st)
      | RrqClosed \<Rightarrow> False)"

definition ended_within :: "sockaddr \<Rightarrow> u32 \<Rightarrow> negotiated \<Rightarrow> 't \<times> net \<Rightarrow> bool" where
  "ended_within p r neg st \<longleftrightarrow> sent_within p (budget r neg 1 + 1) (datagram_limit neg) (snd st)"

lemma budget_mono: "a \<le> r \<Longrightarrow> budget a neg 1 \<le> budget r neg 1"
  by (simp add: budget_def word_le_nat_alt)

lemma budget_next: "a < r \<Longrightarrow> budget (a + 1) neg 0 = budget a neg 1"
  by (simp add: budget_def unat_inc_no_overflow)

lemma ended_early: "sent_within p (budget a neg 1) (datagram_limit neg) n \<Longrightarrow> a \<le> r \<Longrightarrow> ended_within p r neg (t, n)"
  using budget_mono [of a r neg] by (auto simp: ended_within_def intro: sent_within_mono)

lemma ended_error:
  assumes "sent_within p (budget a neg 1) (datagram_limit neg) n" "a \<le> r" "length msg \<le> 500"
  shows "ended_within p r neg (t, send_error p c msg n)"
proof -
  have "length msg + 5 \<le> datagram_limit neg" using assms(3) by (simp add: datagram_limit_def)
  from sent_within_mono [OF sent_within_error [OF assms(1) this]] budget_mono [OF assms(2), of neg] show ?thesis
    unfolding ended_within_def snd_conv by simp
qed

lemma rrq_send_unanswered:
  assumes "rs_peer s = p" "cf_retries (rs_cfg s) = r" "rs_neg s = neg" "a \<le> r" "flight_within s" "negotiated_ok neg"
    and "sent_within p (budget a neg 0) (datagram_limit neg) n"
  shows "holds (rrq_unanswered p r neg) (ended_within p r neg) (rrq_send s a n)"
proof -
  obtain q n' where f: "send_flight p (rs_in_flight s) n = (q, n')" by fastforce
  have "\<forall>(bn, d) \<in> set (rs_in_flight s). length d + 4 \<le> datagram_limit neg"
    using assms(3,5) by (fastforce simp: flight_within_def datagram_limit_def)
  from sent_within_mono [OF sent_within_flight [OF f assms(7) this], of "budget a neg 1"]
  have "sent_within p (budget a neg 1) (datagram_limit neg) n'"
    using assms(3,5) by (simp add: flight_within_def budget_def)
  with assms f ended_early [OF this assms(4)] show ?thesis
    by (cases q) (auto simp: rrq_send_def send_window_def rrq_unanswered_def)
qed

lemma rrq_next_window_unanswered:
  fixes s :: "'f rrq_sender"
  assumes "rs_peer s = p" "cf_retries (rs_cfg s) = r" "rs_neg s = neg" "flight_within s" "negotiated_ok neg"
    and "sent_within p 0 (datagram_limit neg) n"
  shows "holds (rrq_unanswered p r neg) (ended_within p r neg) (rrq_next_window rd s n)"
proof -
  obtain q s1 where f: "fill_window rd s = (q, s1)" by fastforce
  note frame = fill_window_frame [OF f]
  have e: "ended_within p r neg (t, n)" for t :: "'f rrq_task"
    using sent_within_mono [OF assms(6)] by (simp add: ended_within_def)
  have "holds (rrq_unanswered p r neg) (ended_within p r neg) (rrq_send s1 0 n)"
    using assms frame fill_window_within [OF f assms(4)] by (intro rrq_send_unanswered) (simp_all add: budget_def)
  with f e show ?thesis by (cases q) (simp_all add: rrq_next_window_def)
qed

lemma rrq_send_oack_unanswered:
  assumes "rs_peer s = p" "cf_retries (rs_cfg s) = r" "rs_neg s = neg" "a \<le> r" "option_set_ok oack" "negotiated_ok neg"
    and "sent_within p (budget a neg 0) (datagram_limit neg) n"
  shows "holds (rrq_unanswered p r neg) (ended_within p r neg) (rrq_send_oack s oack a n)"
proof -
  obtain q n' where f: "send_to p (encode (Oack oack)) n = (q, n')" by fastforce
  have "length (encode (Oack oack)) \<le> datagram_limit neg"
    using length_encode_oack [OF assms(5)] by (simp add: datagram_limit_def)
  from sent_within_mono [OF sent_within_send(1) [OF f assms(7) this], of "budget a neg 1"]
  have "sent_within p (budget a neg 1) (datagram_limit neg) n'"
    using negotiated_window_pos [OF assms(6)] by (simp add: budget_def)
  with assms f ended_early [OF this assms(4)] show ?thesis
    by (cases q) (auto simp: rrq_send_oack_def rrq_unanswered_def)
qed

lemma rrq_event_unanswered:
  assumes "not_from p ev" "rrq_unanswered p r neg st"
  shows "holds (rrq_unanswered p r neg) (ended_within p r neg) (rrq_event rd ev st)"
proof -
  obtain t n where st: "st = (t, n)" by fastforce
  show ?thesis
  proof (cases t)
    case (RrqData s a)
    with assms(2) st have s: "rs_peer s = p" "cf_retries (rs_cfg s) = r" "rs_neg s = neg" "a \<le> r" "flight_within s"
      "negotiated_ok neg" and n: "sent_within p (budget a neg 1) (datagram_limit neg) n"
      by (simp_all add: rrq_unanswered_def)
    obtain q n' where rx: "recv_one p ev n = (q, n')" by fastforce
    note n' = sent_within_recv [OF rx n]
    have "holds (rrq_unanswered p r neg) (ended_within p r neg) (rrq_send s (a + 1) n')" if "a < r"
      using s n' that budget_next [OF that, of neg]
      by (intro rrq_send_unanswered) (simp_all add: inc_le)
    moreover have "ended_within p r neg (RrqData s a, send_error p NotDefined (ascii ''timed out'') n')"
      by (rule ended_error [OF n' s(4)]) simp
    ultimately show ?thesis
      using assms(1) st RrqData rx s n' ended_early [OF n' s(4)]
      by (cases q) (auto simp: rrq_data_event_def rrq_unanswered_def recv_one_def length_ascii not_from_iff not_le
          split: rx.splits if_splits)
  next
    case (RrqOack s oack a)
    with assms(2) st have s: "rs_peer s = p" "cf_retries (rs_cfg s) = r" "rs_neg s = neg" "a \<le> r" "option_set_ok oack"
      "negotiated_ok neg" and n: "sent_within p (budget a neg 1) (datagram_limit neg) n"
      by (simp_all add: rrq_unanswered_def)
    obtain q n' where rx: "recv_one p ev n = (q, n')" by fastforce
    note n' = sent_within_recv [OF rx n]
    have "holds (rrq_unanswered p r neg) (ended_within p r neg) (rrq_send_oack s oack (a + 1) n')" if "a < r"
      using s n' that budget_next [OF that, of neg]
      by (intro rrq_send_oack_unanswered) (simp_all add: inc_le)
    then show ?thesis
      using assms(1) st RrqOack rx s n' ended_early [OF n' s(4)]
      by (cases q) (auto simp: rrq_oack_event_def rrq_oack_retry_def rrq_unanswered_def recv_one_def not_from_iff
          order.order_iff_strict split: rx.splits if_splits)
  next
    case RrqClosed
    with assms(2) st show ?thesis by (simp add: rrq_unanswered_def)
  qed
qed

subsection \<open>Uploads\<close>

definition wrq_unanswered :: "sockaddr \<Rightarrow> u32 \<Rightarrow> negotiated \<Rightarrow> 'f wrq_state \<Rightarrow> bool" where
  "wrq_unanswered p r neg st \<longleftrightarrow> negotiated_ok neg \<and>
     (\<exists>s a. fst st = WrqRun s a \<and> wr_peer s = p \<and> cf_retries (wr_cfg s) = r \<and> wr_neg s = neg \<and> a \<le> r
        \<and> \<not> wr_finished s \<and> sent_within p (budget a neg 1) (datagram_limit neg) (snd st))"

lemma wrq_event_unanswered:
  assumes "not_from p ev" "wrq_unanswered p r neg st"
  shows "holds (wrq_unanswered p r neg) (ended_within p r neg) (wrq_event wr fl ev st)"
proof -
  obtain s a n where st: "st = (WrqRun s a, n)"
    and s: "wr_peer s = p" "cf_retries (wr_cfg s) = r" "wr_neg s = neg" "a \<le> r" "\<not> wr_finished s" "negotiated_ok neg"
    and n: "sent_within p (budget a neg 1) (datagram_limit neg) n"
    using assms(2) by (cases st) (auto simp: wrq_unanswered_def)
  obtain q n' where rx: "recv_one p ev n = (q, n')" by fastforce
  note n' = sent_within_recv [OF rx n]
  have again: "holds (wrq_unanswered p r neg) (ended_within p r neg) (wrq_ack b (a + 1) n' s s)" if "a < r" for b
  proof -
    obtain u n2 where f: "send_ack p b n' = (u, n2)" by fastforce
    have "length (encode (Ack b)) \<le> datagram_limit neg" by (simp add: datagram_limit_def)
    from sent_within_mono [OF sent_within_send(1) [OF f [unfolded send_ack_def] n' this], of "budget (a + 1) neg 1"]
    have "sent_within p (budget (a + 1) neg 1) (datagram_limit neg) n2"
      using negotiated_window_pos [OF s(6)] unat_inc_no_overflow [OF that] by (simp add: budget_def)
    with s f ended_early [OF this inc_le [OF that]] inc_le [OF that] show ?thesis
      by (cases u) (auto simp: wrq_ack_def wrq_loop_def wrq_unanswered_def)
  qed
  moreover have "ended_within p r neg (WrqRun s a, send_error p NotDefined (ascii ''timed out'') n')"
    by (rule ended_error [OF n' s(4)]) simp
  ultimately show ?thesis
    using assms(1) st rx s n' ended_early [OF n' s(4)]
    by (cases q) (auto simp: wrq_run_event_def wrq_unanswered_def recv_one_def not_from_iff not_le
        split: rx.splits if_splits)
qed

subsection \<open>A task from its request\<close>

definition conn_unanswered :: "sockaddr \<Rightarrow> u32 \<Rightarrow> negotiated \<Rightarrow> 'f conn_state \<Rightarrow> bool" where
  "conn_unanswered p r neg st \<longleftrightarrow>
     (case fst st of
        ConnRrq t \<Rightarrow> rrq_unanswered p r neg (t, snd st)
      | ConnWrq t \<Rightarrow> wrq_unanswered p r neg (t, snd st)
      | ConnClosed \<Rightarrow> False)"

lemma conn_lift:
  "holds (rrq_unanswered p r neg) (ended_within p r neg) q \<Longrightarrow>
     holds (conn_unanswered p r neg) (ended_within p r neg) (map_state (apfst ConnRrq) q)"
  "holds (wrq_unanswered p r neg) (ended_within p r neg) q' \<Longrightarrow>
     holds (conn_unanswered p r neg) (ended_within p r neg) (map_state (apfst ConnWrq) q')"
  by (cases q; auto simp: conn_unanswered_def ended_within_def) (cases q'; auto simp: conn_unanswered_def ended_within_def)

lemma conn_event_unanswered:
  assumes "not_from p ev" "conn_unanswered p r neg st"
  shows "holds (conn_unanswered p r neg) (ended_within p r neg) (conn_event sys ev st)"
  using assms
  by (cases st; cases "fst st")
    (auto simp: conn_unanswered_def intro: conn_lift(1) [OF rrq_event_unanswered] conn_lift(2) [OF wrq_event_unanswered])

lemma conn_unanswered_ended: "conn_unanswered p r neg st \<Longrightarrow> ended_within p r neg st"
  by (cases st; cases "fst st")
    (auto simp: conn_unanswered_def rrq_unanswered_def wrq_unanswered_def intro: ended_early split: rrq_task.splits)

lemma fresh_within: "sent_within p k l (net_new fs)"
  by (simp add: sent_within_def net_new_def)

text \<open>What an error before the transfer sends, for any parameters.\<close>

lemma refused_within:
  assumes "length msg \<le> 500"
  shows "ended_within p r neg (t, send_error q c msg (net_new fs))"
proof -
  have "length msg + 5 \<le> datagram_limit neg" using assms by (simp add: datagram_limit_def)
  from sent_within_mono [OF sent_within_error [OF fresh_within [of p 0] this]] show ?thesis
    by (simp add: ended_within_def)
qed

lemma refused_io_within: "ended_within p r neg (t, snd (map_io_to_error q e (net_new fs)))"
  by (auto simp: map_io_to_error_def intro!: refused_within split: io_kind.splits)

lemma untouched_within: "ended_within p r neg (t, net_new fs)"
  by (simp add: ended_within_def fresh_within)

text \<open>The parameters a task runs with, or any when it ends at once.\<close>

definition parameters :: "config \<Rightarrow> option_set \<Rightarrow> negotiated \<Rightarrow> bool" where
  "parameters cfg options neg \<longleftrightarrow> neg = negotiated_defaults \<or> (\<exists>fs oack. negotiate cfg options fs = Some (oack, neg))"

lemma serve_rrq_unanswered:
  assumes "option_set_ok options"
  shows "\<exists>neg. parameters cfg options neg
    \<and> holds (rrq_unanswered p (cf_retries cfg) neg) (ended_within p (cf_retries cfg) neg)
        (serve_rrq rd opn flen cfg p remote m options (net_new fs))"
proof (cases "\<exists>path f len oack neg. resolve (cf_root cfg) remote = Inr path \<and> opn path = Inr f \<and> flen f = Inr len
    \<and> negotiate cfg options (Some len) = Some (oack, neg)")
  case True
  then obtain path f len oack neg where run: "resolve (cf_root cfg) remote = Inr path" "opn path = Inr f" "flen f = Inr len"
    "negotiate cfg options (Some len) = Some (oack, neg)" by blast
  have ok: "option_set_ok oack" using negotiate_set_ok [OF run(4) assms] .
  then have neg: "negotiated_ok neg" using merge_oack_ok [OF _ negotiated_defaults_ok] negotiate_merge [OF run(4)] by metis
  let ?s = "rrq_sender_new p cfg neg f m"
  have new: "rs_peer ?s = p" "cf_retries (rs_cfg ?s) = cf_retries cfg" "rs_neg ?s = neg" "flight_within ?s"
    by (simp_all add: rrq_sender_new_def flight_within_def)
  have "holds (rrq_unanswered p (cf_retries cfg) neg) (ended_within p (cf_retries cfg) neg)
      (serve_rrq rd opn flen cfg p remote m options (net_new fs))"
    using run rrq_send_oack_unanswered [OF new(1-3) _ ok neg, of 0 "net_new fs"]
      rrq_next_window_unanswered [OF new neg, of "net_new fs" rd] fresh_within
    by (simp add: serve_rrq_def Let_def)
  moreover have "parameters cfg options neg" using run(4) by (auto simp: parameters_def)
  ultimately show ?thesis by blast
next
  case False
  then have "holds (rrq_unanswered p (cf_retries cfg) negotiated_defaults) (ended_within p (cf_retries cfg) negotiated_defaults)
      (serve_rrq rd opn flen cfg p remote m options (net_new fs))"
    by (auto simp: serve_rrq_def case_prod_beta untouched_within refused_within refused_io_within
        split: sum.split option.split)
  moreover have "parameters cfg options negotiated_defaults" by (simp add: parameters_def)
  ultimately show ?thesis by blast
qed

lemma serve_wrq_unanswered:
  assumes "option_set_ok options"
  shows "\<exists>neg. parameters cfg options neg
    \<and> holds (wrq_unanswered p (cf_retries cfg) neg) (ended_within p (cf_retries cfg) neg)
        (serve_wrq opn cfg p remote m options (net_new fs))"
proof (cases "\<exists>path f oack neg. resolve (cf_root cfg) remote = Inr path
    \<and> opn (if \<not> cf_allow_overwrite cfg then CreateNew else Truncate) path = Inr f
    \<and> negotiate cfg options None = Some (oack, neg)")
  case True
  then obtain path f oack neg where run: "resolve (cf_root cfg) remote = Inr path"
    "opn (if \<not> cf_allow_overwrite cfg then CreateNew else Truncate) path = Inr f"
    "negotiate cfg options None = Some (oack, neg)" by blast
  have ok: "option_set_ok oack" using negotiate_set_ok [OF run(3) assms] .
  then have neg: "negotiated_ok neg" using merge_oack_ok [OF _ negotiated_defaults_ok] negotiate_merge [OF run(3)] by metis
  let ?s = "wrq_receiver_new p cfg neg f m"
  let ?buf = "if \<not> option_set_is_empty oack then encode (Oack oack) else encode (Ack 0)"
  obtain q n where s: "send_to p ?buf (net_new fs) = (q, n)" by fastforce
  have "length ?buf \<le> datagram_limit neg"
    using length_encode_oack [OF ok] by (cases "option_set_is_empty oack") (simp_all add: datagram_limit_def)
  from sent_within_mono [OF sent_within_send(1) [OF s fresh_within [of p 0] this], of "budget 0 neg 1"]
  have n: "sent_within p (budget 0 neg 1) (datagram_limit neg) n"
    using negotiated_window_pos [OF neg] by (simp add: budget_def)
  have "holds (wrq_unanswered p (cf_retries cfg) neg) (ended_within p (cf_retries cfg) neg)
      (serve_wrq opn cfg p remote m options (net_new fs))"
    using run s n neg ended_early [OF n, of "cf_retries cfg"]
    by (cases q) (auto simp: serve_wrq_def Let_def wrq_send_initial_oack_def send_ack_def wrq_loop_def wrq_unanswered_def
        wrq_receiver_new_def split: if_splits)
  moreover have "parameters cfg options neg" using run(3) by (auto simp: parameters_def)
  ultimately show ?thesis by blast
next
  case False
  then have "holds (wrq_unanswered p (cf_retries cfg) negotiated_defaults) (ended_within p (cf_retries cfg) negotiated_defaults)
      (serve_wrq opn cfg p remote m options (net_new fs))"
    by (auto simp: serve_wrq_def case_prod_beta untouched_within refused_within refused_io_within
        split: sum.split option.split)
  moreover have "parameters cfg options negotiated_defaults" by (simp add: parameters_def)
  ultimately show ?thesis by blast
qed

text \<open>The window and the block size that a request asks for, else the defaults.\<close>

definition request_options :: "bytes \<Rightarrow> option_set" where
  "request_options frame = (case decode frame of Inr (Rrq _ _ options) \<Rightarrow> options | Inr (Wrq _ _ options) \<Rightarrow> options
     | _ \<Rightarrow> option_set_new)"

definition asked_window :: "bytes \<Rightarrow> nat" where
  "asked_window frame = (case window_size (request_options frame) of Some w \<Rightarrow> unat w | None \<Rightarrow> 1)"

definition asked_block :: "bytes \<Rightarrow> nat" where
  "asked_block frame = (case block_size (request_options frame) of Some b \<Rightarrow> unat b | None \<Rightarrow> 512)"

lemma request_options_ok: "option_set_ok (request_options frame)"
  using decode_packet_ok [of frame]
  by (auto simp: request_options_def split: sum.split packet.split)

lemma parameters_asked:
  assumes "parameters cfg (request_options frame) neg"
  shows "unat (ng_windowsize neg) \<le> asked_window frame" "unat (ng_blksize neg) \<le> max 512 (asked_block frame)"
proof -
  let ?o = "request_options frame"
  note ok = field_valid [OF request_options_ok [of frame]]
  have w1: "1 \<le> asked_window frame"
    using ok(3) by (auto simp: asked_window_def Suc_le_eq unat_gt_0 split: option.splits)
  have "unat (ng_windowsize neg) \<le> asked_window frame \<and> unat (ng_blksize neg) \<le> max 512 (asked_block frame)"
    using assms unfolding parameters_def
  proof (elim disjE exE)
    assume "neg = negotiated_defaults"
    then show ?thesis using w1 by simp
  next
    fix fs oack
    assume n: "negotiate cfg ?o fs = Some (oack, neg)"
    note f = negotiate_fields [OF n]
    have "unat (ng_windowsize neg) \<le> asked_window frame"
      using f(4,7) w1 ok(3) by (auto simp: asked_window_def max_one_word DEFAULT_WINDOW_SIZE_def split: option.splits if_splits)
    moreover have "unat (ng_blksize neg) \<le> max 512 (asked_block frame)"
    proof (cases "block_size ?o")
      case None
      with f(1,5) show ?thesis by (simp add: DEFAULT_BLOCK_SIZE_def)
    next
      case (Some b)
      with f(1,5) negotiate_panics_iff [of cfg ?o fs] n
      obtain c where c: "clamp_u16 b MIN_BLOCK_SIZE (cf_max_block_size cfg) = Some c" "ng_blksize neg = c"
        by (auto simp: clamp_u16_def)
      then have "c \<le> b" using clamp_u16_bounds ok(1) [OF Some] by blast
      with c Some show ?thesis by (simp add: asked_block_def word_le_nat_alt)
    qed
    ultimately show ?thesis by blast
  qed
  then show "unat (ng_windowsize neg) \<le> asked_window frame" "unat (ng_blksize neg) \<le> max 512 (asked_block frame)"
    by blast+
qed

lemma handle_initial_unanswered:
  "\<exists>neg. parameters cfg (request_options frame) neg
    \<and> holds (conn_unanswered p (cf_retries cfg) neg) (ended_within p (cf_retries cfg) neg)
        (handle_initial sys cfg p frame (net_new fs))"
proof -
  have closed: "\<exists>neg. parameters cfg (request_options frame) neg \<and> ended_within p (cf_retries cfg) neg (ConnClosed, net_new fs)"
    by (intro exI [of _ negotiated_defaults]) (simp add: parameters_def untouched_within)
  show ?thesis
  proof (cases "(\<exists>f m o'. decode frame = Inr (Rrq f m o') \<or> decode frame = Inr (Wrq f m o'))
      \<and> (\<exists>a. os_bind sys (bind_addr_for (cf_listen cfg)) = Inr a)")
    case False
    then show ?thesis
      by (cases "decode frame"; cases "os_bind sys (bind_addr_for (cf_listen cfg))")
        (auto simp: handle_initial_def intro: closed split: packet.split)
  next
    case True
    then obtain f m o' a where d: "decode frame = Inr (Rrq f m o') \<or> decode frame = Inr (Wrq f m o')"
      and a: "os_bind sys (bind_addr_for (cf_listen cfg)) = Inr a" by blast
    have o: "request_options frame = o'" "option_set_ok o'"
      using d request_options_ok [of frame] by (auto simp: request_options_def)
    from d show ?thesis
    proof
      assume d: "decode frame = Inr (Rrq f m o')"
      from serve_rrq_unanswered [OF o(2), of cfg p "os_read sys" "os_open sys" "os_len sys" f m fs]
      show ?thesis using d a o(1) conn_lift(1) by (fastforce simp: handle_initial_def)
    next
      assume d: "decode frame = Inr (Wrq f m o')"
      from serve_wrq_unanswered [OF o(2), of cfg p "os_create sys" f m fs]
      show ?thesis using d a o(1) conn_lift(2) by (fastforce simp: handle_initial_def)
    qed
  qed
qed

subsection \<open>Properties\<close>

text \<open>C23: What a forged request can make the server send to an address that does not answer: whatever events the
  task sees besides, at most one window of the requested size for each of its \<open>retries + 1\<close> attempts and one ERROR,
  each datagram at most a block of the requested size (or of 512 bytes) with its header. No file, option
  or failure makes it more.\<close>

theorem unanswered_request_bounded:
  assumes "\<forall>ev \<in> set evs. not_from p ev"
  shows "let q = drive (conn_event sys) (handle_initial sys cfg p frame (net_new fs)) evs;
        sent_to_p = filter (\<lambda>x. fst x = p) (sent (state_of q))
      in length sent_to_p \<le> (unat (cf_retries cfg) + 1) * asked_window frame + 1
        \<and> (\<forall>x \<in> set sent_to_p. length (snd x) \<le> max 512 (asked_block frame) + 4)"
proof -
  let ?q = "drive (conn_event sys) (handle_initial sys cfg p frame (net_new fs)) evs"
  let ?s = "filter (\<lambda>x. fst x = p) (sent (state_of ?q))"
  obtain neg where par: "parameters cfg (request_options frame) neg"
    and start: "holds (conn_unanswered p (cf_retries cfg) neg) (ended_within p (cf_retries cfg) neg)
        (handle_initial sys cfg p frame (net_new fs))"
    using handle_initial_unanswered by blast
  have "holds (conn_unanswered p (cf_retries cfg) neg) (ended_within p (cf_retries cfg) neg) ?q"
    by (rule drive_holds [OF start assms conn_event_unanswered])
  then have "ended_within p (cf_retries cfg) neg (state_of ?q)"
    by (rule holds_weaken) (rule conn_unanswered_ended)
  then have n: "length ?s \<le> budget (cf_retries cfg) neg 1 + 1" "\<forall>x \<in> set ?s. length (snd x) \<le> datagram_limit neg"
    by (auto simp: ended_within_def sent_within_def)
  note asked = parameters_asked [OF par]
  have "budget (cf_retries cfg) neg 1 \<le> (unat (cf_retries cfg) + 1) * asked_window frame"
    unfolding budget_def using asked(1) by (rule mult_le_mono2)
  then have "length ?s \<le> (unat (cf_retries cfg) + 1) * asked_window frame + 1" using n(1) by linarith
  moreover have "datagram_limit neg \<le> max 512 (asked_block frame) + 4" using asked(2) by (simp add: datagram_limit_def)
  ultimately show ?thesis using n(2) unfolding Let_def by (meson order_trans)
qed

lemma dl_server_resends:
  assumes "faults n = []" "a < 5"
  shows "conn_event (mem_sys small) RxTimeout (ConnRrq (RrqData dl_server a), n)
    = Running (ConnRrq (RrqData dl_server (a + 1)),
        arm (ng_timeout negotiated_defaults) (n\<lparr>outbox := outbox n @ [(client_addr, encode (Data 1 small))]\<rparr>))"
  using assms
  by (simp add: rrq_data_event_def recv_one_def rrq_send_def send_window_def dl_server_def)

lemma dl_server_gives_up:
  assumes "faults n = []"
  shows "conn_event (mem_sys small) RxTimeout (ConnRrq (RrqData dl_server 5), n)
    = Done (Inl (TimedOut 5)) (ConnRrq (RrqData dl_server 5),
        n\<lparr>outbox := outbox n @ [(client_addr, encode (ErrorPkt NotDefined (ascii ''timed out'')))]\<rparr>)"
  using assms by (simp add: rrq_data_event_def recv_one_def dl_server_def send_error_def)

lemma dl_server_silence:
  assumes "faults n = []" "k \<le> 5"
  shows "sent (state_of (drive (conn_event (mem_sys small)) (Running (ConnRrq (RrqData dl_server (5 - of_nat k)), n))
      (replicate (Suc k) RxTimeout)))
    = outbox n @ replicate k (client_addr, encode (Data 1 small))
      @ [(client_addr, encode (ErrorPkt NotDefined (ascii ''timed out'')))]"
  using assms
proof (induction k arbitrary: n)
  case 0
  then show ?case by (simp add: dl_server_gives_up del: conn_event.simps)
next
  case (Suc k)
  have "k = 0 \<or> k = 1 \<or> k = 2 \<or> k = 3 \<or> k = 4" using Suc.prems(2) by linarith
  then have a: "(5 - of_nat (Suc k) :: u32) < 5" "5 - of_nat (Suc k) + (1 :: u32) = 5 - of_nat k" by auto
  let ?n = "arm (ng_timeout negotiated_defaults) (n\<lparr>outbox := outbox n @ [(client_addr, encode (Data 1 small))]\<rparr>)"
  have "drive (conn_event (mem_sys small)) (Running (ConnRrq (RrqData dl_server (5 - of_nat (Suc k))), n))
      (replicate (Suc (Suc k)) RxTimeout)
    = drive (conn_event (mem_sys small)) (Running (ConnRrq (RrqData dl_server (5 - of_nat k)), ?n)) (replicate (Suc k) RxTimeout)"
    using dl_server_resends [OF Suc.prems(1) a(1)] unfolding a(2) by (simp del: conn_event.simps of_nat_Suc)
  with Suc.IH [of ?n] Suc.prems show ?case by simp
qed

text \<open>A download of three bytes that nobody answers: the server sends its window six times, then an ERROR.\<close>

theorem unanswered_request_bounded_witness:
  "\<exists>out. outbox (snd (state_of (drive (conn_event (mem_sys small))
        (handle_initial (mem_sys small) root_cfg client_addr get_request (net_new [])) (replicate 6 RxTimeout)))) = out
    \<and> length (filter (\<lambda>x. fst x = client_addr) out) \<le> 7
    \<and> out = replicate 6 (client_addr, encode (Data 1 small)) @ [(client_addr, encode (ErrorPkt NotDefined (ascii ''timed out'')))]"
proof -
  let ?q = "drive (conn_event (mem_sys small))
        (handle_initial (mem_sys small) root_cfg client_addr get_request (net_new [])) (replicate 6 RxTimeout)"
  have d: "decode get_request = Inr (Rrq [97] Octet option_set_new)" by (simp add: decode_encode)
  have "asked_window get_request = 1"
    unfolding asked_window_def request_options_def d by (simp add: window_size_def option_set_new_def)
  then have "length (filter (\<lambda>x. fst x = client_addr) (outbox (snd (state_of ?q)))) \<le> 7"
    using unanswered_request_bounded [of "replicate 6 RxTimeout" client_addr "mem_sys small" root_cfg get_request "[]"]
    by (simp add: Let_def del: drive.simps)
  moreover have "outbox (snd (state_of ?q)) = replicate 6 (client_addr, encode (Data 1 small))
      @ [(client_addr, encode (ErrorPkt NotDefined (ascii ''timed out'')))]"
  proof -
    obtain n where "handle_initial (mem_sys small) root_cfg client_addr get_request (net_new [])
        = Running (ConnRrq (RrqData dl_server 0), n)"
      "outbox n = [(client_addr, encode (Data 1 small))]" "faults n = []" using dl_server_start by blast
    moreover have "(6 :: nat) = Suc 5" by simp
    ultimately show ?thesis using dl_server_silence [of n 5] by (simp only: replicate_Suc append.simps) simp
  qed
  ultimately show ?thesis by blast
qed

end
