(* ===== verification/Addressing.thy ===== *)
theory Addressing
  imports Amplification
begin

text \<open>
  Who a task writes to. A server task sends to the address that its request came from, and answers
  a datagram from any other address with the ERROR \<open>unknown transfer id\<close>, nothing else. A client
  sends its request to the server's address, then everything to the address that answered it.
\<close>

subsection \<open>One step\<close>

fun source_of :: "rx \<Rightarrow> sockaddr option" where
  "source_of (RxFrom src _) = Some src"
| "source_of _ = None"

definition writes_to :: "sockaddr \<Rightarrow> rx \<Rightarrow> datagram \<Rightarrow> bool" where
  "writes_to p ev x \<longleftrightarrow> fst x = p \<or> (source_of ev = Some (fst x) \<and> snd x = unknown_tid_packet)"

text \<open>
  A step from the network state \<open>n\<close> ends in a task state for which \<open>F\<close> holds, and sends to \<open>p\<close> or
  answers the sender of a stray datagram.
\<close>

definition steps_for :: "('t \<Rightarrow> bool) \<Rightarrow> sockaddr \<Rightarrow> rx \<Rightarrow> net \<Rightarrow> ('t \<times> net, 'r) progress \<Rightarrow> bool" where
  "steps_for F p ev n q \<longleftrightarrow> F (fst (state_of q)) \<and> sends_only (writes_to p ev) n (snd (state_of q))"

lemma steps_for_simps [simp]:
  "steps_for F p ev n (Running (t, n')) \<longleftrightarrow> F t \<and> sends_only (writes_to p ev) n n'"
  "steps_for F p ev n (Done r (t, n')) \<longleftrightarrow> F t \<and> sends_only (writes_to p ev) n n'"
  "steps_for F p ev n (Panicked (t, n')) \<longleftrightarrow> F t \<and> sends_only (writes_to p ev) n n'"
  by (simp_all add: steps_for_def)

lemma steps_for_trans:
  "sends_only (writes_to p ev) n n' \<Longrightarrow> steps_for F p ev n' q \<Longrightarrow> steps_for F p ev n q"
  using sends_only_trans by (auto simp: steps_for_def)

lemma steps_for_map:
  "steps_for (F \<circ> f) p ev n q \<Longrightarrow> steps_for F p ev n (map_state (apfst f) q)"
  by (simp add: steps_for_def apfst_def map_prod_def case_prod_beta)

lemma writes_send: "send_to p buf n = (r, n') \<Longrightarrow> sends_only (writes_to p ev) n n'"
  using sends_only_send [of "writes_to p ev" p buf n] by (simp add: writes_to_def)

lemma writes_ack: "send_ack p b n = (r, n') \<Longrightarrow> sends_only (writes_to p ev) n n'"
  unfolding send_ack_def by (rule writes_send)

lemma writes_error: "sends_only (writes_to p ev) n (send_error p c msg n)"
  by (rule sends_only_send_error) (simp add: writes_to_def)

lemma writes_recv: "recv_one p ev n = (r, n') \<Longrightarrow> sends_only (writes_to p ev) n n'"
  by (auto simp: recv_one_def writes_to_def intro: sends_only_send split: rx.splits if_splits)

lemma writes_flight: "send_flight p fl n = (r, n') \<Longrightarrow> sends_only (writes_to p ev) n n'"
proof (induction p fl n rule: send_flight.induct)
  case (2 p bn d fl n)
  obtain q n1 where s: "send_to p (encode (Data bn d)) n = (q, n1)" by fastforce
  note one = writes_send [OF s, of ev]
  show ?case
  proof (cases q)
    case (Inl e)
    with 2(2) s one show ?thesis by simp
  next
    case (Inr u)
    with 2 s have "sends_only (writes_to p ev) n1 n'" by simp
    with one show ?thesis by (rule sends_only_trans)
  qed
qed simp

subsection \<open>Server tasks\<close>

definition rrq_for :: "sockaddr \<Rightarrow> 'f rrq_task \<Rightarrow> bool" where
  "rrq_for p t \<longleftrightarrow> (case t of RrqClosed \<Rightarrow> True | RrqOack s _ _ \<Rightarrow> rs_peer s = p | RrqData s _ \<Rightarrow> rs_peer s = p)"

definition wrq_for :: "sockaddr \<Rightarrow> 'f wrq_task \<Rightarrow> bool" where
  "wrq_for p t \<longleftrightarrow> (case t of WrqClosed \<Rightarrow> True | WrqRun s _ \<Rightarrow> wr_peer s = p)"

definition conn_for :: "sockaddr \<Rightarrow> 'f conn \<Rightarrow> bool" where
  "conn_for p c \<longleftrightarrow> (case c of ConnClosed \<Rightarrow> True | ConnRrq t \<Rightarrow> rrq_for p t | ConnWrq t \<Rightarrow> wrq_for p t)"

lemma for_simps [simp]:
  "rrq_for p RrqClosed" "rrq_for p (RrqOack s oack a) = (rs_peer s = p)" "rrq_for p (RrqData s a) = (rs_peer s = p)"
  "wrq_for p WrqClosed" "wrq_for p (WrqRun w a) = (wr_peer w = p)"
  "conn_for p ConnClosed" "conn_for p (ConnRrq t) = rrq_for p t" "conn_for p (ConnWrq u) = wrq_for p u"
  by (simp_all add: rrq_for_def wrq_for_def conn_for_def)

lemma rrq_send_for: "rs_peer s = p \<Longrightarrow> steps_for (rrq_for p) p ev n (rrq_send s a n)"
  by (auto simp: rrq_send_def send_window_def intro: writes_flight split: prod.split sum.split)

lemma rrq_next_window_for: "rs_peer s = p \<Longrightarrow> steps_for (rrq_for p) p ev n (rrq_next_window rd s n)"
  by (auto simp: rrq_next_window_def dest!: fill_window_frame intro: rrq_send_for split: prod.split sum.split)

lemma rrq_send_oack_for: "rs_peer s = p \<Longrightarrow> steps_for (rrq_for p) p ev n (rrq_send_oack s oack a n)"
  by (auto simp: rrq_send_oack_def intro: writes_send split: prod.split sum.split)

lemma rrq_oack_retry_for: "rs_peer s = p \<Longrightarrow> steps_for (rrq_for p) p ev n (rrq_oack_retry s oack a n)"
  by (auto simp: rrq_oack_retry_def intro: rrq_send_oack_for)

lemma server_consume_ack_peer: "server_consume_ack s b = (adv, s') \<Longrightarrow> rs_peer s' = rs_peer s"
  by (auto simp: server_consume_ack_def Let_def split: prod.splits if_splits)

lemma rrq_data_event_for:
  assumes "rs_peer s = p"
  shows "steps_for (rrq_for p) p ev n (rrq_data_event rd ev s a n)"
proof -
  obtain r n' where rx: "recv_one p ev n = (r, n')" by fastforce
  note n' = writes_recv [OF rx]
  have "steps_for (rrq_for p) p ev n' (case server_consume_ack s b of (advanced, s1) \<Rightarrow>
      if advanced then rrq_next_window rd s1 n' else rrq_send s1 a n')" for b
    using assms by (auto dest!: server_consume_ack_peer intro: rrq_next_window_for rrq_send_for split: prod.split)
  then have "steps_for (rrq_for p) p ev n' (rrq_data_event rd ev s a n)"
    using assms rx
    by (cases r) (auto simp: rrq_data_event_def intro: writes_error rrq_send_for split: sum.split packet.split)
  with n' show ?thesis by (rule steps_for_trans)
qed

lemma rrq_oack_event_for:
  assumes "rs_peer s = p"
  shows "steps_for (rrq_for p) p ev n (rrq_oack_event rd ev s oack a n)"
proof -
  obtain r n' where rx: "recv_one p ev n = (r, n')" by fastforce
  note n' = writes_recv [OF rx]
  have "steps_for (rrq_for p) p ev n' (rrq_oack_event rd ev s oack a n)"
    using assms rx
    by (cases r) (auto simp: rrq_oack_event_def intro: rrq_oack_retry_for rrq_next_window_for split: sum.split packet.split)
  with n' show ?thesis by (rule steps_for_trans)
qed

lemma rrq_event_for: "rrq_for p (fst st) \<Longrightarrow> steps_for (rrq_for p) p ev (snd st) (rrq_event rd ev st)"
  by (cases "(rd, ev, st)" rule: rrq_event.cases) (auto intro: rrq_oack_event_for rrq_data_event_for)

lemma wrq_loop_for: "wr_peer s = p \<Longrightarrow> steps_for (wrq_for p) p ev n (wrq_loop s a n)"
  by (auto simp: wrq_loop_def)

lemma wrq_ack_for:
  assumes "wr_peer s = p" "wr_peer s' = p"
  shows "steps_for (wrq_for p) p ev n (wrq_ack b a n s s')"
proof -
  obtain r n' where k: "send_ack p b n = (r, n')" by fastforce
  with assms steps_for_trans [OF writes_ack [OF k] wrq_loop_for [OF assms(2)]] writes_ack [OF k] show ?thesis
    by (cases r) (auto simp: wrq_ack_def)
qed

lemma wrq_write_peer:
  "wrq_write_block wr s d = (r, s') \<Longrightarrow> wr_peer s' = wr_peer s"
  "wrq_write_tail wr fl s = (r, s') \<Longrightarrow> wr_peer s' = wr_peer s"
  by (auto simp: wrq_write_block_def wrq_write_tail_def split: prod.splits sum.splits)

lemma wrq_in_order_for:
  assumes "wr_peer s = p"
  shows "steps_for (wrq_for p) p ev n (wrq_in_order wr fl s b d n)"
proof -
  obtain r s1 where w: "wrq_write_block wr s d = (r, s1)" by fastforce
  let ?s = "s1\<lparr>wr_last_acked := b, wr_next_block := wr_next_block s1 + 1, wr_blocks_in_window := wr_blocks_in_window s1 + 1\<rparr>"
  obtain q s2 where t: "wrq_write_tail wr fl ?s = (q, s2)" by fastforce
  have p: "wr_peer s1 = p" "wr_peer s2 = p" using wrq_write_peer(1) [OF w] wrq_write_peer(2) [OF t] assms by simp_all
  then show ?thesis
    using w t assms by (cases r; cases q) (simp_all add: wrq_in_order_def Let_def wrq_ack_for wrq_loop_for)
qed

lemma wrq_data_for: "wr_peer s = p \<Longrightarrow> steps_for (wrq_for p) p ev n (wrq_data wr fl s b d n)"
  by (simp add: wrq_data_def wrq_in_order_for wrq_ack_for)

lemma wrq_event_for:
  assumes "wrq_for p (fst st)"
  shows "steps_for (wrq_for p) p ev (snd st) (wrq_event wr fl ev st)"
proof (cases st)
  case (Pair t n)
  show ?thesis
  proof (cases t)
    case (WrqRun s a)
    with assms Pair have s: "wr_peer s = p" by simp
    obtain r n' where rx: "recv_one p ev n = (r, n')" by fastforce
    have "steps_for (wrq_for p) p ev n' (wrq_run_event wr fl ev s a n)"
      using s rx
      by (cases r) (auto simp: wrq_run_event_def intro: wrq_ack_for wrq_loop_for wrq_data_for writes_error
          split: sum.split packet.split)
    with writes_recv [OF rx] have "steps_for (wrq_for p) p ev n (wrq_run_event wr fl ev s a n)"
      by (rule steps_for_trans)
    then show ?thesis using Pair WrqRun by simp
  qed (use Pair in auto)
qed

lemma conn_event_for:
  assumes "conn_for p (fst st)"
  shows "steps_for (conn_for p) p ev (snd st) (conn_event sys ev st)"
proof (cases st)
  case (Pair c n)
  show ?thesis
  proof (cases c)
    case (ConnRrq t)
    with assms Pair rrq_event_for [of p "(t, n)" ev "os_read sys"] show ?thesis
      by (auto intro!: steps_for_map simp: comp_def)
  next
    case (ConnWrq t)
    with assms Pair wrq_event_for [of p "(t, n)" ev "os_write sys" "os_flush sys"] show ?thesis
      by (auto intro!: steps_for_map simp: comp_def)
  qed (use Pair in auto)
qed

lemma serve_rrq_for: "steps_for (rrq_for p) p ev n (serve_rrq rd opn flen cfg p remote m options n)"
proof -
  have new: "rs_peer (rrq_sender_new p cfg neg f m) = p" for neg f by (simp add: rrq_sender_new_def)
  show ?thesis
    by (auto simp: serve_rrq_def map_io_to_error_def Let_def case_prod_beta
        intro: writes_error rrq_send_oack_for [OF new] rrq_next_window_for [OF new] split: sum.split option.split)
qed

lemma serve_wrq_for: "steps_for (wrq_for p) p ev n (serve_wrq opn cfg p remote m options n)"
proof -
  have new: "wr_peer (wrq_receiver_new p cfg neg f m) = p" for neg f by (simp add: wrq_receiver_new_def)
  have answer: "steps_for (wrq_for p) p ev n
      (case send_to p buf n of
         (Inl e, n') \<Rightarrow> Done (Inl e) (WrqRun (wrq_receiver_new p cfg neg f m) 0, n')
       | (Inr _, n') \<Rightarrow> wrq_loop (wrq_receiver_new p cfg neg f m) 0 n')" for buf neg f
  proof -
    obtain r n' where s: "send_to p buf n = (r, n')" by fastforce
    note n' = writes_send [OF s]
    show ?thesis using s n' steps_for_trans [OF n' wrq_loop_for [OF new]] new by (cases r) simp_all
  qed
  have closed: "steps_for (wrq_for p) p ev n (case map_io_to_error p e n of (e', n') \<Rightarrow> Done (Inl e') (WrqClosed, n'))" for e
    by (simp add: map_io_to_error_def Let_def case_prod_beta writes_error)
  show ?thesis
    by (simp add: serve_wrq_def Let_def wrq_send_initial_oack_def send_ack_def answer closed writes_error
        split: sum.split option.split)
qed

lemma handle_initial_for: "steps_for (conn_for p) p ev n (handle_initial sys cfg p frame n)"
  by (auto simp: handle_initial_def comp_def serve_rrq_for serve_wrq_for intro!: steps_for_map
      split: sum.split packet.split)

text \<open>A run of the task: its answers to strays go to addresses among the events.\<close>

lemma drive_for:
  assumes "conn_for p (fst (state_of q))"
  shows "conn_for p (fst (state_of (drive (conn_event sys) q evs)))
    \<and> (\<forall>x \<in> set (sent (state_of (drive (conn_event sys) q evs))). x \<in> set (sent (state_of q)) \<or> (\<exists>ev \<in> set evs. writes_to p ev x))"
  using assms
proof (induction evs arbitrary: q)
  case (Cons ev evs)
  show ?case
  proof (cases q)
    case (Running st)
    with Cons.prems have one: "steps_for (conn_for p) p ev (snd st) (conn_event sys ev st)"
      by (intro conn_event_for) simp
    then have "conn_for p (fst (state_of (conn_event sys ev st)))" by (simp add: steps_for_def)
    from Cons.IH [OF this] one Running show ?thesis
      by (auto simp: steps_for_def dest: sends_only_outbox)
  qed (use Cons.prems in auto)
qed simp

subsection \<open>The downloading client\<close>

definition get_for :: "sockaddr \<Rightarrow> 'f get_task \<Rightarrow> bool" where
  "get_for p t \<longleftrightarrow> (case t of GetData s _ \<Rightarrow> gt_peer s = p | _ \<Rightarrow> False)"

lemma get_for_simps [simp]:
  "get_for p (GetData s a) = (gt_peer s = p)" "\<not> get_for p (GetRequest s a)" "\<not> get_for p GetClosed"
  by (simp_all add: get_for_def)

lemma get_ack_for:
  assumes "gt_peer s = p" "gt_peer s' = p"
  shows "steps_for (get_for p) p ev n (get_ack b a n s s')"
proof -
  obtain r n' where k: "send_ack p b n = (r, n')" by fastforce
  with assms writes_ack [OF k] show ?thesis by (cases r) (simp_all add: get_ack_def get_loop_def)
qed

lemma get_final_for:
  assumes "gt_peer s = p"
  shows "steps_for (get_for p) p ev n (get_final wr fl b s n)"
proof -
  obtain r n' where k: "send_ack p b n = (r, n')" by fastforce
  obtain q w where f: "receiver_finish wr fl (gt_writer s) = (q, w)" by fastforce
  from assms k f writes_ack [OF k] show ?thesis by (cases r; cases q) (simp_all add: get_final_def)
qed

lemma get_in_order_for:
  assumes "gt_peer s = p"
  shows "steps_for (get_for p) p ev n (get_in_order wr fl s b d n)"
proof -
  obtain r w where w: "receiver_write_block wr (gt_writer s) d = (r, w)" by fastforce
  with assms show ?thesis
    by (cases r) (simp_all add: get_in_order_def Let_def get_loop_def get_final_for get_ack_for)
qed

lemma get_first_data_for:
  assumes "gt_peer s = p"
  shows "steps_for (get_for p) p ev n (get_first_data wr fl s b d n)"
proof -
  obtain r w where w: "receiver_write_block wr (gt_writer s) d = (r, w)" by fastforce
  with assms show ?thesis
    by (cases r) (simp_all add: get_first_data_def Let_def get_loop_def get_final_for get_ack_for)
qed

lemma get_data_event_for:
  assumes "gt_peer s = p"
  shows "steps_for (get_for p) p ev n (get_data_event wr fl ev s a n)"
proof -
  obtain r n' where rx: "recv_one p ev n = (r, n')" by fastforce
  have "steps_for (get_for p) p ev n' (get_data_event wr fl ev s a n)"
    using assms rx
    by (cases r) (simp_all add: get_data_event_def get_loop_def get_ack_for get_in_order_for split: sum.split packet.split)
  with writes_recv [OF rx] show ?thesis by (rule steps_for_trans)
qed

text \<open>
  A step of the handshake: it stays in the handshake only as after a timeout, whatever arrived; it
  ends the download; or the datagram is the first answer, and its source becomes the peer.
\<close>

lemma get_request_event_cases:
  obtains (again) s' a' n' where
      "get_request_event wr fl ev s a n = Running (GetRequest s' a', n')"
      "get_request_event wr fl RxTimeout s a n = Running (GetRequest s' a', n')"
    | (failed) e a' n' where "get_request_event wr fl ev s a n = Done (Inl e) (GetRequest s a', n')"
        "sends_only (\<lambda>x. x = (gt_server s, gt_request s)) n n'"
    | (answer) src d where "ev = RxFrom src d" "steps_for (get_for src) src ev n (get_request_event wr fl ev s a n)"
proof -
  have retry: "get_request_event wr fl RxTimeout s a n = get_retry s a n"
    by (simp add: get_request_event_def get_retry_def)
  obtain r n' where k: "send_to (gt_server s) (gt_request s) n = (r, n')" by fastforce
  have snt: "sends_only (\<lambda>x. x = (gt_server s, gt_request s)) n n'"
    using sends_only_send [of "\<lambda>x. x = (gt_server s, gt_request s)" "gt_server s" "gt_request s" n] k by simp
  have step: thesis if "get_request_event wr fl ev s a n = get_retry s a n"
    using that k retry again failed [OF _ snt] failed [OF _ sends_only_refl]
    by (cases r) (auto simp: get_retry_def get_send_request_def split: if_splits)
  show thesis
  proof (cases ev)
    case RxTimeout
    then show thesis using step retry by simp
  next
    case (RxError e)
    then show thesis using failed [of "Io e" a n] by (simp add: get_request_event_def)
  next
    case (RxFrom src d)
    note ans = answer [OF RxFrom]
    show thesis
    proof (cases "decode (rx_buffer d)")
      case (Inl e)
      with RxFrom show thesis using failed [of e a n] by (simp add: get_request_event_def)
    next
      case (Inr p)
      show thesis
      proof (cases p)
        case (Data b x)
        with RxFrom Inr show thesis by (intro ans) (simp add: get_request_event_def get_first_data_for)
      next
        case (ErrorPkt c m)
        with RxFrom Inr show thesis using failed [of "Peer c m" a n] by (simp add: get_request_event_def)
      next
        case (Oack o')
        show thesis
        proof (cases "gt_want_oack s")
          case True
          with RxFrom Inr Oack show thesis by (intro ans) (simp add: get_request_event_def get_ack_for Let_def)
        next
          case False
          with RxFrom Inr Oack show thesis by (intro step) (simp add: get_request_event_def)
        qed
      qed (use RxFrom Inr in \<open>auto intro: step simp: get_request_event_def\<close>)
    qed
  qed
qed

text \<open>Everything the client has sent, by phase.\<close>

definition get_addressed :: "sockaddr \<Rightarrow> bytes \<Rightarrow> 'f get_state \<Rightarrow> bool" where
  "get_addressed server request st \<longleftrightarrow>
     (case fst st of
        GetClosed \<Rightarrow> sent st = []
      | GetRequest s _ \<Rightarrow> gt_server s = server \<and> gt_request s = request \<and> set (sent st) \<subseteq> {(server, request)}
      | GetData s _ \<Rightarrow> (\<forall>x \<in> set (sent st). x = (server, request) \<or> fst x = gt_peer s \<or> snd x = unknown_tid_packet))"

lemma get_addressed_data:
  assumes "steps_for (get_for p) p ev n q"
    and "\<forall>x \<in> set (outbox n). x = (server, request) \<or> fst x = p \<or> snd x = unknown_tid_packet"
  shows "get_addressed server request (state_of q)"
proof -
  obtain s a n' where st: "state_of q = (GetData s a, n')" "gt_peer s = p"
    using assms(1) by (cases "state_of q"; cases "fst (state_of q)") (auto simp: steps_for_def)
  with assms show ?thesis
    by (auto simp: get_addressed_def steps_for_def writes_to_def dest!: sends_only_outbox)
qed

lemma get_addressed_request:
  assumes "get_request_event wr fl RxTimeout s a n = Running (GetRequest s' a', n')"
  shows "s' = s" "sends_only (\<lambda>x. x = (gt_server s, gt_request s)) n n'"
proof -
  obtain r m where k: "send_to (gt_server s) (gt_request s) n = (r, m)" by fastforce
  with sends_only_send [of "\<lambda>x. x = (gt_server s, gt_request s)" "gt_server s" "gt_request s" n]
  have "sends_only (\<lambda>x. x = (gt_server s, gt_request s)) n m" by simp
  with assms k show "s' = s" "sends_only (\<lambda>x. x = (gt_server s, gt_request s)) n n'"
    by (cases r; auto simp: get_request_event_def get_retry_def get_send_request_def split: if_splits)+
qed

lemma get_event_addressed:
  assumes "get_addressed server request st"
  shows "get_addressed server request (state_of (get_event wr fl ev st))"
proof (cases st)
  case (Pair t n)
  show ?thesis
  proof (cases t)
    case (GetRequest s a)
    with assms Pair have s: "gt_server s = server" "gt_request s = request" "set (outbox n) \<subseteq> {(server, request)}"
      by (simp_all add: get_addressed_def)
    have "get_addressed server request (state_of (get_request_event wr fl ev s a n))"
    proof (cases rule: get_request_event_cases [of wr fl ev s a n])
      case (again s' a' n')
      with get_addressed_request [OF again(2)] s show ?thesis
        by (auto simp: get_addressed_def dest: sends_only_outbox)
    next
      case (failed e a' n')
      with s show ?thesis by (auto simp: get_addressed_def dest: sends_only_outbox)
    next
      case (answer src d)
      with s show ?thesis by (intro get_addressed_data) auto
    qed
    with Pair GetRequest show ?thesis by simp
  next
    case (GetData s a)
    with assms Pair get_addressed_data [OF get_data_event_for [of s "gt_peer s" ev n wr fl a], of server request] show ?thesis
      by (simp add: get_addressed_def)
  qed (use assms Pair in simp)
qed

lemma do_get_addressed:
  assumes "outbox n = []"
  shows "get_addressed server (encode (Rrq remote (op_mode opts) (build_request_options opts None)))
    (state_of (do_get bnd opts server remote w n))"
proof -
  obtain r n' where k: "send_to server (encode (Rrq remote (op_mode opts) (build_request_options opts None))) n = (r, n')"
    by fastforce
  with assms send_to_outbox [of server "encode (Rrq remote (op_mode opts) (build_request_options opts None))" n]
  show ?thesis
    by (cases r; cases "bnd (bind_addr_for server)")
      (auto simp: do_get_unfold get_send_request_def getter_new_def Let_def get_addressed_def)
qed

subsection \<open>Properties\<close>

text \<open>C24: A server task writes to its client only. Whatever it receives, every datagram it ever sends goes to the
  address its request came from, or is the ERROR \<open>unknown transfer id\<close> to an address that wrote to it.\<close>

theorem server_answers_requester:
  assumes "x \<in> set (sent (state_of (drive (conn_event sys) (handle_initial sys cfg p frame (net_new fs)) evs)))"
  shows "fst x = p \<or> (snd x = unknown_tid_packet \<and> (\<exists>d. RxFrom (fst x) d \<in> set evs))"
proof -
  let ?q = "handle_initial sys cfg p frame (net_new fs)"
  have start: "steps_for (conn_for p) p RxTimeout (net_new fs) ?q" by (rule handle_initial_for)
  have "\<forall>y \<in> set (sent (state_of ?q)). fst y = p"
    using start sends_only_outbox [of "writes_to p RxTimeout" "net_new fs"]
    by (auto simp: steps_for_def writes_to_def net_new_def)
  moreover have "conn_for p (fst (state_of ?q))" using start by (simp add: steps_for_def)
  ultimately have "fst x = p \<or> (\<exists>ev \<in> set evs. writes_to p ev x)"
    using drive_for [of p ?q sys evs] assms by blast
  then show ?thesis by (auto simp: writes_to_def elim!: source_of.elims)
qed

theorem server_answers_requester_witness:
  "\<exists>out. sent (state_of (drive (conn_event (mem_sys small)) (handle_initial (mem_sys small) root_cfg client_addr get_request
       (net_new [])) [RxFrom server_addr [0]])) = out
    \<and> out = [(client_addr, encode (Data 1 small)), (server_addr, unknown_tid_packet)]
    \<and> (\<forall>x \<in> set out. fst x = client_addr \<or> (snd x = unknown_tid_packet \<and> (\<exists>d. RxFrom (fst x) d \<in> set [RxFrom server_addr [0]])))"
proof -
  let ?q = "drive (conn_event (mem_sys small)) (handle_initial (mem_sys small) root_cfg client_addr get_request (net_new []))
      [RxFrom server_addr [0]]"
  obtain n where "handle_initial (mem_sys small) root_cfg client_addr get_request (net_new [])
      = Running (ConnRrq (RrqData dl_server 0), n)" "outbox n = [(client_addr, encode (Data 1 small))]" "faults n = []"
    using dl_server_start by blast
  then have "sent (state_of ?q) = [(client_addr, encode (Data 1 small)), (server_addr, unknown_tid_packet)]"
    by (simp add: rrq_data_event_def recv_one_def dl_server_def)
  then show ?thesis
    using server_answers_requester [where sys = "mem_sys small" and cfg = root_cfg and p = client_addr and frame = get_request
        and fs = "[]" and evs = "[RxFrom server_addr [0]]"]
    by (intro exI [of _ "sent (state_of ?q)"]) blast
qed

text \<open>C25: The handshake trusts whoever answers first. A client that waits for the answer to its request takes it from
  any address: one DATA packet shorter than a block, whoever sent it, is the whole download and \<open>get\<close> returns \<open>Ok\<close>;
  and any datagram that does not parse, whoever sent it, ends a download or an upload with an error.\<close>

theorem first_answer_trusted:
  assumes "faults n = []"
  shows "(\<forall>src x. length x < 512 \<longrightarrow>
      (\<exists>s n'. get_event wr fl (RxFrom src (encode (Data 1 x)))
          (GetRequest (getter_new opts server remote (receiver_new (SinkVec []) Octet)) a, n)
        = Done (Inr (of_nat (length x))) (GetData s 0, n') \<and> into_vec (gt_writer s) = Some x))
    \<and> (\<forall>src d e. decode (rx_buffer d) = Inl e \<longrightarrow>
      get_event wr fl (RxFrom src d) (GetRequest g a, n) = Done (Inl e) (GetRequest g a, n)
      \<and> put_event rd (RxFrom src d) (PutRequest p a, n) = Done (Inl e) (PutRequest p a, n))"
proof (intro conjI allI impI)
  fix src :: sockaddr and x :: bytes
  assume x: "length x < 512"
  then show "\<exists>s n'. get_event wr fl (RxFrom src (encode (Data 1 x)))
      (GetRequest (getter_new opts server remote (receiver_new (SinkVec []) Octet)) a, n)
    = Done (Inr (of_nat (length x))) (GetData s 0, n') \<and> into_vec (gt_writer s) = Some x"
    using assms by (simp add: run_simps Let_def into_vec_def)
qed (simp_all add: get_request_event_def put_request_event_def)

theorem first_answer_trusted_witness:
  "(\<exists>s n'. get_event vec_write vec_flush (RxFrom (V4 6 6) (encode (Data 1 [6, 6, 6])))
        (GetRequest (getter_new client_options_default server_addr [97] (receiver_new (SinkVec []) Octet)) 0, net_new [])
      = Done (Inr 3) (GetData s 0, n') \<and> into_vec (gt_writer s) = Some [6, 6, 6])
    \<and> get_event vec_write vec_flush (RxFrom (V4 6 6) [0]) (GetRequest dl_getter 0, net_new [])
      = Done (Inl (Malformed (ascii ''packet shorter than opcode''))) (GetRequest dl_getter 0, net_new [])"
proof -
  have f: "faults (net_new []) = []" by (simp add: net_new_def)
  have dec: "decode (rx_buffer [0]) = Inl (Malformed (ascii ''packet shorter than opcode''))" by (simp add: decode_def MAX_PACKET_SIZE_eq)
  note both = first_answer_trusted [OF f, of vec_write vec_flush client_options_default server_addr "[97]" 0 dl_getter
      vec_read "ul_sender client_options_default small"]
  from conjunct1 [OF both, rule_format, where src = "V4 6 6" and x = "[6, 6, 6]"]
    conjunct2 [OF both, rule_format, OF dec, where src = "V4 6 6"]
  show ?thesis by (simp del: get_event.simps)
qed

end
