(* ===== verification/Deployment.thy ===== *)
theory Deployment
  imports Addressing
begin

text \<open>
  A whole deployment: the server with all its tasks and all its clients, and one downloading client
  among them. Where the end-to-end theorems follow one client and one task, here the listener may
  start several tasks for the client (its request is repeated after a timeout, or duplicated by the
  network), and tasks for anybody else. \<open>addr j\<close> is the address of the socket of task \<open>j\<close>.
\<close>

subsection \<open>The world\<close>

type_synonym ('f, 'g) world = "'f running \<times> ('g get_state, u64) progress"

text \<open>
  Addresses are not forged where it matters: a datagram that the server's sockets receive from the
  client's address \<open>ra\<close> was sent by the client to that socket (now or earlier, lost, repeated and
  reordered as the network likes). Every other address may send anything at any time.
\<close>

fun server_sees :: "(nat \<Rightarrow> sockaddr) \<Rightarrow> sockaddr \<Rightarrow> sockaddr \<Rightarrow> datagram list \<Rightarrow> run_event \<Rightarrow> bool" where
  "server_sees addr server ra out (Incoming src d fs) \<longleftrightarrow> src = ra \<longrightarrow> (server, d) \<in> set out"
| "server_sees addr server ra out (TaskEvent j (RxFrom src d)) \<longleftrightarrow> src = ra \<longrightarrow> (addr j, d) \<in> set out"
| "server_sees addr server ra out _ \<longleftrightarrow> True"

text \<open>
  A datagram that the client receives from the address of a task was sent to it by that task. Once it
  has a peer, the client may receive anything from addresses that are no task's. Before that it
  trusts whoever answers, so there only the tasks answer.
\<close>

definition sent_by :: "(nat \<Rightarrow> sockaddr) \<Rightarrow> sockaddr \<Rightarrow> ('f conn_state, unit) progress list \<Rightarrow> bytes \<Rightarrow> nat \<Rightarrow> bool" where
  "sent_by addr ra ts d j \<longleftrightarrow> (ra, d) \<in> set (sent (state_of (ts ! j)))"

fun client_sees ::
  "(nat \<Rightarrow> sockaddr) \<Rightarrow> sockaddr \<Rightarrow> ('f conn_state, unit) progress list \<Rightarrow> 'g get_state \<Rightarrow> rx \<Rightarrow> bool" where
  "client_sees addr ra ts (GetData _ _, _) (RxFrom src d) \<longleftrightarrow>
     (\<forall>j < length ts. src = addr j \<longrightarrow> sent_by addr ra ts d j)"
| "client_sees addr ra ts (_, _) (RxFrom src d) \<longleftrightarrow>
     (\<exists>j < length ts. src = addr j \<and> sent_by addr ra ts d j)"
| "client_sees addr ra ts _ _ \<longleftrightarrow> True"

inductive world_step ::
  "'f os \<Rightarrow> server \<Rightarrow> 'g writer \<Rightarrow> 'g flusher \<Rightarrow> (nat \<Rightarrow> sockaddr) \<Rightarrow> sockaddr \<Rightarrow> sockaddr \<Rightarrow>
   ('f, 'g) world \<Rightarrow> ('f, 'g) world \<Rightarrow> bool"
  for sys sv wr fl addr server ra
where
  server_event: "server_sees addr server ra (sent (state_of Q)) ev \<Longrightarrow>
    world_step sys sv wr fl addr server ra (R, Q) (run_step sys sv ev R, Q)"
| client_event: "client_sees addr ra (tasks R) t ev \<Longrightarrow>
    world_step sys sv wr fl addr server ra (R, Running t) (R, get_event wr fl ev t)"

text \<open>A property of every task, kept by a step of the server.\<close>

definition all_tasks :: "(nat \<Rightarrow> ('f conn_state, unit) progress \<Rightarrow> bool) \<Rightarrow> 'f running \<Rightarrow> bool" where
  "all_tasks F R \<longleftrightarrow> (\<forall>j < length (tasks R). F j (tasks R ! j))"

lemma all_tasks_step:
  assumes "all_tasks F R"
    and "\<And>i rx p. ev = TaskEvent i rx \<Longrightarrow> i < length (tasks R) \<Longrightarrow> F i p \<Longrightarrow> F i (drive (conn_event sys) p [rx])"
    and "\<And>src d fs. ev = Incoming src d fs \<Longrightarrow>
      F (length (tasks R)) (handle_initial sys (sv_cfg sv) src (rx_buffer d) (net_new fs))"
  shows "all_tasks F (run_step sys sv ev R)"
  using assms unfolding all_tasks_def
  by (cases ev; auto simp: run_step_def listen_step_def nth_append nth_list_update less_Suc_eq split: option.split)

lemma tasks_grow: "length (tasks R) \<le> length (tasks (run_step sys sv ev R))"
  by (cases ev; auto simp: run_step_def listen_step_def split: option.split)

text \<open>The two moves as rules on runs.\<close>

lemma world_to_server:
  assumes "(world_step sys sv wr fl addr server ra)\<^sup>*\<^sup>* W (R, Q)"
    and "server_sees addr server ra (sent (state_of Q)) ev" "run_step sys sv ev R = R'"
  shows "(world_step sys sv wr fl addr server ra)\<^sup>*\<^sup>* W (R', Q)"
  unfolding assms(3) [symmetric] using assms(1) server_event [OF assms(2)] by (rule rtranclp.rtrancl_into_rtrancl)

lemma world_to_client:
  assumes "(world_step sys sv wr fl addr server ra)\<^sup>*\<^sup>* W (R, Running t)"
    and "client_sees addr ra (tasks R) t ev" "get_event wr fl ev t = Q"
  shows "(world_step sys sv wr fl addr server ra)\<^sup>*\<^sup>* W (R, Q)"
  unfolding assms(3) [symmetric] using assms(1) client_event [OF assms(2)] by (rule rtranclp.rtrancl_into_rtrancl)

lemma drive_one: "drive step p [ev] = (case p of Running s \<Rightarrow> step ev s | _ \<Rightarrow> p)"
  by (cases p) simp_all

subsection \<open>Tasks beside the transfer\<close>

text \<open>
  \<open>foreign\<close>: the task of another client; \<open>silent\<close>: it has not written to \<open>ra\<close>; \<open>ended\<close>: it has
  returned an error or never served a file.
\<close>

definition foreign :: "sockaddr \<Rightarrow> ('f conn_state, unit) progress \<Rightarrow> bool" where
  "foreign ra p \<longleftrightarrow> (\<exists>q. q \<noteq> ra \<and> conn_for q (fst (state_of p)))"

definition silent :: "sockaddr \<Rightarrow> ('f conn_state, unit) progress \<Rightarrow> bool" where
  "silent ra p \<longleftrightarrow> foreign ra p \<and> ra \<notin> fst ` set (sent (state_of p))"

fun conn_idle :: "'f conn \<Rightarrow> bool" where
  "conn_idle (ConnRrq (RrqData _ _)) = False"
| "conn_idle (ConnRrq (RrqOack _ _ _)) = False"
| "conn_idle (ConnWrq (WrqRun _ _)) = False"
| "conn_idle _ = True"

definition ended :: "('f conn_state, unit) progress \<Rightarrow> bool" where
  "ended p \<longleftrightarrow> (\<exists>e s. p = Done (Inl e) s) \<or> conn_idle (fst (state_of p))"

lemma silent_foreign: "silent ra p \<Longrightarrow> foreign ra p"
  by (simp add: silent_def foreign_def)

lemma foreign_step:
  assumes "foreign ra p"
  shows "foreign ra (drive (conn_event sys) p [ev])"
proof (cases p)
  case (Running st)
  with assms obtain q where "q \<noteq> ra" "conn_for q (fst st)" by (auto simp: foreign_def)
  with conn_event_for [OF this(2), of ev sys] Running show ?thesis by (auto simp: foreign_def steps_for_def)
qed (use assms in auto)

lemma silent_step:
  assumes "silent ra p" "not_from ra ev"
  shows "silent ra (drive (conn_event sys) p [ev])"
proof (cases p)
  case (Running st)
  with assms(1) obtain q where q: "q \<noteq> ra" "conn_for q (fst st)" "ra \<notin> fst ` set (sent st)"
    by (auto simp: silent_def foreign_def)
  have "\<not> writes_to q ev (ra, d)" for d
    using assms(2) q(1) by (cases ev) (auto simp: writes_to_def)
  with q conn_event_for [OF q(2), of ev sys] Running show ?thesis
    by (fastforce simp: silent_def foreign_def steps_for_def dest: sends_only_outbox)
qed (use assms in auto)

lemma ended_step:
  assumes "ended p"
  shows "ended (drive (conn_event sys) p [ev])"
proof (cases p)
  case (Running st)
  with assms have "conn_idle (fst st)" by (simp add: ended_def)
  with Running show ?thesis
    by (cases st; cases "fst st" rule: conn_idle.cases) (simp_all add: ended_def)
qed (use assms in auto)

lemma started_foreign:
  assumes "src \<noteq> ra"
  shows "silent ra (handle_initial sys cfg src frame (net_new fs))"
proof -
  have "steps_for (conn_for src) src RxTimeout (net_new fs) (handle_initial sys cfg src frame (net_new fs))"
    by (rule handle_initial_for)
  with assms show ?thesis
    by (fastforce simp: silent_def foreign_def steps_for_def writes_to_def outbox_net_new dest: sends_only_outbox)
qed

text \<open>The answer to a stray datagram ends the task that gets it, whichever its client is.\<close>

lemma decode_error_sent:
  assumes "\<forall>b \<in> set msg. b < 128 \<and> b \<noteq> 0" "length msg \<le> 500"
  shows "decode (rx_buffer (encode (ErrorPkt c msg))) = Inr (ErrorPkt c msg)"
proof -
  have "length (encode (ErrorPkt c msg)) \<le> MAX_PACKET_SIZE"
    using assms(2) by (simp add: encode_simps MAX_PACKET_SIZE_eq)
  moreover have "packet_ok (ErrorPkt c msg)" using assms(1) by (simp add: ascii_cstr_ok)
  ultimately show ?thesis by (simp add: decode_encode)
qed

lemma decode_unknown_tid: "decode (rx_buffer unknown_tid_packet) = Inr (ErrorPkt UnknownTid (ascii ''unknown transfer id''))"
  unfolding unknown_tid_packet_def by (rule decode_error_sent) (simp_all add: ascii_def)

lemma stray_answer_ends:
  assumes "conn_for p (fst st)"
  shows "ended (conn_event sys (RxFrom p unknown_tid_packet) st)"
proof (cases st)
  case (Pair c n)
  with assms decode_unknown_tid show ?thesis
    by (cases c rule: conn_idle.cases)
      (auto simp: ended_def rrq_data_event_def rrq_oack_event_def wrq_run_event_def recv_one_def)
qed

lemma stray_answer_starts_nothing: "ended (handle_initial sys cfg p (rx_buffer unknown_tid_packet) n)"
  by (simp add: handle_initial_def decode_unknown_tid ended_def split: sum.split)

subsection \<open>One client in the world\<close>

text \<open>
  The client's request is repeated only while it waits for the first answer, so up to then it is
  alone: \<open>Q\<close> comes from \<open>Q0\<close> by events that involve no task. A task that the request started is
  then \<open>waiting_task\<close>: it has not heard from the client. The task that answers first is \<open>linked\<close>: it and
  the client are a reachable state of the two-party system.
\<close>

locale deployment =
  fixes sys :: "'f os" and sv :: server and wr :: "'g writer" and fl :: "'g flusher"
    and addr :: "nat \<Rightarrow> sockaddr" and server :: sockaddr and ra :: sockaddr
    and bnd :: "sockaddr \<Rightarrow> io_error + unit" and opts :: client_options and remote :: str
    and w :: "'g receiver" and n0 :: net
  assumes addr_server: "server \<noteq> addr j"
    and request_fits: "length (encode (Rrq remote (op_mode opts) (build_request_options opts None))) \<le> MAX_PACKET_SIZE"
    and unsent: "outbox n0 = []"
begin

abbreviation "request \<equiv> encode (Rrq remote (op_mode opts) (build_request_options opts None))"
abbreviation "Q0 \<equiv> do_get bnd opts server remote w n0"

abbreviation "pair_run sa \<equiv> sys_reach (conn_event sys) (get_event wr fl) sent sent sa ra (\<lambda>_. not_from ra) (get_env sa)"

definition alone :: "('g get_state, u64) progress \<Rightarrow> bool" where
  "alone Q \<longleftrightarrow> (\<forall>sa P. pair_run sa (P, Q0) (P, Q))"

definition linked :: "nat \<Rightarrow> ('f conn_state, unit) progress \<Rightarrow> ('g get_state, u64) progress \<Rightarrow> bool" where
  "linked j p Q \<longleftrightarrow> (\<exists>fs. pair_run (addr j) (handle_initial sys (sv_cfg sv) ra request (net_new fs), Q0) (p, Q))"

definition waiting_task :: "nat \<Rightarrow> ('f conn_state, unit) progress \<Rightarrow> bool" where
  "waiting_task j p \<longleftrightarrow> conn_for ra (fst (state_of p)) \<and> linked j p Q0"

definition bystander :: "nat \<Rightarrow> ('f conn_state, unit) progress \<Rightarrow> bool" where
  "bystander j p \<longleftrightarrow> waiting_task j p \<or> foreign ra p \<or> ended p"

lemma alone_start: "alone Q0"
  by (simp add: alone_def reach_start)

lemma alone_step:
  assumes "alone (Running (GetRequest g a, n))" "quiet ev"
  shows "alone (get_event wr fl ev (GetRequest g a, n))"
  using assms unfolding alone_def by (intro allI) (rule reach_other_receiver [OF _ _ refl], simp_all)

lemma alone_linked: "linked j p Q0 \<Longrightarrow> alone Q \<Longrightarrow> linked j p Q"
  unfolding linked_def alone_def using sys_reach_trans by blast

lemma linked_sender:
  assumes "linked j p Q" "\<And>d. ev = RxFrom ra d \<Longrightarrow> (addr j, d) \<in> set (sent (state_of Q))"
  shows "linked j (drive (conn_event sys) p [ev]) Q"
proof (cases p)
  case (Running st)
  with assms(1) obtain fs where
    run: "pair_run (addr j) (handle_initial sys (sv_cfg sv) ra request (net_new fs), Q0) (Running st, Q)"
    by (auto simp: linked_def)
  then have "pair_run (addr j) (handle_initial sys (sv_cfg sv) ra request (net_new fs), Q0) (conn_event sys ev st, Q)"
  proof (cases "not_from ra ev")
    case True
    then show ?thesis by (rule reach_other_sender [OF run _ refl])
  next
    case False
    then obtain d where d: "ev = RxFrom ra d" by (auto simp: not_from_iff)
    show ?thesis unfolding d by (rule reach_to_sender [OF run assms(2) [OF d] refl])
  qed
  with Running show ?thesis by (auto simp: linked_def)
qed (use assms in auto)

lemma linked_receiver:
  assumes "linked j p (Running t)" "get_env (addr j) t ev \<or> (\<exists>d. ev = RxFrom (addr j) d \<and> (ra, d) \<in> set (sent (state_of p)))"
  shows "linked j p (get_event wr fl ev t)"
  using assms unfolding linked_def
  by (blast intro: reach_to_receiver [OF _ _ refl] reach_other_receiver [OF _ _ refl])

lemma conn_for_drive:
  assumes "conn_for q (fst (state_of p))"
  shows "conn_for q (fst (state_of (drive (conn_event sys) p [ev])))"
  using assms conn_event_for [of q _ ev sys] by (cases p) (auto simp: steps_for_def)

lemma waiting_task_step:
  assumes "waiting_task j p" "not_from ra ev"
  shows "waiting_task j (drive (conn_event sys) p [ev])"
  using assms linked_sender [of j p Q0 ev] conn_for_drive [of ra p ev]
  by (auto simp: waiting_task_def not_from_iff)

lemma waiting_task_start: "waiting_task j (handle_initial sys (sv_cfg sv) ra request (net_new fs))"
  using handle_initial_for [of ra RxTimeout "net_new fs" sys "sv_cfg sv" request]
  unfolding waiting_task_def linked_def steps_for_def by (blast intro: reach_start)

lemma bystander_step:
  assumes "bystander j p" "\<And>d. ev = RxFrom ra d \<Longrightarrow> d = unknown_tid_packet"
  shows "bystander j (drive (conn_event sys) p [ev])"
  using assms(1) unfolding bystander_def
proof (elim disjE)
  assume wt: "waiting_task j p"
  show "waiting_task j (drive (conn_event sys) p [ev]) \<or> foreign ra (drive (conn_event sys) p [ev])
      \<or> ended (drive (conn_event sys) p [ev])"
  proof (cases "not_from ra ev")
    case True
    with wt show ?thesis using waiting_task_step by blast
  next
    case False
    then have ev: "ev = RxFrom ra unknown_tid_packet" using assms(2) by (auto simp: not_from_iff)
    show ?thesis
    proof (cases p)
      case (Running st)
      with wt have "conn_for ra (fst st)" by (simp add: waiting_task_def)
      with stray_answer_ends [OF this] Running ev show ?thesis by simp
    qed (use wt in auto)
  qed
qed (use foreign_step ended_step in blast)+

lemma bystander_start:
  assumes "src = ra \<Longrightarrow> d = request \<or> d = unknown_tid_packet"
  shows "bystander j (handle_initial sys (sv_cfg sv) src (rx_buffer d) (net_new fs))"
proof (cases "src = ra")
  case True
  with assms request_fits waiting_task_start [of j fs]
    stray_answer_starts_nothing [of sys "sv_cfg sv" ra "net_new fs"] show ?thesis
    by (auto simp: bystander_def)
next
  case False
  with silent_foreign [OF started_foreign [OF False, of sys "sv_cfg sv" "rx_buffer d" fs]] show ?thesis by (simp add: bystander_def)
qed

text \<open>The three phases of the client's life.\<close>

definition handshaking :: "('f, 'g) world \<Rightarrow> bool" where
  "handshaking W \<longleftrightarrow> (case W of (R, Q) \<Rightarrow>
     (\<exists>g a n. Q = Running (GetRequest g a, n)) \<and> get_addressed server request (state_of Q) \<and> alone Q
     \<and> all_tasks (\<lambda>j p. waiting_task j p \<or> silent ra p) R)"

definition settled :: "nat \<Rightarrow> ('f, 'g) world \<Rightarrow> bool" where
  "settled i W \<longleftrightarrow> (case W of (R, Q) \<Rightarrow>
     get_for (addr i) (fst (state_of Q)) \<and> get_addressed server request (state_of Q) \<and> i < length (tasks R)
     \<and> all_tasks (\<lambda>j p. if j = i then linked j p Q else bystander j p) R)"

definition given_up :: "('f, 'g) world \<Rightarrow> bool" where
  "given_up W \<longleftrightarrow> (case W of (R, Q) \<Rightarrow>
     (\<exists>e s. Q = Done (Inl e) s) \<and> set (sent (state_of Q)) \<subseteq> {(server, request)}
     \<and> all_tasks bystander R)"

text \<open>What the server receives from the client in each phase.\<close>

lemma handshaking_server:
  assumes "handshaking (R, Q)" "server_sees addr server ra (sent (state_of Q)) ev"
  shows "handshaking (run_step sys sv ev R, Q)"
proof -
  obtain g a n where Q: "Q = Running (GetRequest g a, n)" "alone Q" "get_addressed server request (state_of Q)"
    and ts: "all_tasks (\<lambda>j p. waiting_task j p \<or> silent ra p) R"
    using assms(1) by (auto simp: handshaking_def)
  then have out: "set (sent (state_of Q)) \<subseteq> {(server, request)}" by (simp add: get_addressed_def)
  have "all_tasks (\<lambda>j p. waiting_task j p \<or> silent ra p) (run_step sys sv ev R)"
  proof (rule all_tasks_step [OF ts])
    fix i rx p
    assume ev: "ev = TaskEvent i rx" and p: "waiting_task i p \<or> silent ra p"
    have "not_from ra rx" using assms(2) ev out addr_server [of i] by (cases rx) auto
    then show "waiting_task i (drive (conn_event sys) p [rx]) \<or> silent ra (drive (conn_event sys) p [rx])"
      using p waiting_task_step silent_step by blast
  next
    fix src d fs
    assume "ev = Incoming src d fs"
    with assms(2) out have "src = ra \<longrightarrow> d = request" by auto
    then show "waiting_task (length (tasks R)) (handle_initial sys (sv_cfg sv) src (rx_buffer d) (net_new fs))
        \<or> silent ra (handle_initial sys (sv_cfg sv) src (rx_buffer d) (net_new fs))"
      using request_fits waiting_task_start started_foreign [of src ra sys "sv_cfg sv" "rx_buffer d" fs] by (cases "src = ra") auto
  qed
  with Q show ?thesis by (simp add: handshaking_def)
qed

lemma given_up_server:
  assumes "given_up (R, Q)" "server_sees addr server ra (sent (state_of Q)) ev"
  shows "given_up (run_step sys sv ev R, Q)"
proof -
  have out: "set (sent (state_of Q)) \<subseteq> {(server, request)}" and ts: "all_tasks bystander R"
    using assms(1) by (auto simp: given_up_def)
  have "all_tasks bystander (run_step sys sv ev R)"
  proof (rule all_tasks_step [OF ts])
    fix i rx p
    assume ev: "ev = TaskEvent i rx" and p: "bystander i p"
    then show "bystander i (drive (conn_event sys) p [rx])"
      using assms(2) out addr_server [of i] by (intro bystander_step [OF p]) auto
  next
    fix src d fs
    assume "ev = Incoming src d fs"
    with assms(2) out show "bystander (length (tasks R)) (handle_initial sys (sv_cfg sv) src (rx_buffer d) (net_new fs))"
      by (intro bystander_start) auto
  qed
  with assms(1) show ?thesis by (simp add: given_up_def)
qed

lemma settled_server:
  assumes "settled i (R, Q)" "server_sees addr server ra (sent (state_of Q)) ev"
    and inj: "inj_on addr {..<length (tasks R)}"
  shows "settled i (run_step sys sv ev R, Q)"
proof -
  have i: "get_for (addr i) (fst (state_of Q))" "get_addressed server request (state_of Q)" "i < length (tasks R)"
    and ts: "all_tasks (\<lambda>j p. if j = i then linked j p Q else bystander j p) R"
    using assms(1) by (auto simp: settled_def)
  have out: "x = (server, request) \<or> fst x = addr i \<or> snd x = unknown_tid_packet" if "x \<in> set (sent (state_of Q))" for x
    using i(1,2) that by (cases "fst (state_of Q)") (auto simp: get_addressed_def)
  let ?F = "\<lambda>j p. if j = i then linked j p Q else bystander j p"
  have task: "?F k (drive (conn_event sys) p [rx])" 
    if ev: "ev = TaskEvent k rx" and k: "k < length (tasks R)" and p: "?F k p" for k rx p
  proof -
    have sent: "(addr k, d) \<in> set (sent (state_of Q))" if "rx = RxFrom ra d" for d
      using assms(2) ev that by simp
    show ?thesis
    proof (cases "k = i")
      case True
      with p sent show ?thesis by (auto intro: linked_sender)
    next
      case False
      then have "addr k \<noteq> addr i" using inj k i(3) by (auto dest: inj_onD)
      with sent out addr_server [of k] have "d = unknown_tid_packet" if "rx = RxFrom ra d" for d
        using that by fastforce
      with False p bystander_step [of k p rx] show ?thesis by simp
    qed
  qed
  have new: "?F (length (tasks R)) (handle_initial sys (sv_cfg sv) src (rx_buffer d) (net_new fs))"
    if ev: "ev = Incoming src d fs" for src d fs
  proof -
    have "d = request \<or> d = unknown_tid_packet" if "src = ra"
      using assms(2) that ev out addr_server [of i] by fastforce
    from bystander_start [OF this] i(3) show ?thesis by simp
  qed
  have "all_tasks ?F (run_step sys sv ev R)"
    by (rule all_tasks_step [OF ts]) (erule (2) task, erule new)
  with i tasks_grow [of R sys sv ev] show ?thesis by (simp add: settled_def)
qed

text \<open>What the client receives in each phase.\<close>

lemma waiting_bystanders:
  "all_tasks (\<lambda>j p. waiting_task j p \<or> silent ra p) R \<Longrightarrow> all_tasks bystander R"
  using silent_foreign by (auto simp: all_tasks_def bystander_def)

lemma handshaking_client:
  assumes "handshaking (R, Running t)" "client_sees addr ra (tasks R) t ev"
  shows "handshaking (R, get_event wr fl ev t) \<or> given_up (R, get_event wr fl ev t)
    \<or> (\<exists>i. settled i (R, get_event wr fl ev t))"
proof -
  let ?Q = "get_event wr fl ev t"
  obtain g a n where t: "t = (GetRequest g a, n)" and al: "alone (Running t)"
    and ad: "get_addressed server request t"
    and ts: "all_tasks (\<lambda>j p. waiting_task j p \<or> silent ra p) R"
    using assms(1) by (auto simp: handshaking_def)
  have ad': "get_addressed server request (state_of ?Q)" by (rule get_event_addressed [OF ad])
  note by' = waiting_bystanders [OF ts]
  show ?thesis
  proof (cases rule: get_request_event_cases [of wr fl ev g a n])
    case (again s' a' n')
    with alone_step [of g a n RxTimeout] al t have "alone ?Q" by simp
    with again ad' ts t have "handshaking (R, ?Q)" by (simp add: handshaking_def)
    then show ?thesis ..
  next
    case (failed e a' n')
    with ad' by' t have "given_up (R, ?Q)" by (simp add: given_up_def get_addressed_def)
    then show ?thesis by blast
  next
    case (answer src d)
    with assms(2) t obtain i where i: "i < length (tasks R)" "src = addr i" "sent_by addr ra (tasks R) d i"
      by auto
    then have "\<not> silent ra (tasks R ! i)" by (force simp: silent_def foreign_def sent_by_def)
    with ts i(1) have "linked i (tasks R ! i) Q0" by (auto simp: all_tasks_def waiting_task_def)
    from alone_linked [OF this al] have "linked i (tasks R ! i) ?Q"
      using answer(1) i(2,3) by (intro linked_receiver) (simp_all add: sent_by_def)
    with ad' by' i answer t have "settled i (R, ?Q)"
      by (simp add: settled_def steps_for_def all_tasks_def)
    then show ?thesis by blast
  qed
qed

lemma settled_client:
  assumes "settled i (R, Running t)" "client_sees addr ra (tasks R) t ev"
  shows "settled i (R, get_event wr fl ev t)"
proof -
  let ?Q = "get_event wr fl ev t"
  obtain s a n where t: "t = (GetData s a, n)" "gt_peer s = addr i"
    using assms(1) by (cases t; cases "fst t") (auto simp: settled_def)
  have i: "i < length (tasks R)" "get_addressed server request t" "linked i (tasks R ! i) (Running t)"
    and ts: "\<forall>j < length (tasks R). j \<noteq> i \<longrightarrow> bystander j (tasks R ! j)"
    using assms(1) by (auto simp: settled_def all_tasks_def)
  have "get_env (addr i) t ev \<or> (\<exists>d. ev = RxFrom (addr i) d \<and> (ra, d) \<in> set (sent (state_of (tasks R ! i))))"
    using assms(2) t i(1) by (cases ev) (auto simp: sent_by_def)
  from linked_receiver [OF i(3) this] have "linked i (tasks R ! i) ?Q" .
  moreover have "get_for (addr i) (fst (state_of ?Q))"
    using get_data_event_for [OF t(2), of ev n wr fl a] t(1) by (simp add: steps_for_def)
  ultimately show ?thesis
    using i(1) ts get_event_addressed [OF i(2), of wr fl ev] by (simp add: settled_def all_tasks_def)
qed

text \<open>Every world reached from the start is in one of the phases.\<close>

abbreviation "world_run \<equiv> (world_step sys sv wr fl addr server ra)\<^sup>*\<^sup>* (run_start, Q0)"

lemma world_phases:
  assumes "world_run W" "inj_on addr {..<length (tasks (fst W))}"
  shows "handshaking W \<or> given_up W \<or> (\<exists>i. settled i W)"
  using assms
proof (induction rule: rtranclp_induct)
  case base
  show ?case
  proof (cases "bnd (bind_addr_for server)")
    case (Inl e)
    with unsent show ?thesis by (simp add: given_up_def do_get_unfold all_tasks_def run_start_def)
  next
    case (Inr u)
    note ad = do_get_addressed [OF unsent, of server remote opts bnd w]
    obtain r n where "get_send_request (getter_new opts server remote w) 0 n0 = r" by blast
    with Inr ad alone_start show ?thesis
      by (cases r) (auto simp: handshaking_def given_up_def do_get_unfold all_tasks_def run_start_def get_addressed_def
          get_send_request_def split: prod.splits sum.splits)
  qed
next
  case (step W W')
  have "length (tasks (fst W)) \<le> length (tasks (fst W'))"
    using step(2) tasks_grow by (cases rule: world_step.cases) auto
  then have inj: "inj_on addr {..<length (tasks (fst W))}" using step.prems by (auto intro: inj_on_subset)
  from step(2) step.IH [OF inj] inj show ?case
  proof (induction rule: world_step.induct)
    case (server_event Q ev R)
    then show ?case unfolding fst_conv using handshaking_server given_up_server settled_server by blast
  next
    case (client_event R t ev)
    moreover have "\<not> given_up (R, Running t)" by (simp add: given_up_def)
    ultimately show ?case using handshaking_client settled_client by blast
  qed
qed

text \<open>A client that has returned \<open>Ok\<close>, and a task that has served a file to the client's address.\<close>

lemma world_client_ok:
  assumes "world_run (R, Done (Inr r) t)" "inj_on addr {..<length (tasks R)}"
  shows "\<exists>i < length (tasks R). linked i (tasks R ! i) (Done (Inr r) t)"
  using world_phases [OF assms(1)] assms(2) by (auto simp: handshaking_def given_up_def settled_def all_tasks_def)

lemma world_never_started:
  assumes "world_run (R, Q)" "\<And>t. Q0 \<noteq> Running t"
  shows "Q = Q0"
  using assms(1)
proof (induction "(R, Q)" arbitrary: R Q rule: rtranclp_induct)
  case (step W)
  have "Running t \<noteq> Q0" for t using assms(2) [of t] by (rule not_sym)
  with step(2,3) show ?case by (cases rule: world_step.cases) auto
qed simp

lemma world_task_ok:
  assumes "world_run (R, Q)" "inj_on addr {..<length (tasks R)}"
    and "j < length (tasks R)" "tasks R ! j = Done (Inr ()) (ConnRrq (RrqData s a), n)" "rs_peer s = ra"
  shows "(\<exists>e t. Q = Done (Inl e) t) \<or> linked j (tasks R ! j) Q
    \<or> linked j (tasks R ! j) Q0 \<and> (\<exists>t. Q0 = Running t)"
proof (cases Q0)
  case (Running t)
  have "\<not> silent ra (tasks R ! j)" "\<not> foreign ra (tasks R ! j)" "\<not> ended (tasks R ! j)"
    using assms(4,5) by (auto simp: silent_def foreign_def ended_def)
  with world_phases [OF assms(1)] assms(2,3) Running show ?thesis
    by (auto simp: handshaking_def given_up_def settled_def all_tasks_def bystander_def waiting_task_def split: if_splits)
next
  case (Done r t)
  have "Q0 \<noteq> Done (Inr x) t" for x by (rule do_get_not_ok)
  with Done world_never_started [OF assms(1)] show ?thesis by (cases r) auto
next
  case (Panicked t)
  then show ?thesis by (auto simp: do_get_unfold get_send_request_def split: sum.splits prod.splits)
qed

end

subsection \<open>A deployment in memory\<close>

text \<open>Two tasks for the same request, each with a port of its own.\<close>

definition task_addr :: "nat \<Rightarrow> sockaddr" where
  "task_addr j = (if j = 0 then server_tid else V4 0x7F000001 50001)"

definition mem_server :: server where
  "mem_server = \<lparr>sv_cfg = root_cfg, sv_local_addr = server_addr\<rparr>"

lemma task_addr_facts [simp]:
  "server_addr \<noteq> task_addr j" "task_addr j \<noteq> server_addr" "inj_on task_addr {..<2}" "client_addr \<noteq> task_addr j"
  by (auto simp: task_addr_def server_addr_def client_addr_def server_tid_def inj_on_def less_2_cases_iff)

lemma get_request_fits: "length get_request \<le> MAX_PACKET_SIZE"
  by (simp add: encode_simps MAX_PACKET_SIZE_eq length_ascii option_set_new_def)

interpretation mem_world: deployment "mem_sys c" mem_server vec_write vec_flush task_addr server_addr client_addr any_bind
  client_options_default "[97]" "receiver_new k m" "net_new fs" for c k m fs
  using get_request_fits by unfold_locales (simp_all add: outbox_net_new)

abbreviation mem_world_run where
  "mem_world_run \<equiv> (world_step (mem_sys small) mem_server vec_write vec_flush task_addr server_addr client_addr)\<^sup>*\<^sup>*
     (run_start, do_get any_bind client_options_default server_addr [97]
        (receiver_new (SinkVec []) (op_mode client_options_default)) (net_new []))"

text \<open>
  The request arrives twice and starts two tasks; both send block 1. The client takes the block of the
  second task, whose transfer ends.
\<close>

lemma dl_server_acked:
  "\<exists>s n'. conn_event (mem_sys small) (RxFrom client_addr (encode (Ack 1))) (ConnRrq (RrqData dl_server 0), n)
     = Done (Inr ()) (ConnRrq (RrqData s 0), n') \<and> rs_peer s = client_addr"
  by (simp add: rrq_data_event_def recv_one_def dl_server_def MAX_PACKET_SIZE_eq server_consume_ack_def
      rrq_next_window_def fill_window.simps read_one_block_def)

lemma mem_world_done:
  "\<exists>R s n st. mem_world_run (R, Done (Inr 3) st) \<and> length (tasks R) = 2
    \<and> tasks R ! 1 = Done (Inr ()) (ConnRrq (RrqData s 0), n) \<and> rs_peer s = client_addr"
proof -
  obtain n where P: "handle_initial (mem_sys small) root_cfg client_addr get_request (net_new [])
      = Running (ConnRrq (RrqData dl_server 0), n)" (is "_ = ?P")
    and out: "outbox n = [(client_addr, encode (Data 1 small))]" using dl_server_start by blast
  let ?Q = "do_get any_bind client_options_default server_addr [97]
        (receiver_new (SinkVec []) (op_mode client_options_default)) (net_new []) :: (bytes get_state, u64) progress"
  obtain m where Q: "?Q = Running (GetRequest dl_getter 0, m)" and f: "faults m = []"
    using dl_client_start by blast
  have req: "(server_addr, get_request) \<in> set (sent (state_of ?Q))"
    by (simp add: run_simps Let_def)
  let ?R1 = "run_start\<lparr>tasks := [?P]\<rparr>" and ?R2 = "run_start\<lparr>tasks := [?P, ?P]\<rparr>"
  have s1: "run_step (mem_sys small) mem_server (Incoming client_addr get_request []) run_start = ?R1"
    and s2: "run_step (mem_sys small) mem_server (Incoming client_addr get_request []) ?R1 = ?R2"
    using P get_request_fits by (simp_all add: run_step_def listen_step_def run_start_def mem_server_def)
  have "mem_world_run (?R1, ?Q)"
    by (rule world_to_server [OF rtranclp.rtrancl_refl _ s1]) (use req in simp)
  from world_to_server [OF this _ s2] req have r2: "mem_world_run (?R2, ?Q)" by simp
  obtain s m' where e: "get_event vec_write vec_flush (RxFrom (task_addr 1) (encode (Data 1 small))) (GetRequest dl_getter 0, m)
      = Done (Inr 3) (GetData s 0, m')" "(task_addr 1, encode (Ack 1)) \<in> set (outbox m')"
    using f by (simp add: run_simps small_def Let_def)
  have "client_sees task_addr client_addr (tasks ?R2) (GetRequest dl_getter 0, m) (RxFrom (task_addr 1) (encode (Data 1 small)))"
    using out by (auto simp: sent_by_def intro!: exI [of _ 1])
  from world_to_client [OF r2 [unfolded Q] this e(1)]
  have r3: "mem_world_run (?R2, Done (Inr 3) (GetData s 0, m'))" unfolding Q .
  obtain u n' where a: "conn_event (mem_sys small) (RxFrom client_addr (encode (Ack 1))) (ConnRrq (RrqData dl_server 0), n)
      = Done (Inr ()) (ConnRrq (RrqData u 0), n')" "rs_peer u = client_addr" using dl_server_acked by blast
  have s3: "run_step (mem_sys small) mem_server (TaskEvent 1 (RxFrom client_addr (encode (Ack 1)))) ?R2
      = run_start\<lparr>tasks := [?P, Done (Inr ()) (ConnRrq (RrqData u 0), n')]\<rparr>"
    using a(1) by (simp add: run_step_def run_start_def del: conn_event.simps)
  from world_to_server [OF r3 _ s3] e(2) a(2) show ?thesis by fastforce
qed

subsection \<open>Properties\<close>

lemma deploymentI:
  assumes "\<forall>j. addr j \<noteq> server"
    and "length (encode (Rrq remote (op_mode opts) (build_request_options opts None))) \<le> MAX_PACKET_SIZE"
  shows "deployment addr server opts remote (net_new fs)"
  using assms by (auto simp: deployment_def outbox_net_new)

text \<open>C3: A download from the deployed server is right. The server runs with any number of other clients, whose
  datagrams, transfers and failures are arbitrary; the client's request may be lost, repeated or duplicated, so that
  several tasks answer it, with any interleaving of all their steps. If \<open>get\<close> returns \<open>Ok n\<close> then its sink holds
  exactly the bytes of the file, and \<open>n\<close> is their number.\<close>

theorem deployed_download_correct:
  assumes "byte_source (os_read sys) remaining" "byte_sink wr fl contents"
    and "cstr_ok remote" "client_options_ok opts"
    and "length (encode (Rrq remote (op_mode opts) (build_request_options opts None))) \<le> MAX_PACKET_SIZE"
    and "resolve (cf_root (sv_cfg sv)) remote = Inr path" "os_open sys path = Inr f" "os_len sys f = Inr len"
    and "negotiate (sv_cfg sv) (build_request_options opts None) (Some len) = Some (oack, neg)"
    and "transfer_fits (op_mode opts) neg (remaining f)" "sink_contents contents k = []"
    and "\<forall>j. addr j \<noteq> server" "inj_on addr {..<length (tasks R)}"
    and "(world_step sys sv wr fl addr server ra)\<^sup>*\<^sup>*
      (run_start, do_get bnd opts server remote (receiver_new k (op_mode opts)) (net_new fs)) (R, Done (Inr r) t)"
  shows "got contents (remaining f) r t"
proof -
  note dep = deploymentI [OF assms(12,5)]
  obtain i fs' where "sys_reach (conn_event sys) (get_event wr fl) sent sent (addr i) ra (\<lambda>_. not_from ra) (get_env (addr i))
      (download_start sys (sv_cfg sv) ra bnd opts server remote k fs' fs) (tasks R ! i, Done (Inr r) t)"
    using deployment.world_client_ok [OF dep assms(14,13)] unfolding deployment.linked_def [OF dep] download_start_def by blast
  from download_runs(1) [OF assms(1-4,6-11) this] show ?thesis by blast
qed

theorem deployed_download_correct_witness:
  "\<exists>R st. mem_world_run (R, Done (Inr 3) st) \<and> length (tasks R) = 2 \<and> got (\<lambda>v. v) small 3 st"
proof -
  obtain R s n st where w: "mem_world_run (R, Done (Inr 3) st)" "length (tasks R) = 2"
    using mem_world_done by blast
  have inj: "inj_on task_addr {..<length (tasks R)}" using w(2) by simp
  have "byte_source (os_read (mem_sys small)) (\<lambda>v. v)" by (simp add: vecr.byte_source_axioms)
  from deployed_download_correct [OF this vec.byte_sink_axioms _ _ get_request_fits _ _ _ _ _ _ _ inj w(1)]
  have "got (\<lambda>v. v) small 3 st" using small_facts by (simp add: mem_server_def)
  with w show ?thesis by blast
qed

text \<open>C4: In the same deployment a task that served the client's address returns \<open>Ok\<close> only after the client's task has
  returned, and if that returned \<open>Ok\<close> its sink holds the file: no task, whatever the others
  do, takes a transfer for complete that the client has not made.\<close>

theorem deployed_download_delivered:
  assumes "byte_source (os_read sys) remaining" "byte_sink wr fl contents"
    and "cstr_ok remote" "client_options_ok opts"
    and "length (encode (Rrq remote (op_mode opts) (build_request_options opts None))) \<le> MAX_PACKET_SIZE"
    and "resolve (cf_root (sv_cfg sv)) remote = Inr path" "os_open sys path = Inr f" "os_len sys f = Inr len"
    and "negotiate (sv_cfg sv) (build_request_options opts None) (Some len) = Some (oack, neg)"
    and "transfer_fits (op_mode opts) neg (remaining f)" "sink_contents contents k = []"
    and "\<forall>j. addr j \<noteq> server" "inj_on addr {..<length (tasks R)}"
    and "(world_step sys sv wr fl addr server ra)\<^sup>*\<^sup>*
      (run_start, do_get bnd opts server remote (receiver_new k (op_mode opts)) (net_new fs)) (R, Q)"
    and "j < length (tasks R)" "tasks R ! j = Done (Inr ()) (ConnRrq (RrqData s a), n)" "rs_peer s = ra"
  shows "\<exists>q t. Q = Done q t \<and> (\<forall>r. q = Inr r \<longrightarrow> got contents (remaining f) r t)"
proof -
  note dep = deploymentI [OF assms(12,5)]
  let ?Q0 = "do_get bnd opts server remote (receiver_new k (op_mode opts)) (net_new fs)"
  have served: "\<exists>q t. Q' = Done q t \<and> (\<forall>r. q = Inr r \<longrightarrow> got contents (remaining f) r t)"
    if l: "deployment.linked sys sv wr fl addr server ra bnd opts remote (receiver_new k (op_mode opts)) (net_new fs)
      j (tasks R ! j) Q'" for Q'
  proof -
    obtain fs' where "sys_reach (conn_event sys) (get_event wr fl) sent sent (addr j) ra (\<lambda>_. not_from ra) (get_env (addr j))
        (download_start sys (sv_cfg sv) ra bnd opts server remote k fs' fs) (Done (Inr ()) (ConnRrq (RrqData s a), n), Q')"
      using l unfolding assms(16) deployment.linked_def [OF dep] download_start_def by blast
    from download_runs(2) [OF assms(1-4,6-11) this refl] show ?thesis .
  qed
  from deployment.world_task_ok [OF dep assms(14,13,15-17)] show ?thesis
    using served [of Q] served [of ?Q0] by auto
qed

theorem deployed_download_delivered_witness:
  "\<exists>R s n st. mem_world_run (R, Done (Inr 3) st)
    \<and> tasks R ! 1 = Done (Inr ()) (ConnRrq (RrqData s 0), n) \<and> got (\<lambda>v. v) small 3 st"
proof -
  obtain R s n st where w: "mem_world_run (R, Done (Inr 3) st)" "length (tasks R) = 2"
    "tasks R ! 1 = Done (Inr ()) (ConnRrq (RrqData s 0), n)" "rs_peer s = client_addr"
    using mem_world_done by blast
  have inj: "inj_on task_addr {..<length (tasks R)}" and one: "1 < length (tasks R)" using w(2) by simp_all
  have "byte_source (os_read (mem_sys small)) (\<lambda>v. v)" by (simp add: vecr.byte_source_axioms)
  from deployed_download_delivered [OF this vec.byte_sink_axioms _ _ get_request_fits _ _ _ _ _ _ _ inj w(1) one w(3,4)]
  have "got (\<lambda>v. v) small 3 st" using small_facts by (simp add: mem_server_def)
  with w show ?thesis by blast
qed

text \<open>C16: A repeated upload request refuses itself. Without \<open>allow_overwrite\<close> the task of the first WRQ creates the file. When its
  answer is lost, the client repeats the WRQ (so its code intends); the task that this starts finds the file of
  the first one and answers ERROR (file exists), at which the client, from whatever address it comes,
  ends the upload with that error.\<close>

theorem repeated_upload_refused:
  assumes "\<not> cf_allow_overwrite cfg" "cstr_ok remote" "client_options_ok opts" "op_retries opts \<noteq> 0"
    and "resolve (cf_root cfg) remote = Inr path"
    and "os_bind sys (bind_addr_for (cf_listen cfg)) = Inr b" "os_bind sys' (bind_addr_for (cf_listen cfg)) = Inr b'"
    and "os_create sys CreateNew path = Inr f" "os_create sys' CreateNew path = Inl e" "kind e = KAlreadyExists"
    and "negotiate cfg (build_request_options opts sz) None = Some (oack, neg)" "faults n = []"
    and "g = putter_new opts server remote (put_sender_new source (op_mode opts)) sz"
  shows "let refusal = encode (ErrorPkt FileExists (ascii ''file already exists''));
      again = arm (op_timeout opts) (n\<lparr>outbox := outbox n @ [(server, pt_request g)]\<rparr>) in
    (\<exists>s n1. handle_initial sys cfg ra (pt_request g) (net_new []) = Running (ConnWrq (WrqRun s 0), n1) \<and> wr_file s = f)
    \<and> put_event rd RxTimeout (PutRequest g 0, n) = Running (PutRequest g 1, again)
    \<and> (\<exists>n2. handle_initial sys' cfg ra (pt_request g) (net_new []) = Done (Inl (Io e)) (ConnWrq WrqClosed, n2)
        \<and> outbox n2 = [(ra, refusal)])
    \<and> (\<forall>src. put_event rd (RxFrom src refusal) (PutRequest g 1, again)
        = Done (Inl (Peer FileExists (ascii ''file already exists''))) (PutRequest g 1, again))"
proof -
  have req: "decode (pt_request g) = Inr (Wrq remote (op_mode opts) (build_request_options opts sz))"
    using decode_request_packet(2) [OF assms(2,3)] assms(13) by (simp add: putter_new_def Let_def)
  have "\<exists>s n1. handle_initial sys cfg ra (pt_request g) (net_new []) = Running (ConnWrq (WrqRun s 0), n1) \<and> wr_file s = f"
    using req assms(1,5,6,8,11)
    by (simp add: handle_initial_def serve_wrq_def Let_def wrq_send_initial_oack_def send_ack_def net_new_def
        wrq_loop_def wrq_receiver_new_def)
  moreover have "put_event rd RxTimeout (PutRequest g 0, n)
      = Running (PutRequest g 1, arm (op_timeout opts) (n\<lparr>outbox := outbox n @ [(server, pt_request g)]\<rparr>))"
    using assms(4,12,13) by (simp add: put_request_event_def put_retry_def put_send_request_def putter_new_def Let_def)
  moreover have "\<exists>n2. handle_initial sys' cfg ra (pt_request g) (net_new []) = Done (Inl (Io e)) (ConnWrq WrqClosed, n2)
      \<and> outbox n2 = [(ra, encode (ErrorPkt FileExists (ascii ''file already exists'')))]"
    using req assms(1,5,7,9,10)
    by (simp add: handle_initial_def serve_wrq_def map_io_to_error_def send_error_def net_new_def)
  moreover have "decode (rx_buffer (encode (ErrorPkt FileExists (ascii ''file already exists''))))
      = Inr (ErrorPkt FileExists (ascii ''file already exists''))"
    by (rule decode_error_sent) (simp_all add: ascii_def)
  ultimately show ?thesis by (simp add: Let_def put_request_event_def)
qed

theorem repeated_upload_refused_witness:
  "\<exists>n1 n2. put_event vec_read RxTimeout (PutRequest (ul_sender client_options_default small) 0, net_new [])
      = Running (PutRequest (ul_sender client_options_default small) 1, n1)
    \<and> handle_initial (mem_sys []\<lparr>os_create := \<lambda>_ _. Inl (Io_Error KAlreadyExists [])\<rparr>) root_cfg client_addr
        (pt_request (ul_sender client_options_default small)) (net_new [])
      = Done (Inl (Io (Io_Error KAlreadyExists []))) (ConnWrq WrqClosed, n2)
    \<and> put_event vec_read (RxFrom server_tid (encode (ErrorPkt FileExists (ascii ''file already exists''))))
        (PutRequest (ul_sender client_options_default small) 1, n1)
      = Done (Inl (Peer FileExists (ascii ''file already exists''))) (PutRequest (ul_sender client_options_default small) 1, n1)"
proof -
  have "negotiate root_cfg (build_request_options client_options_default (Some (of_nat (length small)))) None
      = Some (option_set_new, negotiated_defaults)" by simp
  from repeated_upload_refused [where sys = "mem_sys []" and sys' = "mem_sys []\<lparr>os_create := \<lambda>_ _. Inl (Io_Error KAlreadyExists [])\<rparr>"
      and opts = client_options_default and remote = "[97]" and path = "[SEP, 97]" and f = "[]" and e = "Io_Error KAlreadyExists []"
      and n = "net_new []" and g = "ul_sender client_options_default small" and server = server_addr and source = "SrcSlice small 0"
      and rd = vec_read and ra = client_addr, OF _ _ _ _ _ _ _ _ _ _ this _ refl]
  show ?thesis by (simp add: Let_def net_new_def del: put_event.simps) blast
qed

end
