(* ===== verification/Progress.thy ===== *)
theory Progress
  imports End_To_End
begin

text \<open>
  Transfers get done: on a network that delivers, with files that do not fail, a download
  completes, window by window, whatever the size of the file and the negotiated parameters.
  The locales \<open>total_source\<close> and \<open>total_sink\<close> extend the contracts of files by the absence of
  I/O errors.
\<close>

locale total_source = byte_source +
  assumes rd_total: "\<exists>bs f'. rd f k = (Inr bs, f')"

locale total_sink = byte_sink +
  assumes wr_total: "\<exists>f'. wr f bs = (Inr (), f')" and fl_total: "\<exists>f'. fl f = (Inr (), f')"

interpretation vecr: total_source vec_read "\<lambda>v. v"
  by unfold_locales (auto simp: vec_read_def)

interpretation vec: total_sink vec_write vec_flush "\<lambda>v. v"
  by unfold_locales (auto simp: vec_write_def vec_flush_def)

subsection \<open>The server's side\<close>

context total_source begin

lemma pull_chunks_total: "\<exists>q. pull_chunks rd enc k f p e = (Inr (), q)"
proof (induction "k - length p" arbitrary: f p rule: less_induct)
  case less
  obtain bs f' where r: "rd f k = (Inr bs, f')" using rd_total by blast
  show ?case
  proof (cases "length p < k \<and> \<not> e \<and> bs \<noteq> []")
    case True
    then have "k - length (encode_chunk enc bs p) < k - length p"
      by (simp add: encode_chunk_eq diff_less_mono2)
    from less [OF this] True r show ?thesis by (simp add: pull_chunks.simps [of rd enc k f p])
  next
    case False
    with r show ?thesis by (auto simp: pull_chunks.simps [of rd enc k f p])
  qed
qed

lemma read_one_block_total: "\<exists>ob s'. read_one_block rd s = (Inr ob, s')"
proof -
  obtain q where "pull_chunks rd (rs_encoder s) (unat (ng_blksize (rs_neg s))) (rs_file s) (rs_pending s) (rs_eof s)
      = (Inr (), q)" using pull_chunks_total by blast
  then show ?thesis by (cases q) (auto simp: read_one_block_def Let_def cut_block_eq)
qed

lemma fill_window_total: "\<exists>s'. fill_window rd s = (Inr (), s')"
proof (induction "unat (ng_windowsize (rs_neg s)) - length (rs_in_flight s)" arbitrary: s rule: less_induct)
  case less
  obtain ob s1 where r: "read_one_block rd s = (Inr ob, s1)" using read_one_block_total by blast
  show ?case
  proof (cases "length (rs_in_flight s) < unat (ng_windowsize (rs_neg s)) \<and> ob \<noteq> None")
    case True
    then obtain b where b: "ob = Some b" by blast
    let ?s = "s1\<lparr>rs_in_flight := rs_in_flight s1 @ [(rs_next_block s1, b)], rs_next_block := rs_next_block s1 + 1\<rparr>"
    have "unat (ng_windowsize (rs_neg ?s)) - length (rs_in_flight ?s) < unat (ng_windowsize (rs_neg s)) - length (rs_in_flight s)"
      using True read_one_block_frame [OF r] by auto
    from less [OF this] True r b show ?thesis by (simp add: fill_window.simps [of rd s])
  next
    case False
    with r show ?thesis by (auto simp: fill_window.simps [of rd s])
  qed
qed

lemma next_window_progress:
  assumes "rrq_rel B lo h s" "0 < unat (ng_windowsize (rs_neg s))" "faults n = []" "lo \<le> length B"
    and hi: "hi = max h (min (lo + unat (ng_windowsize (rs_neg s))) (length B + 1))"
  shows "\<exists>s' n'. rrq_next_window rd s n = Running (RrqData s' 0, n') \<and> rrq_rel B lo hi s'
    \<and> rs_peer s' = rs_peer s \<and> rs_neg s' = rs_neg s \<and> faults n' = []
    \<and> (\<forall>m. lo \<le> m + 1 \<and> m + 1 < hi \<longrightarrow> (rs_peer s, encode (Data (of_nat (m + 1)) (B ! m))) \<in> set (outbox n'))"
proof -
  obtain s' where f: "fill_window rd s = (Inr (), s')" using fill_window_total by blast
  note frame = fill_window_frame [OF f]
  have rel: "rrq_rel B lo hi s'" using fill_window_rel [OF assms(1) f] hi by simp
  then have fl: "rs_in_flight s' = flight_of B lo hi" by (simp add: rrq_rel_def)
  moreover have "lo < hi" using assms(2,4) hi by simp
  ultimately have "rs_in_flight s' \<noteq> []" by simp
  then have "rrq_next_window rd s n = Running (RrqData s' 0, arm (ng_timeout (rs_neg s'))
      (n\<lparr>outbox := outbox n @ map (\<lambda>(bn, d). (rs_peer s', encode (Data bn d))) (rs_in_flight s')\<rparr>))"
    using f assms(3) by (simp add: rrq_next_window_def rrq_send_def send_window_def send_flight_ok)
  moreover have "(rs_peer s, encode (Data (of_nat (m + 1)) (B ! m)))
      \<in> set (map (\<lambda>(bn, d). (rs_peer s', encode (Data bn d))) (rs_in_flight s'))"
    if "lo \<le> m + 1" "m + 1 < hi" for m
    using that frame unfolding fl flight_of_def by (auto simp: image_iff intro!: bexI [of _ "m + 1"])
  ultimately show ?thesis using rel frame assms(3) by auto
qed

lemma last_window_acked:
  assumes "rrq_rel B lo lo s" "lo = length B + 1"
  shows "\<exists>st. rrq_next_window rd s n = Done (Inr ()) st"
proof -
  obtain s' where f: "fill_window rd s = (Inr (), s')" using fill_window_total by blast
  from fill_window_rel [OF assms(1) f] assms(2) have "rs_in_flight s' = []"
    by (simp add: rrq_rel_def)
  with f show ?thesis by (simp add: rrq_next_window_def)
qed

lemma window_acked:
  assumes "rrq_rel B lo hi s" "lo \<le> k" "k < hi" "hi - lo \<le> unat (ng_windowsize (rs_neg s))"
  shows "\<exists>s'. rrq_data_event rd (RxFrom (rs_peer s) (encode (Ack (of_nat k)))) s a n = rrq_next_window rd s' n
    \<and> rrq_rel B (k + 1) hi s' \<and> rs_peer s' = rs_peer s \<and> rs_neg s' = rs_neg s"
proof -
  obtain adv s' where c: "server_consume_ack s (of_nat k) = (adv, s')" by fastforce
  have "unat ((of_nat k :: u16) - of_nat lo) = k - lo"
    using assms(2-4) unat_u16_less [of "ng_windowsize (rs_neg s)"] by (intro unat_diff_of_nat_u16) linarith+
  moreover have "lo < hi" "k - lo < unat (ng_windowsize (rs_neg s))" "min hi (lo + (k - lo) + 1) = k + 1"
    using assms(2-4) by linarith+
  ultimately have "adv \<and> rrq_rel B (k + 1) hi s' \<and> rs_peer s' = rs_peer s \<and> rs_neg s' = rs_neg s"
    using server_consume_ack_rel [OF assms(1) c] by (simp add: Let_def)
  with c show ?thesis
    by (intro exI [of _ s']) (simp add: rrq_data_event_def recv_one_def MAX_PACKET_SIZE_eq)
qed

end

subsection \<open>The client's side\<close>

context total_sink begin

lemma sink_write_total: "\<exists>k'. sink_write wr k bs = (Inr (), k')"
proof (cases k)
  case (SinkFile f)
  obtain f' where "wr f bs = (Inr (), f')" using wr_total by blast
  with SinkFile show ?thesis by simp
qed simp

lemma sink_flush_total: "\<exists>k'. sink_flush fl k = (Inr (), k')"
proof (cases k)
  case (SinkFile f)
  obtain f' where "fl f = (Inr (), f')" using fl_total by blast
  with SinkFile show ?thesis by simp
qed simp

lemma write_raw_total: "\<exists>w'. write_raw wr w bs = (Inr (), w')"
proof -
  obtain k where "sink_write wr (rc_sink w) bs = (Inr (), k)" using sink_write_total by blast
  then show ?thesis by (simp add: write_raw_def)
qed

lemma write_block_total: "\<exists>w'. receiver_write_block wr w d = (Inr (), w')"
  using write_raw_total by (auto simp: receiver_write_block_def split: prod.split)

lemma finish_total: "\<exists>w'. receiver_finish wr fl w = (Inr (), w')"
proof -
  obtain dec tail where d: "decode_tail (rc_decoder w) = (dec, tail)" by fastforce
  obtain w2 where w2: "(if tail \<noteq> [] then write_raw wr (w\<lparr>rc_decoder := dec\<rparr>) tail
      else (Inr (), w\<lparr>rc_decoder := dec\<rparr>)) = (Inr (), w2)"
    using write_raw_total by (cases "tail = []") auto
  obtain k where "sink_flush fl (rc_sink w2) = (Inr (), k)" using sink_flush_total by blast
  with d w2 show ?thesis by (simp add: receiver_finish_def Let_def)
qed

text \<open>
  The next block of the window: the last block of all ends the download, the last of a window is
  acknowledged, any other one is counted.
\<close>

lemma final_block_progress:
  assumes "get_rel md B peer neg m s" "carries md (unat (ng_blksize neg)) B src" "faults n = []"
    and "m + 1 = length B"
  shows "\<exists>r st. get_in_order wr fl s (of_nat (m + 1)) (B ! m) n = Done (Inr r) st \<and> get_result src r st
    \<and> (peer, encode (Ack (of_nat (m + 1)))) \<in> set (outbox (snd st))"
proof -
  let ?p = "get_in_order wr fl s (of_nat (m + 1)) (B ! m) n"
  have s: "gt_peer s = peer" "gt_neg s = neg" "m < length B" using assms(1) by (simp_all add: get_rel_def)
  have short: "length (B ! m) < unat (ng_blksize neg)"
    using carries_last [OF assms(2) s(3)] assms(4) by simp
  obtain w where w: "receiver_write_block wr (gt_writer s) (B ! m) = (Inr (), w)" using write_block_total by blast
  obtain w' where w': "receiver_finish wr fl w = (Inr (), w')" using finish_total by blast
  have "\<exists>r st. ?p = Done (Inr r) st \<and> (peer, encode (Ack (of_nat (m + 1)))) \<in> set (outbox (snd st))"
    using s short w w' assms(3) by (simp add: get_in_order_def Let_def get_final_def send_ack_def)
  moreover have "get_result src r st" if "?p = Done (Inr r) st" for r st
    using get_in_order_post [OF assms(1,2), of oack n] that by (cases st) (auto simp: get_post_def)
  ultimately show ?thesis by blast
qed

lemma inner_block_progress:
  assumes "get_rel md B peer neg m s" "carries md (unat (ng_blksize neg)) B src" "faults n = []"
    and "m + 1 < length B"
  shows "\<exists>s' n'. get_in_order wr fl s (of_nat (m + 1)) (B ! m) n = Running (GetData s' 0, n')
    \<and> get_rel md B peer neg (m + 1) s' \<and> faults n' = []
    \<and> (if ng_windowsize neg \<le> gt_blocks_in_window s + 1
        then gt_blocks_in_window s' = 0 \<and> (peer, encode (Ack (of_nat (m + 1)))) \<in> set (outbox n')
        else gt_blocks_in_window s' = gt_blocks_in_window s + 1)"
proof -
  have s: "gt_peer s = peer" "gt_neg s = neg" "m < length B" using assms(1) by (simp_all add: get_rel_def)
  have long: "\<not> length (B ! m) < unat (ng_blksize neg)"
    using carries_last [OF assms(2) s(3)] assms(4) by simp
  obtain w where w: "receiver_write_block wr (gt_writer s) (B ! m) = (Inr (), w)" using write_block_total by blast
  let ?s = "\<lambda>b. s\<lparr>gt_writer := w, gt_last_acked := of_nat (m + 1), gt_next_block := gt_next_block s + 1,
    gt_blocks_in_window := b\<rparr>"
  have "get_rel md B peer neg (m + 1) (?s b)" for b
    using assms(1,4) writer_at_Suc [OF _ s(3) w] by (simp add: get_rel_def add_ac)
  with s long w assms(3) show ?thesis
    by (simp add: get_in_order_def Let_def get_ack_def get_loop_def send_ack_def)
qed

end

subsection \<open>Both sides on a network that delivers\<close>

text \<open>What downloads and uploads share: a file, the parameters that both sides use, two addresses.\<close>

locale agreed =
  src: total_source rd remaining + dst: total_sink wr fl contents
  for rd :: "'f reader" and remaining :: "'f \<Rightarrow> bytes"
    and wr :: "'g writer" and fl :: "'g flusher" and contents :: "'g \<Rightarrow> bytes" +
  fixes md :: mode and src :: bytes and oack :: option_set and neg :: negotiated
    and sa :: sockaddr and ra :: sockaddr
  assumes oack_ok: "option_set_ok oack" and merged: "merge_oack negotiated_defaults oack = neg"
begin

abbreviation "B \<equiv> wire_blocks md neg src"
abbreviation "W \<equiv> unat (ng_windowsize neg)"
abbreviation "block_datagram m \<equiv> encode (Data (of_nat (m + 1)) (B ! m))"

lemma neg_ok: "negotiated_ok neg"
  using merge_oack_ok [OF oack_ok negotiated_defaults_ok] merged by simp

lemmas B_props = wire_blocks_props [OF neg_ok, of md src]

lemma W_bounds: "0 < W" "W < 65536"
  using negotiated_window_pos [OF neg_ok] unat_u16_less [of "ng_windowsize neg"] by simp_all

lemma block_read: "m < length B \<Longrightarrow> decode (rx_buffer (block_datagram m)) = Inr (Data (of_nat (m + 1)) (B ! m))"
  using B_props(2) by (simp add: decode_encode MAX_PACKET_SIZE_eq encode_simps)

lemma oack_read: "decode (rx_buffer (encode (Oack oack))) = Inr (Oack oack)"
  using length_encode_oack [OF oack_ok] decode_encode [of "Oack oack"] oack_ok
  by (simp add: MAX_PACKET_SIZE_eq)

lemma defaults_without_oack: "option_set_is_empty oack \<Longrightarrow> neg = negotiated_defaults"
  using merged by (simp add: merge_oack_def block_size_def timeout_opt_def window_size_def option_set_is_empty_def)

end

subsection \<open>Downloads\<close>

locale steady = agreed rd remaining wr fl contents md src oack neg sa ra
  for rd :: "'f reader" and remaining :: "'f \<Rightarrow> bytes"
    and wr :: "'g writer" and fl :: "'g flusher" and contents :: "'g \<Rightarrow> bytes"
    and md :: mode and src :: bytes and oack :: option_set and neg :: negotiated
    and sa :: sockaddr and ra :: sockaddr +
  fixes sys :: "'f os"
  assumes rd_sys: "os_read sys = rd"
begin

abbreviation "go \<equiv> sys_reach (conn_event sys) (get_event wr fl) sent sent sa ra (\<lambda>_ _. False) (\<lambda>_ _. False)"

text \<open>The client takes the next block: it waits for it, or for the answer to its request.\<close>

definition client_at :: "('g get_state, u64) progress \<Rightarrow> nat \<Rightarrow> u16 \<Rightarrow> bool" where
  "client_at Q m b \<longleftrightarrow> (\<exists>st g n. Q = Running st \<and> dst.get_rel md B sa neg m g
     \<and> gt_blocks_in_window g = b \<and> faults n = []
     \<and> get_event wr fl (RxFrom sa (block_datagram m)) st = get_in_order wr fl g (of_nat (m + 1)) (B ! m) n)"

lemma client_at_data:
  assumes "dst.get_rel md B sa neg m g" "gt_blocks_in_window g = b" "faults n = []"
  shows "client_at (Running (GetData g a, n)) m b"
proof -
  have "m < length B" "gt_peer g = sa" "gt_next_block g = of_nat (m + 1)"
    using assms(1) by (simp_all add: dst.get_rel_def)
  then show ?thesis
    unfolding client_at_def using assms block_read
    by (intro exI [of _ "(GetData g a, n)"] exI [of _ g] exI [of _ n])
      (simp add: get_data_event_def recv_one_def)
qed

lemma deliver_window:
  assumes "go S0 (P, Q)" "client_at Q m (of_nat (m + 1 - lo))" "lo \<le> m + 1" "m + 1 < hi"
    and hi: "hi = min (lo + W) (length B + 1)"
    and data: "\<forall>m. lo \<le> m + 1 \<and> m + 1 < hi \<longrightarrow> (ra, block_datagram m) \<in> set (sent (state_of P))"
  shows "\<exists>Q'. go S0 (P, Q') \<and> (sa, encode (Ack (of_nat (hi - 1)))) \<in> set (sent (state_of Q'))
    \<and> (if hi = length B + 1 then \<exists>r st. Q' = Done (Inr r) st \<and> dst.get_result src r st
       else client_at Q' (hi - 1) 0)"
  using assms(1-4)
proof (induction "hi - (m + 1)" arbitrary: Q m rule: less_induct)
  case less
  obtain st g n where Q: "Q = Running st" and rel: "dst.get_rel md B sa neg m g"
    and b: "gt_blocks_in_window g = of_nat (m + 1 - lo)" and n: "faults n = []"
    and ev: "get_event wr fl (RxFrom sa (block_datagram m)) st = get_in_order wr fl g (of_nat (m + 1)) (B ! m) n"
    using less.prems(2) unfolding client_at_def by blast
  have lt: "m < length B" using rel by (simp add: dst.get_rel_def)
  have "(ra, block_datagram m) \<in> set (sent (state_of P))" using data less.prems by blast
  note step = reach_to_receiver [OF less.prems(1) [unfolded Q] this ev]
  show ?case
  proof (cases "m + 1 = length B")
    case True
    obtain r st' where p: "get_in_order wr fl g (of_nat (m + 1)) (B ! m) n = Done (Inr r) st'"
      "dst.get_result src r st'" "(sa, encode (Ack (of_nat (m + 1)))) \<in> set (sent st')"
      using dst.final_block_progress [OF rel B_props(1) n True] by blast
    moreover have "hi = length B + 1" "hi - 1 = m + 1" using hi less.prems(4) True by simp_all
    ultimately show ?thesis using step by (intro exI [of _ "Done (Inr r) st'"]) simp
  next
    case False
    then have inner: "m + 1 < length B" using lt by simp
    have "gt_blocks_in_window g + 1 = of_nat (m + 1 - lo + 1)" unfolding b by (simp only: of_nat_add of_nat_1)
    moreover have "m + 1 - lo + 1 < 65536" using less.prems(3,4) hi W_bounds by linarith
    ultimately have "unat (gt_blocks_in_window g + 1) = m + 1 - lo + 1" by (simp only: unat_of_nat_u16)
    then have count: "unat (gt_blocks_in_window g + 1) = m + 2 - lo" using less.prems(3) by simp
    obtain g' n' where p: "get_in_order wr fl g (of_nat (m + 1)) (B ! m) n = Running (GetData g' 0, n')"
      "dst.get_rel md B sa neg (m + 1) g'" "faults n' = []"
      and w: "if ng_windowsize neg \<le> gt_blocks_in_window g + 1
        then gt_blocks_in_window g' = 0 \<and> (sa, encode (Ack (of_nat (m + 1)))) \<in> set (outbox n')
        else gt_blocks_in_window g' = gt_blocks_in_window g + 1"
      using dst.inner_block_progress [OF rel B_props(1) n inner] by blast
    show ?thesis
    proof (cases "m + 2 = lo + W")
      case True
      then have "ng_windowsize neg \<le> gt_blocks_in_window g + 1"
        using count less.prems(3) by (simp add: word_le_nat_alt)
      moreover have "hi = m + 2" "hi \<noteq> length B + 1" using hi True inner by simp_all
      ultimately show ?thesis
        using step p w client_at_data [OF p(2) _ p(3)]
        by (intro exI [of _ "Running (GetData g' 0, n')"]) simp
    next
      case next_block: False
      then have lt': "m + 2 < lo + W" using less.prems(4) hi by simp
      then have "\<not> ng_windowsize neg \<le> gt_blocks_in_window g + 1"
        using count less.prems(3) by (simp add: word_le_nat_alt)
      with w have "gt_blocks_in_window g' = of_nat (m + 1 + 1 - lo)"
        using b less.prems(3) by (simp add: Suc_diff_le)
      from client_at_data [OF p(2) this p(3)] step p(1)
        less.hyps [of "m + 1" "Running (GetData g' 0, n')"] less.prems(3,4) lt' inner hi
      show ?thesis by simp
    qed
  qed
qed

text \<open>Window after window, from one whose blocks are sent to the end of the file.\<close>

lemma rounds:
  assumes "go S0 (Running (ConnRrq (RrqData s a), n), Q)" "src.rrq_rel B lo hi s" "rs_peer s = ra" "rs_neg s = neg"
    and "faults n = []" "lo \<le> length B" "client_at Q (lo - 1) 0"
    and "hi = min (lo + W) (length B + 1)"
    and "\<forall>m. lo \<le> m + 1 \<and> m + 1 < hi \<longrightarrow> (ra, block_datagram m) \<in> set (outbox n)"
  shows "\<exists>st r t. go S0 (Done (Inr ()) st, Done (Inr r) t) \<and> dst.get_result src r t"
  using assms
proof (induction "length B + 1 - lo" arbitrary: s a n Q lo hi rule: less_induct)
  case less
  note hi = less.prems(8)
  have lo: "1 \<le> lo" "lo < hi" "hi - lo \<le> W" using src.rrq_rel_bound [OF less.prems(2)] less.prems(6) W_bounds hi by auto
  have start: "client_at Q (lo - 1) (of_nat (lo - 1 + 1 - lo))" using less.prems(7) lo by simp
  obtain Q' where Q': "go S0 (Running (ConnRrq (RrqData s a), n), Q')"
    "(sa, encode (Ack (of_nat (hi - 1)))) \<in> set (sent (state_of Q'))"
    "if hi = length B + 1 then \<exists>r st. Q' = Done (Inr r) st \<and> dst.get_result src r st else client_at Q' (hi - 1) 0"
    using deliver_window [OF less.prems(1) start _ _ hi] less.prems(9) lo by auto
  have k: "lo \<le> hi - 1" "hi - 1 < hi" "hi - 1 + 1 = hi" using lo(1,2) by linarith+
  obtain s' where s': "rrq_data_event rd (RxFrom ra (encode (Ack (of_nat (hi - 1))))) s a n = rrq_next_window rd s' n"
    "src.rrq_rel B hi hi s'" "rs_peer s' = ra" "rs_neg s' = neg"
    using src.window_acked [OF less.prems(2) k(1,2), of a n] lo less.prems(3,4) k by auto
  have ev: "conn_event sys (RxFrom ra (encode (Ack (of_nat (hi - 1))))) (ConnRrq (RrqData s a), n)
      = map_state (apfst ConnRrq) (rrq_next_window rd s' n)"
    using s'(1) rd_sys by simp
  note step = reach_to_sender [OF Q'(1,2) ev]
  show ?case
  proof (cases "hi = length B + 1")
    case True
    then obtain st where st: "rrq_next_window rd s' n = Done (Inr ()) st"
      using src.last_window_acked [OF s'(2)] by blast
    from Q'(3) True obtain r t where t: "Q' = Done (Inr r) t" "dst.get_result src r t" by auto
    from step have "go S0 (Done (Inr ()) (apfst ConnRrq st), Done (Inr r) t)" using st t by simp
    with t(2) show ?thesis by blast
  next
    case False
    then have le: "hi \<le> length B" using hi by simp
    let ?hi = "min (hi + W) (length B + 1)"
    obtain s2 n2 where w: "rrq_next_window rd s' n = Running (RrqData s2 0, n2)" "src.rrq_rel B hi ?hi s2"
      "rs_peer s2 = ra" "rs_neg s2 = neg" "faults n2 = []"
      "\<forall>m. hi \<le> m + 1 \<and> m + 1 < ?hi \<longrightarrow> (ra, block_datagram m) \<in> set (outbox n2)"
      using src.next_window_progress [OF s'(2) _ less.prems(5) le, of ?hi] W_bounds s'(3,4) le by auto
    have "length B + 1 - hi < length B + 1 - lo" using lo le by linarith
    from less.hyps [OF this _ w(2-5) le _ refl w(6)] step w(1) Q'(3) False show ?thesis by simp
  qed
qed

text \<open>The start: with an OACK the client is told the parameters first, without one DATA(1) comes at once.\<close>

lemma start_rel:
  assumes "remaining file = src"
  shows "src.rrq_rel B 1 1 (rrq_sender_new ra cfg neg file md)"
  using src.rrq_sender_new_rel [OF negotiated_bsize_pos [OF neg_ok], where f = "file" and m = md] assms by simp

lemma fresh_client_rel:
  assumes "sink_contents contents k = []"
  shows "dst.get_rel md B sa neg 0 ((getter_new opts server remote (receiver_new k md))\<lparr>gt_peer := sa, gt_neg := neg\<rparr>)"
  using dst.receiver_new_at [OF assms, of md B] by (simp add: dst.get_rel_def getter_new_def Let_def)

lemma first_window_sent:
  assumes "remaining file = src" "faults n = []"
  shows "\<exists>s' n'. rrq_next_window rd (rrq_sender_new ra cfg neg file md) n = Running (RrqData s' 0, n')
    \<and> src.rrq_rel B 1 (min (1 + W) (length B + 1)) s' \<and> rs_peer s' = ra \<and> rs_neg s' = neg \<and> faults n' = []
    \<and> (\<forall>m. 1 \<le> m + 1 \<and> m + 1 < min (1 + W) (length B + 1) \<longrightarrow> (ra, block_datagram m) \<in> set (outbox n'))"
proof -
  let ?s = "rrq_sender_new ra cfg neg file md"
  have s: "rs_peer ?s = ra" "rs_neg ?s = neg" and B: "1 \<le> length B"
    by (simp_all add: rrq_sender_new_def Suc_le_eq)
  show ?thesis
    using src.next_window_progress [OF start_rel [OF assms(1), of cfg] _ assms(2) B, unfolded s] W_bounds(1) B
    by simp
qed

lemma completes_without_oack:
  assumes "remaining file = src" "sink_contents contents k = []" "option_set_is_empty oack"
    and "faults n = []" "faults n' = []" and g_def: "g = getter_new opts server remote (receiver_new k md)"
  shows "\<exists>st r t. go (map_state (apfst ConnRrq) (rrq_next_window rd (rrq_sender_new ra cfg neg file md) n),
      Running (GetRequest g 0, n')) (Done (Inr ()) st, Done (Inr r) t) \<and> dst.get_result src r t"
proof -
  obtain s m where w: "rrq_next_window rd (rrq_sender_new ra cfg neg file md) n = Running (RrqData s 0, m)"
    "src.rrq_rel B 1 (min (1 + W) (length B + 1)) s" "rs_peer s = ra" "rs_neg s = neg" "faults m = []"
    "\<forall>j. 1 \<le> j + 1 \<and> j + 1 < min (1 + W) (length B + 1) \<longrightarrow> (ra, block_datagram j) \<in> set (outbox m)"
    using first_window_sent [OF assms(1,4)] by blast
  note neg = defaults_without_oack [OF assms(3)]
  have "1 \<le> length B" "0 < length B" by (simp_all add: Suc_le_eq)
  have "client_at (Running (GetRequest g 0, n')) 0 0"
    unfolding client_at_def using fresh_client_rel [OF assms(2), of opts server remote] assms(5) block_read [of 0]
      \<open>0 < length B\<close>
    by (intro exI [of _ "(GetRequest g 0, n')"] exI [of _ "g\<lparr>gt_peer := sa\<rparr>"] exI [of _ n'])
      (simp add: g_def get_request_event_def get_first_data_eq getter_new_def Let_def neg)
  then have "client_at (Running (GetRequest g 0, n')) (1 - 1) 0" by simp
  from rounds [OF reach_start w(2-5) \<open>1 \<le> length B\<close> this refl w(6)] show ?thesis
    unfolding w(1) by simp
qed

lemma completes_with_oack:
  assumes "remaining file = src" "sink_contents contents k = []" "\<not> option_set_is_empty oack"
    and "faults n = []" "faults n' = []" and g_def: "g = getter_new opts server remote (receiver_new k md)"
    and "gt_want_oack g"
  shows "\<exists>st r t. go (map_state (apfst ConnRrq) (rrq_send_oack (rrq_sender_new ra cfg neg file md) oack 0 n),
      Running (GetRequest g 0, n')) (Done (Inr ()) st, Done (Inr r) t) \<and> dst.get_result src r t"
proof -
  let ?s = "rrq_sender_new ra cfg neg file md"
  let ?g = "g\<lparr>gt_peer := sa, gt_neg := neg\<rparr>"
  have peer: "rs_peer ?s = ra" by (simp add: rrq_sender_new_def)
  obtain n1 where n1: "rrq_send_oack ?s oack 0 n = Running (RrqOack ?s oack 0, n1)" "faults n1 = []"
    "(ra, encode (Oack oack)) \<in> set (outbox n1)"
    using assms(4) peer by (simp add: rrq_send_oack_def)
  obtain n2 where n2: "get_event wr fl (RxFrom sa (encode (Oack oack))) (GetRequest g 0, n')
      = Running (GetData ?g 0, n2)" "faults n2 = []" "(sa, encode (Ack 0)) \<in> set (outbox n2)"
    using assms(5,7) merged oack_read
    by (simp add: get_request_event_def Let_def get_ack_def get_loop_def send_ack_def)
      (simp add: g_def getter_new_def Let_def)
  let ?S0 = "(Running (apfst ConnRrq (RrqOack ?s oack 0, n1)), Running (GetRequest g 0, n'))"
  have "go ?S0 (Running (ConnRrq (RrqOack ?s oack 0), n1), Running (GetRequest g 0, n'))"
    by (simp add: reach_start)
  from reach_to_receiver [OF this _ n2(1)] n1(3)
  have r1: "go ?S0 (Running (ConnRrq (RrqOack ?s oack 0), n1), Running (GetData ?g 0, n2))" by simp
  have ack: "conn_event sys (RxFrom ra (encode (Ack 0))) (ConnRrq (RrqOack ?s oack 0), n1)
      = map_state (apfst ConnRrq) (rrq_next_window rd ?s n1)"
    using peer rd_sys by (simp add: rrq_oack_event_def recv_one_def MAX_PACKET_SIZE_eq)
  obtain s m where w: "rrq_next_window rd ?s n1 = Running (RrqData s 0, m)"
    "src.rrq_rel B 1 (min (1 + W) (length B + 1)) s" "rs_peer s = ra" "rs_neg s = neg" "faults m = []"
    "\<forall>j. 1 \<le> j + 1 \<and> j + 1 < min (1 + W) (length B + 1) \<longrightarrow> (ra, block_datagram j) \<in> set (outbox m)"
    using first_window_sent [OF assms(1) n1(2)] by blast
  have r2: "go ?S0 (Running (ConnRrq (RrqData s 0), m), Running (GetData ?g 0, n2))"
    using reach_to_sender [OF r1 _ ack] n2(3) w(1) by simp
  have "client_at (Running (GetData ?g 0, n2)) (1 - 1) 0"
    using client_at_data [OF fresh_client_rel [OF assms(2), of opts server remote, folded g_def] _ n2(2)]
    by (simp add: g_def getter_new_def Let_def)
  moreover have "1 \<le> length B" by (simp add: Suc_le_eq)
  ultimately show ?thesis
    using rounds [OF r2 w(2-5) _ _ refl w(6)] n1(1) by simp
qed

end

text \<open>A download from its start.\<close>

lemma steadyI:
  assumes "total_source (os_read sys) remaining" "total_sink wr fl contents"
    and "negotiate cfg req (Some len) = Some (oack, neg)" "option_set_ok req"
  shows "steady (os_read sys) remaining wr fl contents oack neg sys"
  using assms negotiate_set_ok [OF assms(3,4)] negotiate_merge [OF assms(3)]
  by (simp add: steady_def steady_axioms_def agreed_def agreed_axioms_def)

lemma download_progress:
  assumes "total_source (os_read sys) remaining" "total_sink wr fl contents"
    and "cstr_ok remote" "client_options_ok opts"
    and "resolve (cf_root cfg) remote = Inr path" "os_open sys path = Inr f" "os_len sys f = Inr len"
    and "negotiate cfg (build_request_options opts None) (Some len) = Some (oack, neg)"
    and "sink_contents contents k = []"
    and "os_bind sys (bind_addr_for (cf_listen cfg)) = Inr a" "bnd (bind_addr_for server) = Inr ()"
  shows "\<exists>s r t. sys_reach (conn_event sys) (get_event wr fl) sent sent sa ra (\<lambda>_ _. False) (\<lambda>_ _. False)
      (download_start sys cfg ra bnd opts server remote k [] []) (Done (Inr ()) s, Done (Inr r) t)
    \<and> got contents (remaining f) r t"
proof -
  let ?md = "op_mode opts"
  let ?g = "getter_new opts server remote (receiver_new k ?md)" and ?s = "rrq_sender_new ra cfg neg f ?md"
  note st = steadyI [OF assms(1,2,8) build_request_options_ok [OF assms(4)]]
  note sink = assms(2) [unfolded total_sink_def, THEN conjunct1]
  obtain n' where Q: "do_get bnd opts server remote (receiver_new k ?md) (net_new []) = Running (GetRequest ?g 0, n')"
    "faults n' = []"
    using assms(11) by (simp add: do_get_unfold get_send_request_def net_new_def)
  have P: "handle_initial sys cfg ra (encode (Rrq remote ?md (build_request_options opts None))) (net_new [])
      = map_state (apfst ConnRrq) (if \<not> option_set_is_empty oack then rrq_send_oack ?s oack 0 (net_new [])
          else rrq_next_window (os_read sys) ?s (net_new []))"
    using decode_request_packet(1) [OF assms(3,4)] assms(5-8,10)
    by (simp add: handle_initial_def serve_rrq_def Let_def)
  have nf: "faults (net_new []) = []" by (simp add: net_new_def)
  have "gt_want_oack ?g" if "\<not> option_set_is_empty oack"
    using that assms(8) negotiate_nothing [of "build_request_options opts None" cfg "Some len"]
    by (auto simp: getter_new_def Let_def)
  then have "\<exists>s r t. sys_reach (conn_event sys) (get_event wr fl) sent sent sa ra (\<lambda>_ _. False) (\<lambda>_ _. False)
      (download_start sys cfg ra bnd opts server remote k [] []) (Done (Inr ()) s, Done (Inr r) t)
    \<and> byte_sink.get_result contents (remaining f) r t"
    using steady.completes_without_oack [OF st refl assms(9) _ nf Q(2) refl, where ra = ra and cfg = cfg and sa = sa]
      steady.completes_with_oack [OF st refl assms(9) _ nf Q(2) refl, where ra = ra and cfg = cfg and sa = sa]
    by (cases "option_set_is_empty oack") (simp_all add: download_start_def P Q(1))
  then show ?thesis by (simp add: got_result [OF sink])
qed

end
