(* ===== verification/Upload_Progress.thy ===== *)
theory Upload_Progress
  imports Progress
begin

text \<open>
  Uploads get done as well: the client's side reads and sends, the server's side writes.
\<close>

subsection \<open>The client's side\<close>

context total_source begin

lemma source_total: "total_source (read_chunk rd) (source_remaining remaining)"
proof -
  have "\<exists>bs s'. read_chunk rd s k = (Inr bs, s')" for s k
  proof (cases s)
    case (SrcFile f)
    obtain bs f' where "rd f k = (Inr bs, f')" using rd_total by blast
    with SrcFile show ?thesis by simp
  qed (simp add: Let_def)
  with source_byte_source show ?thesis by (simp add: total_source_def total_source_axioms_def)
qed

lemma next_block_total: "\<exists>ob sn. next_block rd s = (Inr ob, sn)"
proof -
  obtain q where "pull_chunks (read_chunk rd) (sn_encoder s) (sn_blksize s) (sn_source s) (sn_pending s) (sn_eof s)
      = (Inr (), q)" using total_source.pull_chunks_total [OF source_total] by blast
  then show ?thesis by (cases q) (auto simp: next_block_def Let_def cut_block_eq)
qed

lemma put_fill_total: "\<exists>s'. put_fill rd s = (Inr (), s')"
proof (induction "unat (ng_windowsize (pt_neg s)) - length (pt_in_flight s)" arbitrary: s rule: less_induct)
  case less
  obtain ob sn where r: "next_block rd (pt_sender s) = (Inr ob, sn)" using next_block_total by blast
  show ?case
  proof (cases "length (pt_in_flight s) < unat (ng_windowsize (pt_neg s)) \<and> \<not> pt_last_sent_short s \<and> ob \<noteq> None")
    case True
    then obtain b where b: "ob = Some b" by blast
    let ?s = "s\<lparr>pt_sender := sn,
      pt_last_sent_short := (pt_last_sent_short s \<or> length b < unat (ng_blksize (pt_neg s))),
      pt_total := pt_total s + of_nat (length b),
      pt_in_flight := pt_in_flight s @ [(pt_next_block s, b)], pt_next_block := pt_next_block s + 1\<rparr>"
    have "unat (ng_windowsize (pt_neg ?s)) - length (pt_in_flight ?s)
        < unat (ng_windowsize (pt_neg s)) - length (pt_in_flight s)"
      using True by auto
    from less [OF this] True r b show ?thesis by (simp add: put_fill.simps [of rd s])
  next
    case False
    with r show ?thesis by (auto simp: put_fill.simps [of rd s])
  qed
qed

lemma put_window_progress:
  assumes "put_rel B W lo h s" "faults n = []" "lo \<le> length B"
    and hi: "hi = max h (min (lo + unat (ng_windowsize (pt_neg s))) (length B + 1))"
  shows "\<exists>s' n'. put_next_window rd s n = Running (PutData s' 0, n') \<and> put_rel B W lo hi s'
    \<and> pt_peer s' = pt_peer s \<and> pt_neg s' = pt_neg s \<and> faults n' = []
    \<and> (\<forall>m. lo \<le> m + 1 \<and> m + 1 < hi \<longrightarrow> (pt_peer s, encode (Data (of_nat (m + 1)) (B ! m))) \<in> set (outbox n'))"
proof -
  obtain s' where f: "put_fill rd s = (Inr (), s')" using put_fill_total by blast
  note frame = put_fill_frame [OF f]
  have rel: "put_rel B W lo hi s'" using put_fill_rel [OF assms(1) f] hi by simp
  then have fl: "pt_in_flight s' = flight_of B lo hi" by (simp add: put_rel_def)
  moreover have "lo < hi" using assms(1,3) hi by (auto simp: put_rel_def less_max_iff_disj)
  ultimately have "pt_in_flight s' \<noteq> []" by simp
  then have "put_next_window rd s n = Running (PutData s' 0, arm (ng_timeout (pt_neg s'))
      (n\<lparr>outbox := outbox n @ map (\<lambda>(bn, d). (pt_peer s', encode (Data bn d))) (pt_in_flight s')\<rparr>))"
    using f assms(2) by (simp add: put_next_window_def put_send_def put_send_flight_eq send_flight_ok)
  moreover have "(pt_peer s, encode (Data (of_nat (m + 1)) (B ! m)))
      \<in> set (map (\<lambda>(bn, d). (pt_peer s', encode (Data bn d))) (pt_in_flight s'))"
    if "lo \<le> m + 1" "m + 1 < hi" for m
    using that frame unfolding fl flight_of_def by (auto simp: image_iff intro!: bexI [of _ "m + 1"])
  ultimately show ?thesis using rel frame assms(2) by auto
qed

text \<open>An ACK of a block in flight: the upload ends with its last block, otherwise the window is filled again.\<close>

lemma put_window_acked:
  assumes "put_rel B W lo hi s" "lo \<le> k" "k < hi" "hi - lo \<le> unat (ng_windowsize (pt_neg s))"
  shows "\<exists>s'. put_data_event rd (RxFrom (pt_peer s) (encode (Ack (of_nat k)))) s a n
      = (if k = length B then Done (Inr (of_nat (length (concat B)))) (PutData s' a, n)
         else put_next_window rd s' n)
    \<and> put_rel B W (k + 1) hi s' \<and> pt_peer s' = pt_peer s \<and> pt_neg s' = pt_neg s"
proof -
  obtain adv fl where c: "client_consume_ack (of_nat k) (ng_windowsize (pt_neg s)) False (pt_in_flight s)
      = (adv, fl)" by fastforce
  have "unat ((of_nat k :: u16) - of_nat lo) = k - lo"
    using assms(2-4) unat_u16_less [of "ng_windowsize (pt_neg s)"] by (intro unat_diff_of_nat_u16) linarith+
  moreover have "lo < hi" "k - lo < unat (ng_windowsize (pt_neg s))" "min hi (lo + (k - lo) + 1) = k + 1"
    using assms(2-4) by linarith+
  ultimately have adv: "adv" and rel: "put_rel B W (k + 1) hi (s\<lparr>pt_in_flight := fl\<rparr>)"
    using put_ack_rel [OF assms(1) c] by (simp_all add: Let_def)
  from rel have r: "fl = flight_of B (k + 1) hi" "pt_last_sent_short s \<longleftrightarrow> hi = length B + 1"
    "pt_total s = of_nat (length (concat (take (hi - 1) B)))"
    using cli.at_block_finished by (auto simp: put_rel_def)
  have "hi \<le> length B + 1" using put_rel_bound [OF rel] by simp
  then have "fl = [] \<and> pt_last_sent_short s \<longleftrightarrow> k = length B" using r assms(3) by auto
  moreover have "hi = length B + 1" if "k = length B" using that \<open>hi \<le> length B + 1\<close> assms(3) by simp
  ultimately show ?thesis
    using c adv rel r(3)
    by (intro exI [of _ "s\<lparr>pt_in_flight := fl\<rparr>"])
      (auto simp: put_data_event_def recv_one_def MAX_PACKET_SIZE_eq)
qed

lemma put_begin_progress:
  assumes "B = blocks_of k (put_stream remaining (pt_sender s))" "\<not> sn_eof (pt_sender s)"
    and "\<not> sn_final_emitted (pt_sender s)" "unat (ng_blksize neg) = k" "0 < k"
    and "0 < W" "unat (ng_windowsize neg) = W" "faults n = []" "hi = min (1 + W) (length B + 1)"
  shows "\<exists>s' n'. put_begin rd s peer neg n = Running (PutData s' 0, n') \<and> put_rel B W 1 hi s'
    \<and> pt_peer s' = peer \<and> pt_neg s' = neg \<and> faults n' = []
    \<and> (\<forall>m. 1 \<le> m + 1 \<and> m + 1 < hi \<longrightarrow> (peer, encode (Data (of_nat (m + 1)) (B ! m))) \<in> set (outbox n'))"
proof -
  let ?s = "s\<lparr>pt_peer := peer, pt_neg := neg, pt_sender := set_blksize k (pt_sender s), pt_next_block := 1,
      pt_in_flight := [], pt_last_sent_short := False, pt_total := 0\<rparr>"
  have "put_rel B W 1 1 ?s" using put_begin_rel [OF assms(1-5), of W peer] assms(6,7) by simp
  moreover have "1 \<le> length B" using assms(1) by (simp add: Suc_le_eq)
  ultimately show ?thesis
    using put_window_progress [of B W 1 1 ?s n hi] assms(4,6-9) by (simp add: put_begin_def)
qed

end

subsection \<open>The server's side\<close>

context total_sink begin

lemma wrq_write_block_total: "\<exists>s'. wrq_write_block wr s d = (Inr (), s')"
proof -
  obtain dec out where d: "decode_chunk (wr_decoder s) d = (dec, out)" by fastforce
  obtain f where "wr (wr_file s) out = (Inr (), f)" using wr_total by blast
  with d show ?thesis by (simp add: wrq_write_block_def)
qed

lemma wrq_write_tail_total: "\<exists>s'. wrq_write_tail wr fl s = (Inr (), s')"
proof -
  obtain dec tail where d: "decode_tail (wr_decoder s) = (dec, tail)" by fastforce
  obtain f where f: "(if tail \<noteq> [] then wr (wr_file s) tail else (Inr (), wr_file s)) = (Inr (), f)"
    using wr_total by (cases "tail = []") auto
  obtain f' where "fl f = (Inr (), f')" using fl_total by blast
  with d f show ?thesis by (simp add: wrq_write_tail_def)
qed

lemma wrq_final_block_progress:
  assumes "wrq_rel md B peer neg m s" "carries md (unat (ng_blksize neg)) B src" "faults n = []"
    and "m + 1 = length B" "answered oack peer n"
  shows "\<exists>st. wrq_in_order wr fl s (of_nat (m + 1)) (B ! m) n = Done (Inr ()) st \<and> wrq_holds src st
    \<and> (peer, encode (Ack (of_nat (m + 1)))) \<in> set (outbox (snd st))"
proof -
  let ?p = "wrq_in_order wr fl s (of_nat (m + 1)) (B ! m) n"
  have s: "wr_peer s = peer" "wr_neg s = neg" "m < length B" using assms(1) by (simp_all add: wrq_rel_def)
  have short: "length (B ! m) < unat (ng_blksize neg)"
    using carries_last [OF assms(2) s(3)] assms(4) by simp
  obtain s1 where w: "wrq_write_block wr s (B ! m) = (Inr (), s1)" using wrq_write_block_total by blast
  let ?s = "s1\<lparr>wr_last_acked := of_nat (m + 1), wr_next_block := wr_next_block s1 + 1,
      wr_blocks_in_window := wr_blocks_in_window s1 + 1\<rparr>"
  obtain s3 where w': "wrq_write_tail wr fl ?s = (Inr (), s3)" using wrq_write_tail_total by blast
  have "wr_peer s1 = peer" "wr_peer s3 = peer"
    using s(1) wrq_write_block_frame [OF w] wrq_write_tail_frame [OF w'] by simp_all
  then have p: "\<exists>st. ?p = Done (Inr ()) st \<and> (peer, encode (Ack (of_nat (m + 1)))) \<in> set (outbox (snd st))"
    using s short w w' assms(3) by (simp add: wrq_in_order_def Let_def wrq_ack_def wrq_loop_def send_ack_def)
  obtain m' where "wrq_post md B src oack peer neg m' n ?p"
    using wrq_in_order_post [OF assms(1,2,5)] by blast
  with p show ?thesis by (auto simp: wrq_post_def)
qed

lemma wrq_inner_block_progress:
  assumes "wrq_rel md B peer neg m s" "carries md (unat (ng_blksize neg)) B src" "faults n = []"
    and "m + 1 < length B"
  shows "\<exists>s' n'. wrq_in_order wr fl s (of_nat (m + 1)) (B ! m) n = Running (WrqRun s' 0, n')
    \<and> wrq_rel md B peer neg (m + 1) s' \<and> faults n' = [] \<and> set (outbox n) \<subseteq> set (outbox n')
    \<and> (if ng_windowsize neg \<le> wr_blocks_in_window s + 1
        then wr_blocks_in_window s' = 0 \<and> (peer, encode (Ack (of_nat (m + 1)))) \<in> set (outbox n')
        else wr_blocks_in_window s' = wr_blocks_in_window s + 1)"
proof -
  have s: "wr_peer s = peer" "wr_neg s = neg" "m < length B" "\<not> wr_finished s" using assms(1) by (simp_all add: wrq_rel_def)
  have long: "\<not> length (B ! m) < unat (ng_blksize neg)"
    using carries_last [OF assms(2) s(3)] assms(4) by simp
  obtain s1 where w: "wrq_write_block wr s (B ! m) = (Inr (), s1)" using wrq_write_block_total by blast
  note frame = wrq_write_block_frame [OF w]
  obtain dec out f where d: "decode_chunk (wr_decoder s) (B ! m) = (dec, out)"
    "contents f = contents (wr_file s) @ out" and s1: "s1 = s\<lparr>wr_decoder := dec, wr_file := f\<rparr>"
    using wrq_write_block_ok [OF w] by blast
  let ?s = "\<lambda>b. s1\<lparr>wr_last_acked := of_nat (m + 1), wr_next_block := wr_next_block s1 + 1,
      wr_blocks_in_window := b\<rparr>"
  have "sink_at md B (m + 1) dec (contents f)"
    using sink_at_Suc [OF _ s(3) d(1), of md "contents (wr_file s)"] assms(1) d(2) by (simp add: wrq_rel_def)
  then have "wrq_rel md B peer neg (m + 1) (?s b)" for b
    using assms(1,4) s1 by (simp add: wrq_rel_def add_ac)
  moreover have "\<not> wr_finished s1" using s(4) s1 by simp
  ultimately show ?thesis
    using s long w frame assms(3)
    by (auto simp: wrq_in_order_def Let_def wrq_ack_def wrq_loop_def send_ack_def)
qed

end

subsection \<open>Both sides on a network that delivers\<close>

locale steady_upload = agreed rd remaining wr fl contents md src oack neg sa ra
  for rd :: "'f reader" and remaining :: "'f \<Rightarrow> bytes"
    and wr :: "'g writer" and fl :: "'g flusher" and contents :: "'g \<Rightarrow> bytes"
    and md :: mode and src :: bytes and oack :: option_set and neg :: negotiated
    and sa :: sockaddr and ra :: sockaddr +
  fixes sys :: "'g os"
  assumes wr_sys: "os_write sys = wr" "os_flush sys = fl"
begin

abbreviation "go \<equiv> sys_reach (put_event rd) (conn_event sys) sent sent sa ra (\<lambda>_ _. False) (\<lambda>_ _. False)"
abbreviation "wire_length \<equiv> length (encode_all (encoder_for md) src)"

text \<open>The server takes the next block.\<close>

definition server_at :: "('g conn_state, unit) progress \<Rightarrow> nat \<Rightarrow> u16 \<Rightarrow> bool" where
  "server_at Q m b \<longleftrightarrow> (\<exists>w a n. Q = Running (ConnWrq (WrqRun w a), n) \<and> dst.wrq_rel md B sa neg m w
     \<and> wr_blocks_in_window w = b \<and> faults n = [] \<and> answered oack sa n)"

lemma server_takes_block:
  assumes "dst.wrq_rel md B sa neg m w"
  shows "conn_event sys (RxFrom sa (block_datagram m)) (ConnWrq (WrqRun w a), n)
    = map_state (apfst ConnWrq) (wrq_in_order wr fl w (of_nat (m + 1)) (B ! m) n)"
proof -
  have "m < length B" "wr_peer w = sa" "wr_next_block w = of_nat (m + 1)"
    using assms by (simp_all add: dst.wrq_rel_def)
  then show ?thesis
    using block_read wr_sys by (simp add: wrq_run_event_def recv_one_def wrq_data_def)
qed

lemma deliver_window:
  assumes "go S0 (P, Q)" "server_at Q m (of_nat (m + 1 - lo))" "lo \<le> m + 1" "m + 1 < hi"
    and hi: "hi = min (lo + W) (length B + 1)"
    and data: "\<forall>m. lo \<le> m + 1 \<and> m + 1 < hi \<longrightarrow> (ra, block_datagram m) \<in> set (sent (state_of P))"
  shows "\<exists>Q'. go S0 (P, Q') \<and> (sa, encode (Ack (of_nat (hi - 1)))) \<in> set (sent (state_of Q'))
    \<and> (if hi = length B + 1 then \<exists>t. Q' = Done (Inr ()) t \<and> stored contents src t else server_at Q' (hi - 1) 0)"
  using assms(1-4)
proof (induction "hi - (m + 1)" arbitrary: Q m rule: less_induct)
  case less
  obtain w a n where Q: "Q = Running (ConnWrq (WrqRun w a), n)" and rel: "dst.wrq_rel md B sa neg m w"
    and b: "wr_blocks_in_window w = of_nat (m + 1 - lo)" and n: "faults n = []" "answered oack sa n"
    using less.prems(2) unfolding server_at_def by blast
  have lt: "m < length B" using rel by (simp add: dst.wrq_rel_def)
  have "(ra, block_datagram m) \<in> set (sent (state_of P))" using data less.prems by blast
  note step = reach_to_receiver [OF less.prems(1) [unfolded Q] this server_takes_block [OF rel]]
  show ?case
  proof (cases "m + 1 = length B")
    case True
    obtain st where p: "wrq_in_order wr fl w (of_nat (m + 1)) (B ! m) n = Done (Inr ()) st"
      "dst.wrq_holds src st" "(sa, encode (Ack (of_nat (m + 1)))) \<in> set (outbox (snd st))"
      using dst.wrq_final_block_progress [OF rel B_props(1) n(1) True n(2)] by blast
    from p(2) have "stored contents src (apfst ConnWrq st)"
      by (cases st; cases "fst st") (auto simp: dst.wrq_holds_def stored_def)
    moreover have "hi = length B + 1" "hi - 1 = m + 1" using hi less.prems(4) True by simp_all
    ultimately show ?thesis using step p by (intro exI [of _ "Done (Inr ()) (apfst ConnWrq st)"]) simp
  next
    case False
    then have inner: "m + 1 < length B" using lt by simp
    have "wr_blocks_in_window w + 1 = of_nat (m + 1 - lo + 1)" unfolding b by (simp only: of_nat_add of_nat_1)
    moreover have "m + 1 - lo + 1 < 65536" using less.prems(3,4) hi W_bounds by linarith
    ultimately have "unat (wr_blocks_in_window w + 1) = m + 1 - lo + 1" by (simp only: unat_of_nat_u16)
    then have count: "unat (wr_blocks_in_window w + 1) = m + 2 - lo" using less.prems(3) by simp
    obtain w' n' where p: "wrq_in_order wr fl w (of_nat (m + 1)) (B ! m) n = Running (WrqRun w' 0, n')"
      "dst.wrq_rel md B sa neg (m + 1) w'" "faults n' = []" "set (outbox n) \<subseteq> set (outbox n')"
      and wd: "if ng_windowsize neg \<le> wr_blocks_in_window w + 1
        then wr_blocks_in_window w' = 0 \<and> (sa, encode (Ack (of_nat (m + 1)))) \<in> set (outbox n')
        else wr_blocks_in_window w' = wr_blocks_in_window w + 1"
      using dst.wrq_inner_block_progress [OF rel B_props(1) n(1) inner] by blast
    have at: "server_at (Running (ConnWrq (WrqRun w' 0), n')) (m + 1) (wr_blocks_in_window w')"
      using p(2-4) n(2) by (auto simp: server_at_def answered_def)
    show ?thesis
    proof (cases "m + 2 = lo + W")
      case True
      then have "ng_windowsize neg \<le> wr_blocks_in_window w + 1"
        using count less.prems(3) by (simp add: word_le_nat_alt)
      moreover have "hi = m + 2" "hi \<noteq> length B + 1" using hi True inner by simp_all
      ultimately show ?thesis
        using step p(1) wd at by (intro exI [of _ "Running (ConnWrq (WrqRun w' 0), n')"]) simp
    next
      case next_block: False
      then have lt': "m + 2 < lo + W" using less.prems(4) hi by simp
      then have "\<not> ng_windowsize neg \<le> wr_blocks_in_window w + 1"
        using count less.prems(3) by (simp add: word_le_nat_alt)
      with wd have "wr_blocks_in_window w' = of_nat (m + 1 + 1 - lo)"
        using b less.prems(3) by (simp add: Suc_diff_le)
      with less.hyps [of "m + 1" "Running (ConnWrq (WrqRun w' 0), n')"] at step p(1) less.prems(3,4) lt' inner hi
      show ?thesis by simp
    qed
  qed
qed

lemma rounds:
  assumes "go S0 (Running (PutData s a, n), Q)" "src.put_rel B W lo hi s" "pt_peer s = ra" "pt_neg s = neg"
    and "faults n = []" "lo \<le> length B" "server_at Q (lo - 1) 0"
    and "hi = min (lo + W) (length B + 1)"
    and "\<forall>m. lo \<le> m + 1 \<and> m + 1 < hi \<longrightarrow> (ra, block_datagram m) \<in> set (outbox n)"
  shows "\<exists>st t. go S0 (Done (Inr (of_nat (length (concat B)))) st, Done (Inr ()) t) \<and> stored contents src t"
  using assms
proof (induction "length B + 1 - lo" arbitrary: s a n Q lo hi rule: less_induct)
  case less
  note hi = less.prems(8)
  have lo: "1 \<le> lo" "lo < hi" "hi - lo \<le> W" using src.put_rel_bound [OF less.prems(2)] less.prems(6) W_bounds hi by auto
  have start: "server_at Q (lo - 1) (of_nat (lo - 1 + 1 - lo))" using less.prems(7) lo by simp
  obtain Q' where Q': "go S0 (Running (PutData s a, n), Q')"
    "(sa, encode (Ack (of_nat (hi - 1)))) \<in> set (sent (state_of Q'))"
    "if hi = length B + 1 then \<exists>t. Q' = Done (Inr ()) t \<and> stored contents src t else server_at Q' (hi - 1) 0"
    using deliver_window [OF less.prems(1) start _ _ hi] less.prems(9) lo by auto
  have k: "lo \<le> hi - 1" "hi - 1 < hi" "hi - 1 + 1 = hi" "hi - 1 = length B \<longleftrightarrow> hi = length B + 1"
    using lo(1,2) by linarith+
  obtain s' where s': "put_data_event rd (RxFrom ra (encode (Ack (of_nat (hi - 1))))) s a n
      = (if hi = length B + 1 then Done (Inr (of_nat (length (concat B)))) (PutData s' a, n)
         else put_next_window rd s' n)"
    "src.put_rel B W hi hi s'" "pt_peer s' = ra" "pt_neg s' = neg"
    using src.put_window_acked [OF less.prems(2) k(1,2), of a n] lo less.prems(3,4) k by (auto split: if_splits)
  have ev: "put_event rd (RxFrom ra (encode (Ack (of_nat (hi - 1))))) (PutData s a, n)
      = (if hi = length B + 1 then Done (Inr (of_nat (length (concat B)))) (PutData s' a, n)
         else put_next_window rd s' n)" using s'(1) by simp
  note step = reach_to_sender [OF Q'(1,2) ev]
  show ?case
  proof (cases "hi = length B + 1")
    case True
    with Q'(3) obtain t where t: "Q' = Done (Inr ()) t" "stored contents src t" by auto
    with step True have "go S0 (Done (Inr (of_nat (length (concat B)))) (PutData s' a, n), Done (Inr ()) t)"
      by (simp only: if_True simp_thms)
    with t(2) show ?thesis by blast
  next
    case False
    then have le: "hi \<le> length B" using hi by simp
    let ?hi = "min (hi + W) (length B + 1)"
    obtain s2 n2 where w: "put_next_window rd s' n = Running (PutData s2 0, n2)" "src.put_rel B W hi ?hi s2"
      "pt_peer s2 = ra" "pt_neg s2 = neg" "faults n2 = []"
      "\<forall>m. hi \<le> m + 1 \<and> m + 1 < ?hi \<longrightarrow> (ra, block_datagram m) \<in> set (outbox n2)"
      using src.put_window_progress [OF s'(2) less.prems(5) le, of ?hi] s'(3,4) le W_bounds by auto
    have "length B + 1 - hi < length B + 1 - lo" using lo le by linarith
    from less.hyps [OF this _ w(2-5) le _ refl w(6)] step w(1) Q'(3) False show ?thesis by simp
  qed
qed

text \<open>
  The start: the client has sent its request, and the server's answer, an OACK or ACK(0), tells it
  its parameters.
\<close>

lemma completes:
  assumes "source_remaining remaining s0 = src" "contents file = []" "faults n = []" "faults n' = []"
    and g_def: "g = putter_new opts server remote (put_sender_new s0 md) sz"
    and "answered oack sa n"
    and "put_event rd (RxFrom ra (encode (answer oack))) (PutRequest g 0, n') = put_begin rd g ra neg n'"
  shows "\<exists>st t. go (Running (PutRequest g 0, n'), Running (ConnWrq (WrqRun (wrq_receiver_new sa cfg neg file md) 0), n))
      (Done (Inr (of_nat wire_length)) st, Done (Inr ()) t) \<and> stored contents src t"
proof -
  let ?hi = "min (1 + W) (length B + 1)"
  have "B = blocks_of (unat (ng_blksize neg)) (put_stream remaining (pt_sender g))"
    "\<not> sn_eof (pt_sender g)" "\<not> sn_final_emitted (pt_sender g)"
    using assms(1) by (simp_all add: g_def putter_new_def Let_def put_sender_new_def put_stream_def)
  then obtain s m where w: "put_begin rd g ra neg n' = Running (PutData s 0, m)" "src.put_rel B W 1 ?hi s"
    "pt_peer s = ra" "pt_neg s = neg" "faults m = []"
    "\<forall>j. 1 \<le> j + 1 \<and> j + 1 < ?hi \<longrightarrow> (ra, block_datagram j) \<in> set (outbox m)"
    using src.put_begin_progress [of B "unat (ng_blksize neg)" g neg W n' ?hi ra] negotiated_bsize_pos [OF neg_ok] W_bounds assms(4) by blast
  let ?Q = "Running (ConnWrq (WrqRun (wrq_receiver_new sa cfg neg file md) 0), n)"
  have "B \<noteq> []" by simp
  then have "server_at ?Q (1 - 1) 0"
    using dst.wrq_receiver_new_rel [OF _ assms(2), of B md sa neg cfg] assms(3,6)
    by (simp add: server_at_def) (simp add: wrq_receiver_new_def)
  moreover have "go (Running (PutRequest g 0, n'), ?Q) (Running (PutData s 0, m), ?Q)"
    using assms(6,7) w(1) by (intro reach_to_sender [where d = "encode (answer oack)", OF reach_start]) (simp_all add: answered_def)
  moreover have "1 \<le> length B" by (simp add: Suc_le_eq)
  ultimately have "\<exists>st t. go (Running (PutRequest g 0, n'), ?Q)
      (Done (Inr (of_nat (length (concat B)))) st, Done (Inr ()) t) \<and> stored contents src t"
    using rounds [OF _ w(2-5) _ _ refl w(6)] by blast
  then show ?thesis by simp
qed

end

text \<open>An upload from its start.\<close>

lemma steady_uploadI:
  assumes "total_source rd remaining" "total_sink (os_write sys) (os_flush sys) contents"
    and "negotiate cfg req None = Some (oack, neg)" "option_set_ok req"
  shows "steady_upload rd remaining (os_write sys) (os_flush sys) contents oack neg sys"
  using assms negotiate_set_ok [OF assms(3,4)] negotiate_merge [OF assms(3)]
  by (simp add: steady_upload_def steady_upload_axioms_def agreed_def agreed_axioms_def)

lemma upload_progress:
  assumes "total_source rd remaining" "total_sink (os_write sys) (os_flush sys) contents"
    and "cstr_ok remote" "client_options_ok opts" "resolve (cf_root cfg) remote = Inr path"
    and "os_create sys (if \<not> cf_allow_overwrite cfg then CreateNew else Truncate) path = Inr f" "contents f = []"
    and "negotiate cfg (build_request_options opts sz) None = Some (oack, neg)"
    and "os_bind sys (bind_addr_for (cf_listen cfg)) = Inr a" "bnd (bind_addr_for server) = Inr ()"
  shows "\<exists>s t. sys_reach (put_event rd) (conn_event sys) sent sent sa ra (\<lambda>_ _. False) (\<lambda>_ _. False)
      (upload_start sys cfg sa bnd opts server remote s0 sz [] [])
      (Done (Inr (of_nat (length (encode_all (encoder_for (op_mode opts)) (source_remaining remaining s0))))) s,
       Done (Inr ()) t)
    \<and> stored contents (source_remaining remaining s0) t"
proof -
  let ?md = "op_mode opts"
  let ?g = "putter_new opts server remote (put_sender_new s0 ?md) sz" and ?w = "wrq_receiver_new sa cfg neg f ?md"
  note st = steady_uploadI [OF assms(1,2,8) build_request_options_ok [OF assms(4)]]
  note agreed = st [unfolded steady_upload_def, THEN conjunct1]
  obtain n' where P: "do_put bnd opts server remote (put_sender_new s0 ?md) sz (net_new []) = Running (PutRequest ?g 0, n')"
    "faults n' = []"
    using assms(10) by (simp add: do_put_unfold put_send_request_def net_new_def)
  have "\<not> wr_finished ?w" by (simp add: wrq_receiver_new_def)
  then obtain n where Q: "handle_initial sys cfg sa (encode (Wrq remote ?md (build_request_options opts sz))) (net_new [])
      = Running (ConnWrq (WrqRun ?w 0), n)" "faults n = []" "answered oack sa n"
    using decode_request_packet(2) [OF assms(3,4)] assms(5,6,8,9)
    by (cases "option_set_is_empty oack")
      (simp_all add: handle_initial_def serve_wrq_def Let_def wrq_loop_def net_new_def wrq_send_initial_oack_def send_ack_def
        answered_def answer_def)
  have "put_event rd (RxFrom ra (encode (answer oack))) (PutRequest ?g 0, n') = put_begin rd ?g ra neg n'"
  proof (cases "option_set_is_empty oack")
    case True
    then show ?thesis
      using agreed.defaults_without_oack [OF agreed]
      by (simp add: answer_def put_request_event_def MAX_PACKET_SIZE_eq putter_new_def Let_def)
  next
    case False
    then have "pt_want_oack ?g"
      using assms(8) negotiate_nothing [of "build_request_options opts sz" cfg None]
      by (auto simp: putter_new_def Let_def)
    with False show ?thesis
      using agreed.oack_read [OF agreed] agreed.merged [OF agreed]
      by (simp add: answer_def put_request_event_def) (simp add: putter_new_def Let_def)
  qed
  from steady_upload.completes [OF st refl assms(7) Q(2) P(2) refl Q(3) this]
  show ?thesis by (simp add: upload_start_def P(1) Q(1))
qed

end
