(* ===== verification/Recovery.thy ===== *)
theory Recovery
  imports Upload_Progress
begin

text \<open>
  No transfer gets stuck, even when the network has lost everything: from any reachable state of a
  transfer in which neither side has failed and each has a retransmission left, with every datagram sent so
  far lost, there is a run that completes the transfer. From that state on the network is a plain one: it delivers a datagram at
  most once, in the order of sending, so what completes the transfer is what the two machines send again
  when their deadlines pass. The relation \<open>fresh_step\<close> is this network, the locale \<open>resumable\<close> what a
  sender and a receiver contribute to the argument.
\<close>

subsection \<open>A network without memory\<close>

text \<open>
  \<open>(P, i, Q, j)\<close>: of the datagrams that \<open>P\<close> has sent the first \<open>i\<close> are gone (delivered or lost), of those
  of \<open>Q\<close> the first \<open>j\<close>. Delivering one loses the ones before it. The only other events are timeouts.
\<close>

type_synonym ('s, 'r, 't, 'q) fresh_system = "('s, 'r) progress \<times> nat \<times> ('t, 'q) progress \<times> nat"

inductive fresh_step ::
  "(rx \<Rightarrow> 's \<Rightarrow> ('s, 'r) progress) \<Rightarrow> (rx \<Rightarrow> 't \<Rightarrow> ('t, 'q) progress) \<Rightarrow>
   ('s \<Rightarrow> datagram list) \<Rightarrow> ('t \<Rightarrow> datagram list) \<Rightarrow> sockaddr \<Rightarrow> sockaddr \<Rightarrow>
   ('s, 'r, 't, 'q) fresh_system \<Rightarrow> ('s, 'r, 't, 'q) fresh_system \<Rightarrow> bool"
  for sstep rstep sout rout sa ra
where
  fresh_to_receiver: "i \<le> k \<Longrightarrow> k < length (sout (state_of P)) \<Longrightarrow> sout (state_of P) ! k = (ra, d) \<Longrightarrow>
    fresh_step sstep rstep sout rout sa ra (P, i, Running t, j) (P, Suc k, rstep (RxFrom sa d) t, j)"
| fresh_to_sender: "j \<le> k \<Longrightarrow> k < length (rout (state_of Q)) \<Longrightarrow> rout (state_of Q) ! k = (sa, d) \<Longrightarrow>
    fresh_step sstep rstep sout rout sa ra (Running s, i, Q, j) (sstep (RxFrom ra d) s, i, Q, Suc k)"
| sender_times_out: "fresh_step sstep rstep sout rout sa ra (Running s, i, Q, j) (sstep RxTimeout s, i, Q, j)"
| receiver_times_out: "fresh_step sstep rstep sout rout sa ra (P, i, Running t, j) (P, i, rstep RxTimeout t, j)"

text \<open>All that either side has sent is lost.\<close>

definition all_lost :: "('s \<Rightarrow> datagram list) \<Rightarrow> ('t \<Rightarrow> datagram list) \<Rightarrow> ('s, 'r) progress \<Rightarrow> ('t, 'q) progress \<Rightarrow>
    ('s, 'r, 't, 'q) fresh_system" where
  "all_lost sout rout P Q = (P, length (sout (state_of P)), Q, length (rout (state_of Q)))"

text \<open>Such a run is one of those that the safety theorems speak of, in which only timeouts come from outside.\<close>

lemma fresh_is_sys_step:
  assumes "fresh_step sstep rstep sout rout sa ra (P, i, Q, j) (P', i', Q', j')"
  shows "sys_step sstep rstep sout rout sa ra (\<lambda>_ ev. ev = RxTimeout) (\<lambda>_ ev. ev = RxTimeout) (P, Q) (P', Q')"
  using assms
proof (cases rule: fresh_step.cases)
  case (fresh_to_receiver k d t)
  then show ?thesis using to_receiver by (metis nth_mem)
next
  case (fresh_to_sender k d s)
  then show ?thesis using to_sender by (metis nth_mem)
qed (auto intro: other_sender other_receiver)

lemma fresh_is_sys_reach:
  assumes "(fresh_step sstep rstep sout rout sa ra)\<^sup>*\<^sup>* (P, i, Q, j) (P', i', Q', j')"
  shows "sys_reach sstep rstep sout rout sa ra (\<lambda>_ ev. ev = RxTimeout) (\<lambda>_ ev. ev = RxTimeout) (P, Q) (P', Q')"
  using assms
proof (induction "(P', i', Q', j')" arbitrary: P' i' Q' j' rule: rtranclp_induct)
  case base
  then show ?case by (auto intro: reach_start)
next
  case (step S)
  obtain P1 i1 Q1 j1 where S: "S = (P1, i1, Q1, j1)" by (cases S)
  from step(3) [OF S] fresh_is_sys_step [OF step(2) [unfolded S]] show ?case by (rule reach_step)
qed

text \<open>The moves as rules on runs, for a datagram at a known place.\<close>

lemma fresh_deliver_receiver:
  assumes "(fresh_step sstep rstep sout rout sa ra)\<^sup>*\<^sup>* S0 (P, i, Running t, j)"
    and "sout (state_of P) = xs @ (ra, d) # ys" "i \<le> length xs" "rstep (RxFrom sa d) t = Q"
  shows "(fresh_step sstep rstep sout rout sa ra)\<^sup>*\<^sup>* S0 (P, Suc (length xs), Q, j)"
  unfolding assms(4) [symmetric] using assms(1)
  by (rule rtranclp.rtrancl_into_rtrancl) (rule fresh_to_receiver; simp add: assms(2,3))

lemma fresh_deliver_sender:
  assumes "(fresh_step sstep rstep sout rout sa ra)\<^sup>*\<^sup>* S0 (Running s, i, Q, j)"
    and "rout (state_of Q) = xs @ (sa, d) # ys" "j \<le> length xs" "sstep (RxFrom ra d) s = P"
  shows "(fresh_step sstep rstep sout rout sa ra)\<^sup>*\<^sup>* S0 (P, i, Q, Suc (length xs))"
  unfolding assms(4) [symmetric] using assms(1)
  by (rule rtranclp.rtrancl_into_rtrancl) (rule fresh_to_sender; simp add: assms(2,3))

lemma fresh_sender_timeout:
  assumes "(fresh_step sstep rstep sout rout sa ra)\<^sup>*\<^sup>* S0 (Running s, i, Q, j)" "sstep RxTimeout s = P"
  shows "(fresh_step sstep rstep sout rout sa ra)\<^sup>*\<^sup>* S0 (P, i, Q, j)"
  unfolding assms(2) [symmetric] using assms(1) sender_times_out by (rule rtranclp.rtrancl_into_rtrancl)

lemma fresh_receiver_timeout:
  assumes "(fresh_step sstep rstep sout rout sa ra)\<^sup>*\<^sup>* S0 (P, i, Running t, j)" "rstep RxTimeout t = Q"
  shows "(fresh_step sstep rstep sout rout sa ra)\<^sup>*\<^sup>* S0 (P, i, Q, j)"
  unfolding assms(2) [symmetric] using assms(1) receiver_times_out by (rule rtranclp.rtrancl_into_rtrancl)

subsection \<open>A sender and a receiver that retransmit\<close>

text \<open>
  \<open>sflow lo hi\<close>: the sender waits for an ACK of the blocks \<open>lo, \<dots>, hi - 1\<close>; \<open>rflow m\<close>: the receiver has
  accepted \<open>m\<close> blocks. \<open>again\<close> says that the next timeout of the sender, \<open>repeats\<close> that of the receiver, makes it
  retransmit, and does not end it.
\<close>

locale resumable =
  fixes sstep :: "rx \<Rightarrow> 's \<Rightarrow> ('s, 'r) progress"
    and rstep :: "rx \<Rightarrow> 't \<Rightarrow> ('t, 'q) progress"
    and sout :: "'s \<Rightarrow> datagram list" and rout :: "'t \<Rightarrow> datagram list"
    and sa :: sockaddr and ra :: sockaddr
    and dat :: "nat \<Rightarrow> bytes" and ack :: "nat \<Rightarrow> bytes" and N :: nat
    and sflow :: "nat \<Rightarrow> nat \<Rightarrow> 's \<Rightarrow> bool" and rflow :: "nat \<Rightarrow> 't \<Rightarrow> bool"
    and again :: "'s \<Rightarrow> bool" and repeats :: "'t \<Rightarrow> bool"
    and result :: "'q \<Rightarrow> 't \<Rightarrow> bool"
  assumes flow_bound: "sflow lo hi s \<Longrightarrow> 1 \<le> lo \<and> lo < hi \<and> hi \<le> N"
    and flow_again: "sflow lo hi s \<Longrightarrow> again s \<Longrightarrow>
      \<exists>s'. sstep RxTimeout s = Running s' \<and> sflow lo hi s' \<and> sout s' = sout s @ map (\<lambda>k. (ra, dat k)) [lo..<hi]"
    and flow_ack: "sflow lo hi s \<Longrightarrow> lo \<le> k \<Longrightarrow> k < hi \<Longrightarrow>
      (if k + 1 = N then \<exists>r s'. sstep (RxFrom ra (ack k)) s = Done (Inr r) s'
       else \<exists>hi' s'. sstep (RxFrom ra (ack k)) s = Running s' \<and> sflow (k + 1) hi' s'
         \<and> sout s' = sout s @ map (\<lambda>k. (ra, dat k)) [k + 1..<hi'])"
    and flow_take: "rflow m t \<Longrightarrow>
      (if m + 2 = N then \<exists>q t'. rstep (RxFrom sa (dat (m + 1))) t = Done (Inr q) t' \<and> result q t'
         \<and> rout t' = rout t @ [(sa, ack (m + 1))]
       else \<exists>t'. rstep (RxFrom sa (dat (m + 1))) t = Running t' \<and> rflow (m + 1) t' \<and> repeats t'
         \<and> length (rout t) \<le> length (rout t'))"
    and flow_stale: "rflow m t \<Longrightarrow> 1 \<le> k \<Longrightarrow> k \<le> m \<Longrightarrow>
      \<exists>t'. rstep (RxFrom sa (dat k)) t = Running t' \<and> rflow m t' \<and> rout t' = rout t @ [(sa, ack m)]"
    and flow_repeat: "rflow m t \<Longrightarrow> repeats t \<Longrightarrow>
      \<exists>t'. rstep RxTimeout t = Running t' \<and> rflow m t' \<and> rout t' = rout t @ [(sa, ack m)]"
begin

abbreviation "go \<equiv> (fresh_step sstep rstep sout rout sa ra)\<^sup>*\<^sup>*"

text \<open>The blocks in flight are the last that the sender has sent, and none of them is gone.\<close>

definition flying :: "nat \<Rightarrow> nat \<Rightarrow> nat \<Rightarrow> 's \<Rightarrow> bool" where
  "flying i lo hi s \<longleftrightarrow> (\<exists>xs. sout s = xs @ map (\<lambda>k. (ra, dat k)) [lo..<hi] \<and> i \<le> length xs)"

lemma flying_first:
  assumes "flying i lo hi s" "lo < hi"
  shows "\<exists>xs ys. sout s = xs @ (ra, dat lo) # ys \<and> i \<le> length xs"
  using assms by (auto simp: flying_def upt_conv_Cons)

text \<open>
  One round: the next block arrives; when it is not the last one the receiver's deadline passes, so that its
  ACK is sent whatever the window; with the ACK the sender sends on.
\<close>

lemma rounds:
  assumes "go S0 (Running s, i, Running t, j)" "sflow (m + 1) hi s" "flying i (m + 1) hi s" "rflow m t" "j \<le> length (rout t)"
  shows "\<exists>r s' i' q t' j'. go S0 (Done (Inr r) s', i', Done (Inr q) t', j') \<and> result q t'"
  using assms
proof (induction "N - m" arbitrary: s i t j m hi rule: less_induct)
  case less
  note bound = flow_bound [OF less.prems(2)]
  obtain xs ys where out: "sout s = xs @ (ra, dat (m + 1)) # ys" "i \<le> length xs"
    using flying_first [OF less.prems(3)] bound by auto
  note arrives = fresh_deliver_receiver [OF less.prems(1), of xs "dat (m + 1)" ys, unfolded state_of.simps, OF out refl]
  have k: "m + 1 \<le> m + 1" "m + 1 < hi" using bound by simp_all
  show ?case
  proof (cases "m + 2 = N")
    case True
    then obtain q t' where t': "rstep (RxFrom sa (dat (m + 1))) t = Done (Inr q) t'" "result q t'"
      "rout t' = rout t @ [(sa, ack (m + 1))]" using flow_take [OF less.prems(4)] by auto
    obtain r s' where "sstep (RxFrom ra (ack (m + 1))) s = Done (Inr r) s'"
      using flow_ack [OF less.prems(2) k] True by auto
    from fresh_deliver_sender [OF arrives [unfolded t'(1)], of "rout t" "ack (m + 1)" "[]", OF _ less.prems(5) this] t'(2,3)
    show ?thesis by (simp only: state_of.simps) blast
  next
    case False
    then obtain t1 where t1: "rstep (RxFrom sa (dat (m + 1))) t = Running t1" "rflow (m + 1) t1" "repeats t1"
      "length (rout t) \<le> length (rout t1)" using flow_take [OF less.prems(4)] by auto
    from flow_repeat [OF t1(2,3)] obtain t2 where t2: "rstep RxTimeout t1 = Running t2" "rflow (m + 1) t2"
      "rout t2 = rout t1 @ [(sa, ack (m + 1))]" by blast
    obtain hi' s' where s': "sstep (RxFrom ra (ack (m + 1))) s = Running s'" "sflow (m + 1 + 1) hi' s'"
      "sout s' = sout s @ map (\<lambda>k. (ra, dat k)) [m + 1 + 1..<hi']" using flow_ack [OF less.prems(2) k] False by auto
    have "j \<le> length (rout t1)" using less.prems(5) t1(4) by simp
    from fresh_deliver_sender [OF fresh_receiver_timeout [OF arrives [unfolded t1(1)] t2(1)],
        of "rout t1" "ack (m + 1)" "[]", OF _ this s'(1)] t2(3)
    have run: "go S0 (Running s', Suc (length xs), Running t2, Suc (length (rout t1)))" by simp
    have "flying (Suc (length xs)) (m + 1 + 1) hi' s'" using s'(3) out(1) by (auto simp: flying_def)
    moreover have "N - (m + 1) < N - m" using bound by linarith
    moreover have "Suc (length (rout t1)) \<le> length (rout t2)" using t2(3) by simp
    ultimately show ?thesis using less.hyps [OF _ run s'(2) _ t2(2)] by blast
  qed
qed

text \<open>
  The sender's timeout sends the window again. When the receiver has its first block already, it answers with its
  last ACK, and the sender knows of everything accepted.
\<close>

lemma resume:
  assumes "go S0 (Running s, i, Running t, j)" "sflow lo hi s" "again s" "rflow m t" "lo \<le> m + 1" "m + 1 \<le> hi" "m + 1 < N"
    and "i \<le> length (sout s)" "j \<le> length (rout t)"
  shows "\<exists>r s' i' q t' j'. go S0 (Done (Inr r) s', i', Done (Inr q) t', j') \<and> result q t'"
proof -
  note bound = flow_bound [OF assms(2)]
  obtain s1 where s1: "sstep RxTimeout s = Running s1" "sflow lo hi s1"
    "sout s1 = sout s @ map (\<lambda>k. (ra, dat k)) [lo..<hi]" using flow_again [OF assms(2,3)] by blast
  note sent = fresh_sender_timeout [OF assms(1) s1(1)]
  have fl: "flying i lo hi s1" using s1(3) assms(8) by (auto simp: flying_def)
  show ?thesis
  proof (cases "lo = m + 1")
    case True
    from rounds [OF sent _ _ assms(4,9)] s1(2) fl True show ?thesis by blast
  next
    case False
    then have le: "1 \<le> lo" "lo \<le> m" "m < hi" using assms(5,6) bound by linarith+
    obtain xs ys where out: "sout s1 = xs @ (ra, dat lo) # ys" "i \<le> length xs"
      using flying_first [OF fl] bound by blast
    obtain t1 where t1: "rstep (RxFrom sa (dat lo)) t = Running t1" "rflow m t1" "rout t1 = rout t @ [(sa, ack m)]"
      using flow_stale [OF assms(4) le(1,2)] by blast
    note arrives = fresh_deliver_receiver [OF sent, of xs "dat lo" ys, unfolded state_of.simps, OF out t1(1)]
    obtain hi' s2 where s2: "sstep (RxFrom ra (ack m)) s1 = Running s2" "sflow (m + 1) hi' s2"
      "sout s2 = sout s1 @ map (\<lambda>k. (ra, dat k)) [m + 1..<hi']" using flow_ack [OF s1(2) le(2,3)] assms(7) by auto
    from fresh_deliver_sender [OF arrives, of "rout t" "ack m" "[]", OF _ assms(9) s2(1)] t1(3)
    have run: "go S0 (Running s2, Suc (length xs), Running t1, Suc (length (rout t)))" by simp
    have "flying (Suc (length xs)) (m + 1) hi' s2" using s2(3) out(1) by (auto simp: flying_def)
    moreover have "Suc (length (rout t)) \<le> length (rout t1)" using t1(3) by simp
    ultimately show ?thesis using rounds [OF run s2(2) _ t1(2)] by blast
  qed
qed

end

subsection \<open>What the two sides may still do\<close>

text \<open>
  Retransmissions left: a waiting task whose next timeout does not end it, with sends that will succeed, or
  one that has returned \<open>Ok\<close>. A client that waits for the answer to its request must be allowed one retransmission at
  all; an uploading one leaves it to the server to repeat its answer.
\<close>

fun conn_tries :: "'f conn \<Rightarrow> bool" where
  "conn_tries (ConnRrq (RrqOack s _ a)) \<longleftrightarrow> a < cf_retries (rs_cfg s)"
| "conn_tries (ConnRrq (RrqData s a)) \<longleftrightarrow> a < cf_retries (rs_cfg s)"
| "conn_tries (ConnWrq (WrqRun w a)) \<longleftrightarrow> a < cf_retries (wr_cfg w)"
| "conn_tries _ \<longleftrightarrow> False"

fun get_tries :: "'f get_task \<Rightarrow> bool" where
  "get_tries (GetRequest g _) \<longleftrightarrow> 0 < op_retries (gt_opts g)"
| "get_tries (GetData g a) \<longleftrightarrow> a < op_retries (gt_opts g)"
| "get_tries GetClosed \<longleftrightarrow> False"

fun put_tries :: "'f put_task \<Rightarrow> bool" where
  "put_tries (PutRequest _ _) \<longleftrightarrow> True"
| "put_tries (PutData s a) \<longleftrightarrow> a < op_retries (pt_opts s)"
| "put_tries PutClosed \<longleftrightarrow> False"

fun able :: "('k \<Rightarrow> bool) \<Rightarrow> ('k \<times> net, 'r) progress \<Rightarrow> bool" where
  "able tries (Running (task, n)) \<longleftrightarrow> tries task \<and> faults n = []"
| "able tries (Done r _) \<longleftrightarrow> \<not> isl r"
| "able tries (Panicked _) \<longleftrightarrow> False"

subsection \<open>What a step sends\<close>

lemma window_datagrams:
  "map (\<lambda>(bn, d). (p, encode (Data bn d))) (flight_of B lo hi) = map (\<lambda>k. (p, encode (Data (of_nat k) (B ! (k - 1))))) [lo..<hi]"
  by (simp add: flight_of_def)

lemma rrq_send_running:
  "faults n = [] \<Longrightarrow> rrq_send s a n = Running (RrqData s a, arm (ng_timeout (rs_neg s))
     (n\<lparr>outbox := outbox n @ map (\<lambda>(bn, d). (rs_peer s, encode (Data bn d))) (rs_in_flight s)\<rparr>))"
  by (simp add: rrq_send_def send_window_def send_flight_ok)

lemma rrq_next_window_sends:
  "rrq_next_window rd s n = Running (RrqData s' a, n') \<Longrightarrow> faults n = [] \<Longrightarrow>
   outbox n' = outbox n @ map (\<lambda>(bn, d). (rs_peer s', encode (Data bn d))) (rs_in_flight s')"
  by (auto simp: rrq_next_window_def rrq_send_running split: prod.splits sum.splits if_splits)

lemma put_send_running:
  "faults n = [] \<Longrightarrow> put_send s a n = Running (PutData s a, arm (ng_timeout (pt_neg s))
     (n\<lparr>outbox := outbox n @ map (\<lambda>(bn, d). (pt_peer s, encode (Data bn d))) (pt_in_flight s)\<rparr>))"
  by (simp add: put_send_def put_send_flight_eq send_flight_ok)

lemma put_next_window_sends:
  "put_next_window rd s n = Running (PutData s' a, n') \<Longrightarrow> faults n = [] \<Longrightarrow>
   outbox n' = outbox n @ map (\<lambda>(bn, d). (pt_peer s', encode (Data bn d))) (pt_in_flight s')"
  by (auto simp: put_next_window_def put_send_running split: prod.splits sum.splits if_splits)

lemma get_in_order_running:
  assumes "get_in_order wr fl g b d n = Running (task, n')"
  shows "\<exists>g'. task = GetData g' 0 \<and> gt_opts g' = gt_opts g \<and> length (outbox n) \<le> length (outbox n')"
proof -
  have "length (outbox n) \<le> length (outbox m)" if "send_to p x n = (r, m)" for p x r m
    using send_to_outbox [of p x n] that by auto
  then show ?thesis
    using assms by (auto simp: get_in_order_def get_final_def get_ack_def get_loop_def send_ack_def Let_def
        split: prod.splits sum.splits if_splits)
qed

lemma get_in_order_final:
  "get_in_order wr fl g b d n = Done (Inr r) st \<Longrightarrow> faults n = [] \<Longrightarrow>
   outbox (snd st) = outbox n @ [(gt_peer g, encode (Ack b))]"
  by (auto simp: get_in_order_def get_final_def get_ack_def get_loop_def send_ack_def Let_def
      split: prod.splits sum.splits if_splits)

lemma wrq_in_order_running:
  assumes "wrq_in_order wr fl w b d n = Running (task, n')"
  shows "\<exists>w'. task = WrqRun w' 0 \<and> wr_cfg w' = wr_cfg w \<and> length (outbox n) \<le> length (outbox n')"
proof -
  have "length (outbox n) \<le> length (outbox m)" if "send_to p x n = (r, m)" for p x r m
    using send_to_outbox [of p x n] that by auto
  then show ?thesis
    using assms wrq_write_block_frame [of wr w d] wrq_write_tail_frame
    by (fastforce simp: wrq_in_order_def wrq_ack_def wrq_loop_def send_ack_def Let_def
        split: prod.splits sum.splits if_splits)
qed

lemma wrq_in_order_final:
  assumes "wrq_in_order wr fl w b d n = Done (Inr r) st" "faults n = []" "\<not> wr_finished w"
  shows "outbox (snd st) = outbox n @ [(wr_peer w, encode (Ack b))]"
  using assms by (auto simp: wrq_in_order_def wrq_write_block_def wrq_write_tail_def wrq_ack_def wrq_loop_def
      send_ack_def Let_def split: prod.splits sum.splits if_splits)

subsection \<open>Downloads\<close>

locale recovering_download =
  st: steady rd remaining wr fl contents md src oack neg sa ra sys +
  net: download rd remaining wr fl contents sys md src oack neg sa ra
  for rd :: "'f reader" and remaining :: "'f \<Rightarrow> bytes"
    and wr :: "'g writer" and fl :: "'g flusher" and contents :: "'g \<Rightarrow> bytes"
    and md :: mode and src :: bytes and oack :: option_set and neg :: negotiated
    and sa :: sockaddr and ra :: sockaddr and sys :: "'f os"
begin

abbreviation "B \<equiv> wire_blocks md neg src"
abbreviation "W \<equiv> unat (ng_windowsize neg)"
abbreviation "block k \<equiv> encode (Data (of_nat k) (B ! (k - 1)))"
abbreviation "blocks lo hi \<equiv> map (\<lambda>k. (ra, block k)) [lo..<hi]"

text \<open>The server waits for an ACK of the blocks in flight; the client takes block \<open>m + 1\<close> next.\<close>

definition server_flow :: "nat \<Rightarrow> nat \<Rightarrow> 'f conn_state \<Rightarrow> bool" where
  "server_flow lo hi t \<longleftrightarrow> net.dl_srel lo hi t \<and> (\<exists>s a n. t = (ConnRrq (RrqData s a), n) \<and> faults n = [])"

definition client_flow :: "nat \<Rightarrow> 'g get_state \<Rightarrow> bool" where
  "client_flow m t \<longleftrightarrow> (\<exists>g. st.dst.get_rel md B sa neg m g \<and> faults (snd t) = [] \<and> 0 < op_retries (gt_opts g)
     \<and> get_event wr fl (RxFrom sa (block (m + 1))) t = get_in_order wr fl g (of_nat (m + 1)) (B ! m) (snd t)
     \<and> ((\<exists>a. fst t = GetData g a) \<or> m = 0 \<and> (\<exists>g' a. fst t = GetRequest g' a)))"

abbreviation again :: "'f conn_state \<Rightarrow> bool" where "again t \<equiv> conn_tries (fst t)"

definition repeats :: "'g get_state \<Rightarrow> bool" where
  "repeats t \<longleftrightarrow> (\<exists>g a. fst t = GetData g a \<and> a < op_retries (gt_opts g))"

lemma B_fits: "length B + 1 + W \<le> 65536" "length B < 65536"
  using net.B_props(3,4) [OF net.fits] .

lemma server_flow_data:
  assumes "server_flow lo hi t"
  shows "\<exists>s a n. t = (ConnRrq (RrqData s a), n) \<and> faults n = [] \<and> st.src.rrq_rel B lo hi s
    \<and> rs_peer s = ra \<and> rs_neg s = neg \<and> in_transit ra (flight_of B lo hi) (ng_windowsize neg) n"
  using assms by (auto simp: server_flow_def net.dl_srel_def st.src.rrq_srel_def st.src.rrq_rel_def)

lemma server_flow_bound: "server_flow lo hi t \<Longrightarrow> 1 \<le> lo \<and> lo < hi \<and> hi \<le> length B + 1"
  using server_flow_data [of lo hi t] st.src.rrq_rel_bound in_transit_flight by blast

lemma next_window_flow:
  assumes "st.src.rrq_rel B lo h s" "rs_peer s = ra" "rs_neg s = neg" "faults n = []" "lo \<le> length B" "h - lo \<le> W"
  shows "\<exists>hi' t. map_state (apfst ConnRrq) (rrq_next_window rd s n) = Running t \<and> server_flow lo hi' t
    \<and> sent t = outbox n @ blocks lo hi'"
proof -
  have "0 < unat (ng_windowsize (rs_neg s))" using assms(3) st.W_bounds(1) by simp
  from st.src.next_window_progress [OF assms(1) this assms(4,5) refl]
  obtain s' n' where run: "rrq_next_window rd s n = Running (RrqData s' 0, n')" "faults n' = []"
    by blast
  obtain hi' where "st.src.rrq_post B oack ra neg lo hi' n (rrq_next_window rd s n)"
    using st.src.rrq_next_window_post [OF assms(1), of oack n] assms(2,3,6) st.W_bounds(1) by auto
  with run have flow: "server_flow lo hi' (ConnRrq (RrqData s' 0), n')"
    by (simp add: st.src.rrq_post_def server_flow_def net.dl_srel_def)
  then have "rs_peer s' = ra" "rs_in_flight s' = flight_of B lo hi'"
    using server_flow_data [OF flow] by (auto simp: st.src.rrq_rel_def)
  with rrq_next_window_sends [OF run(1) assms(4)] have "outbox n' = outbox n @ blocks lo hi'"
    by (simp add: window_datagrams)
  with run(1) flow show ?thesis by auto
qed

text \<open>The server's deadline passes: it sends the window again.\<close>

lemma server_flow_again:
  assumes "server_flow lo hi t" "again t"
  shows "\<exists>t'. conn_event sys RxTimeout t = Running t' \<and> server_flow lo hi t' \<and> sent t' = sent t @ blocks lo hi"
proof -
  obtain s a n where t: "t = (ConnRrq (RrqData s a), n)" "faults n = []" and rel: "st.src.rrq_rel B lo hi s"
    and s: "rs_peer s = ra" "rs_neg s = neg" and tr: "in_transit ra (flight_of B lo hi) (ng_windowsize neg) n"
    using server_flow_data [OF assms(1)] by blast
  have fl: "rs_in_flight s = flight_of B lo hi" using rel by (simp add: st.src.rrq_rel_def)
  let ?n = "arm (ng_timeout (rs_neg s)) (n\<lparr>outbox := outbox n @ blocks lo hi\<rparr>)"
  have ev: "conn_event sys RxTimeout t = Running (ConnRrq (RrqData s (a + 1)), ?n)"
    using t assms(2) s(1) fl by (simp add: rrq_data_event_def recv_one_def rrq_send_running window_datagrams not_le)
  have "in_transit ra (flight_of B lo hi) (ng_windowsize neg) ?n"
    using tr by (auto simp: in_transit_def)
  with rel s t(2) fl have "server_flow lo hi (ConnRrq (RrqData s (a + 1)), ?n)"
    by (simp add: server_flow_def net.dl_srel_def st.src.rrq_srel_def)
  with ev t(1) show ?thesis by simp
qed

lemma server_flow_ack:
  assumes "server_flow lo hi t" "lo \<le> k" "k < hi"
  shows "if k + 1 = length B + 1 then \<exists>r t'. conn_event sys (RxFrom ra (encode (Ack (of_nat k)))) t = Done (Inr r) t'
    else \<exists>hi' t'. conn_event sys (RxFrom ra (encode (Ack (of_nat k)))) t = Running t' \<and> server_flow (k + 1) hi' t'
      \<and> sent t' = sent t @ blocks (k + 1) hi'"
proof -
  obtain s a n where t: "t = (ConnRrq (RrqData s a), n)" "faults n = []" and rel: "st.src.rrq_rel B lo hi s"
    and s: "rs_peer s = ra" "rs_neg s = neg" and len: "lo < hi" "hi - lo \<le> W"
    using server_flow_data [OF assms(1)] in_transit_flight by blast
  obtain s' where s': "rrq_data_event rd (RxFrom ra (encode (Ack (of_nat k)))) s a n = rrq_next_window rd s' n"
    "st.src.rrq_rel B (k + 1) hi s'" "rs_peer s' = ra" "rs_neg s' = neg"
    using st.src.window_acked [OF rel assms(2,3), of a n] len s by auto
  have ev: "conn_event sys (RxFrom ra (encode (Ack (of_nat k)))) t = map_state (apfst ConnRrq) (rrq_next_window rd s' n)"
    using s'(1) t(1) st.rd_sys by simp
  show ?thesis
  proof (cases "k = length B")
    case True
    then have "hi = k + 1" using st.src.rrq_rel_bound [OF rel] assms(3) by simp
    with s'(2) True have "st.src.rrq_rel B (length B + 1) (length B + 1) s'" by simp
    from st.src.last_window_acked [OF this refl] obtain x where "rrq_next_window rd s' n = Done (Inr ()) x" by blast
    with True ev show ?thesis by simp
  next
    case False
    then have "k + 1 \<le> length B" using st.src.rrq_rel_bound [OF rel] assms(3) by simp
    moreover have "hi - (k + 1) \<le> W" using assms(2) len by simp
    ultimately show ?thesis using next_window_flow [OF s'(2-4) t(2)] ev False t(1) by simp
  qed
qed

lemma client_flow_less: "client_flow m t \<Longrightarrow> m + 1 < length B + 1"
  by (auto simp: client_flow_def st.dst.get_rel_def)

lemma client_flow_data:
  assumes "st.dst.get_rel md B sa neg m g" "faults n = []" "0 < op_retries (gt_opts g)"
  shows "client_flow m (GetData g a, n)"
proof -
  have "m < length B" "gt_peer g = sa" "gt_next_block g = of_nat (m + 1)"
    using assms(1) by (simp_all add: st.dst.get_rel_def)
  then show ?thesis
    unfolding client_flow_def using assms st.block_read
    by (intro exI [of _ g]) (simp add: get_data_event_def recv_one_def)
qed

lemma client_flow_take:
  assumes "client_flow m t"
  shows "if m + 2 = length B + 1 then \<exists>r t'. get_event wr fl (RxFrom sa (block (m + 1))) t = Done (Inr r) t'
      \<and> st.dst.get_result src r t' \<and> sent t' = sent t @ [(sa, encode (Ack (of_nat (m + 1))))]
    else \<exists>t'. get_event wr fl (RxFrom sa (block (m + 1))) t = Running t' \<and> client_flow (m + 1) t' \<and> repeats t'
      \<and> length (sent t) \<le> length (sent t')"
proof -
  obtain g where g: "st.dst.get_rel md B sa neg m g" "faults (snd t) = []" "0 < op_retries (gt_opts g)"
    and ev: "get_event wr fl (RxFrom sa (block (m + 1))) t = get_in_order wr fl g (of_nat (m + 1)) (B ! m) (snd t)"
    using assms unfolding client_flow_def by blast
  have peer: "gt_peer g = sa" using g(1) by (simp add: st.dst.get_rel_def)
  show ?thesis
  proof (cases "m + 1 = length B")
    case True
    obtain r t' where p: "get_in_order wr fl g (of_nat (m + 1)) (B ! m) (snd t) = Done (Inr r) t'"
      "st.dst.get_result src r t'"
      using st.dst.final_block_progress [OF g(1) st.B_props(1) g(2) True] by blast
    have "m + 2 = length B + 1" using True by simp
    with p(2) get_in_order_final [OF p(1) g(2)] peer show ?thesis unfolding ev p(1) by (simp only: if_True simp_thms) blast
  next
    case False
    then have "m + 1 < length B" using client_flow_less [OF assms] by simp
    then obtain g' n' where p: "get_in_order wr fl g (of_nat (m + 1)) (B ! m) (snd t) = Running (GetData g' 0, n')"
      "st.dst.get_rel md B sa neg (m + 1) g'" "faults n' = []"
      using st.dst.inner_block_progress [OF g(1) st.B_props(1) g(2)] by blast
    from get_in_order_running [OF p(1)] g(3) have o: "0 < op_retries (gt_opts g')" "length (sent t) \<le> length (outbox n')"
      by simp_all
    have "m + 2 \<noteq> length B + 1" using False by simp
    moreover have "repeats (GetData g' 0, n')" using o(1) by (simp add: repeats_def)
    ultimately show ?thesis unfolding ev p(1) using client_flow_data [OF p(2,3) o(1)] o(2) by simp
  qed
qed

lemma client_flow_is_data:
  assumes "client_flow m t" "0 < m \<or> repeats t"
  shows "\<exists>g a. t = (GetData g a, snd t) \<and> st.dst.get_rel md B sa neg m g \<and> faults (snd t) = [] \<and> 0 < op_retries (gt_opts g)"
  using assms by (cases t) (auto simp: client_flow_def repeats_def)

lemma client_flow_stale:
  assumes "client_flow m t" "1 \<le> k" "k \<le> m"
  shows "\<exists>t'. get_event wr fl (RxFrom sa (block k)) t = Running t' \<and> client_flow m t'
    \<and> sent t' = sent t @ [(sa, encode (Ack (of_nat m)))]"
proof -
  obtain g a n where g: "st.dst.get_rel md B sa neg m g" "faults n = []" "0 < op_retries (gt_opts g)" and t: "t = (GetData g a, n)"
    using client_flow_is_data [OF assms(1)] assms(2,3) by (cases t) auto
  have s: "gt_peer g = sa" "gt_last_acked g = of_nat m" "gt_next_block g = of_nat (m + 1)" "m < length B"
    using g(1) by (simp_all add: st.dst.get_rel_def)
  have "(of_nat k :: u16) \<noteq> of_nat (m + 1)"
    using assms(3) s(4) B_fits(2) of_nat_u16_eq_iff [of k "m + 1"] by simp
  moreover have "decode (rx_buffer (block k)) = Inr (Data (of_nat k) (B ! (k - 1)))"
    using st.block_read [of "k - 1"] assms(2,3) s(4) by simp
  ultimately have ev: "get_event wr fl (RxFrom sa (block k)) t
      = Running (GetData (g\<lparr>gt_blocks_in_window := 0\<rparr>) 0, arm (ng_timeout (gt_neg g)) (n\<lparr>outbox := outbox n @ [(sa, encode (Ack (of_nat m)))]\<rparr>))"
    using s g(2) t by (simp add: get_data_event_def recv_one_def get_ack_def get_loop_def send_ack_def)
  have "client_flow m (GetData (g\<lparr>gt_blocks_in_window := 0\<rparr>) 0, arm (ng_timeout (gt_neg g)) (n\<lparr>outbox := outbox n @ [(sa, encode (Ack (of_nat m)))]\<rparr>))"
    using g by (intro client_flow_data) (simp_all add: st.dst.get_rel_def)
  with ev t show ?thesis by simp
qed

text \<open>The client's deadline passes: it repeats its last ACK.\<close>

lemma client_flow_repeat:
  assumes "client_flow m t" "repeats t"
  shows "\<exists>t'. get_event wr fl RxTimeout t = Running t' \<and> client_flow m t'
    \<and> sent t' = sent t @ [(sa, encode (Ack (of_nat m)))]"
proof -
  obtain g a n where g: "st.dst.get_rel md B sa neg m g" "faults n = []" "0 < op_retries (gt_opts g)" and t: "t = (GetData g a, n)"
    using client_flow_is_data [OF assms(1)] assms(2) by (cases t) auto
  let ?n = "arm (ng_timeout (gt_neg g)) (n\<lparr>outbox := outbox n @ [(sa, encode (Ack (of_nat m)))]\<rparr>)"
  have "a < op_retries (gt_opts g)" using assms(2) t by (simp add: repeats_def)
  then have "get_event wr fl RxTimeout t = Running (GetData g (a + 1), ?n)"
    using g(1,2) t by (simp add: st.dst.get_rel_def get_data_event_def recv_one_def get_ack_def get_loop_def send_ack_def not_le)
  moreover have "client_flow m (GetData g (a + 1), ?n)" using g by (intro client_flow_data) simp_all
  ultimately show ?thesis using t by simp
qed

end

sublocale recovering_download \<subseteq> rs: resumable "conn_event sys" "get_event wr fl" sent sent sa ra
  block "\<lambda>k. encode (Ack (of_nat k))" "length B + 1" server_flow client_flow again repeats "st.dst.get_result src"
  by unfold_locales
    (rule server_flow_bound server_flow_again server_flow_ack client_flow_take client_flow_stale client_flow_repeat, assumption+)+

context recovering_download begin

lemma client_flow_waiting:
  assumes "st.dst.get_srel md B oack sa neg M t" "0 < M" "faults (snd t) = []" "get_tries (fst t)"
  shows "\<exists>m. M = m + 1 \<and> client_flow m t"
proof -
  obtain task n where t: "t = (task, n)" by fastforce
  show ?thesis
  proof (cases task)
    case (GetData g a)
    then have "0 < op_retries (gt_opts g)" using assms(4) t by (auto simp: word_gt_0)
    with GetData assms t client_flow_data show ?thesis by (auto simp: st.dst.get_srel_def)
  next
    case (GetRequest g a)
    with assms(1,2) t have g: "M = 1" "option_set_is_empty oack" "gt_neg g = negotiated_defaults" "gt_next_block g = 1"
      "gt_last_acked g = 0" "gt_blocks_in_window g = 0" "st.dst.writer_at md B 0 (gt_writer g)" "B \<noteq> []"
      by (auto simp: st.dst.get_srel_def split: if_splits)
    note neg = st.defaults_without_oack [OF g(2)]
    have "st.dst.get_rel md B sa neg 0 (g\<lparr>gt_peer := sa\<rparr>)" using g neg by (simp add: st.dst.get_rel_def)
    moreover have "get_event wr fl (RxFrom sa (block 1)) t = get_in_order wr fl (g\<lparr>gt_peer := sa\<rparr>) 1 (B ! 0) n"
      using g t GetRequest st.block_read [of 0] by (simp add: get_request_event_def get_first_data_eq)
    ultimately have "client_flow 0 t"
      unfolding client_flow_def using assms(3,4) t GetRequest
      by (intro exI [of _ "g\<lparr>gt_peer := sa\<rparr>"]) simp
    with g(1) show ?thesis by simp
  next
    case GetClosed
    with assms(1) t show ?thesis by (simp add: st.dst.get_srel_def)
  qed
qed

text \<open>The handshake: a client that has read the OACK has sent ACK(0) last; with it the server sends the first window.\<close>

lemma ack0_starts:
  assumes "rs.go S0 (Running (ConnRrq (RrqOack s o' a), n), i, Running t, j)" "st.src.rrq_rel B 1 1 s" "rs_peer s = ra" "rs_neg s = neg"
    and "faults n = []" "client_flow 0 t" "sent t = xs @ [(sa, encode (Ack 0))]" "j \<le> length xs" "i \<le> length (outbox n)"
  shows "\<exists>r s' i' q t' j'. rs.go S0 (Done (Inr r) s', i', Done (Inr q) t', j') \<and> st.dst.get_result src q t'"
proof -
  have "1 \<le> length B" by (simp add: Suc_le_eq)
  then obtain hi' x where x: "map_state (apfst ConnRrq) (rrq_next_window rd s n) = Running x"
    "server_flow 1 hi' x" "sent x = outbox n @ blocks 1 hi'"
    using next_window_flow [OF assms(2-5)] by auto
  have "conn_event sys (RxFrom ra (encode (Ack 0))) (ConnRrq (RrqOack s o' a), n) = Running x"
    using assms(3) st.rd_sys x(1) by (simp add: rrq_oack_event_def recv_one_def MAX_PACKET_SIZE_eq)
  from fresh_deliver_sender [OF assms(1), of xs "encode (Ack 0)" "[]", unfolded state_of.simps,
      OF assms(7,8) this] have run: "rs.go S0 (Running x, i, Running t, Suc (length xs))" .
  have "rs.flying i 1 hi' x" using x(3) assms(9) unfolding rs.flying_def by blast
  with rs.rounds [OF run, of 0] x(2) assms(6,7) show ?thesis by simp
qed

text \<open>The OACK was lost: the server sends it again. The ACK(0) was lost: the client sends it again.\<close>

lemma handshake_resumes:
  assumes "st.src.rrq_srel B oack ra neg 0 1 (RrqOack s o' a, n)" "st.dst.get_srel md B oack sa neg M t" "M \<le> 1"
    and "faults n = []" "faults (snd t) = []" "a < cf_retries (rs_cfg s)" "get_tries (fst t)"
    and run: "rs.go S0 (Running (ConnRrq (RrqOack s o' a), n), length (outbox n), Running t, length (sent t))"
  shows "\<exists>r s' i' q t' j'. rs.go S0 (Done (Inr r) s', i', Done (Inr q) t', j') \<and> st.dst.get_result src q t'"
proof -
  have s: "o' = oack" "\<not> option_set_is_empty oack" "st.src.rrq_rel B 1 1 s" "rs_peer s = ra" "rs_neg s = neg"
    using assms(1) by (simp_all add: st.src.rrq_srel_def)
  obtain task n' where t: "t = (task, n')" by fastforce
  show ?thesis
  proof (cases task)
    case (GetData g a')
    then have g: "st.dst.get_rel md B sa neg 0 g" "a' < op_retries (gt_opts g)"
      using assms(2,3,7) t by (auto simp: st.dst.get_srel_def)
    then have "0 < op_retries (gt_opts g)" by (auto simp: word_gt_0)
    then have "client_flow 0 t" "repeats t"
      using client_flow_data [OF g(1), of n' a'] GetData t assms(5) g(2) by (simp_all add: repeats_def)
    then obtain t' where t': "get_event wr fl RxTimeout t = Running t'" "client_flow 0 t'"
      "sent t' = sent t @ [(sa, encode (Ack 0))]" using client_flow_repeat by fastforce
    from ack0_starts [OF fresh_receiver_timeout [OF run t'(1)] s(3-5) assms(4) t'(2,3)] show ?thesis by simp
  next
    case (GetRequest g a')
    let ?g = "g\<lparr>gt_peer := sa, gt_neg := neg\<rparr>"
    let ?t = "(GetData ?g 0, arm (ng_timeout neg) (n'\<lparr>outbox := outbox n' @ [(sa, encode (Ack 0))]\<rparr>))"
    let ?n = "arm (ng_timeout neg) (n\<lparr>outbox := outbox n @ [(ra, encode (Oack oack))]\<rparr>)"
    have ne: "a \<noteq> cf_retries (rs_cfg s)" using assms(6) by simp
    have resent: "conn_event sys RxTimeout (ConnRrq (RrqOack s o' a), n) = Running (ConnRrq (RrqOack s oack (a + 1)), ?n)"
      using s(1,4,5) assms(4) ne by (simp add: rrq_oack_event_def rrq_oack_retry_def rrq_send_oack_def recv_one_def)
    have g: "gt_neg g = negotiated_defaults" "gt_want_oack g" "gt_next_block g = 1" "gt_last_acked g = 0"
      "st.dst.writer_at md B 0 (gt_writer g)" "B \<noteq> []"
      using assms(2) t GetRequest s(2) by (simp_all add: st.dst.get_srel_def)
    then have "st.dst.get_rel md B sa neg 0 ?g" by (simp add: st.dst.get_rel_def)
    then have flow: "client_flow 0 ?t" using assms(5,7) t GetRequest by (intro client_flow_data) simp_all
    have ev: "get_event wr fl (RxFrom sa (encode (Oack oack))) t = Running ?t"
      using g assms(5) t GetRequest st.merged st.oack_read
      by (simp add: get_request_event_def Let_def get_ack_def get_loop_def send_ack_def)
    from fresh_deliver_receiver [OF fresh_sender_timeout [OF run resent], of "outbox n" "encode (Oack oack)" "[]", unfolded state_of.simps, OF _ _ ev]
    have "rs.go S0 (Running (ConnRrq (RrqOack s oack (a + 1)), ?n), Suc (length (outbox n)), Running ?t, length (sent t))"
      by (simp del: get_event.simps conn_event.simps)
    from ack0_starts [OF this s(3-5) _ flow] assms(4) t show ?thesis by simp
  next
    case GetClosed
    with assms(2) t show ?thesis by (simp add: st.dst.get_srel_def)
  qed
qed

lemma dl_resumes:
  assumes "net.dl_run S0 (P, Q)" "\<exists>hi \<ge> 1. net.dl.sys_inv net.start net.start hi S0"
    and "able conn_tries P" "able get_tries Q"
  shows "\<exists>P' i r t j. rs.go (all_lost sent sent P Q) (P', i, Done (Inr r) t, j) \<and> st.dst.get_result src r t
    \<and> ((\<exists>x. Q = Running x) \<longrightarrow> (\<exists>u s. P' = Done (Inr u) s))"
proof (cases Q)
  case (Done q t)
  then obtain r where Q: "Q = Done (Inr r) t" using assms(4) by (cases q) simp_all
  with net.dl_received [OF _ assms(2)] assms(1) have "st.dst.get_result src r t" by blast
  then show ?thesis unfolding all_lost_def Q by blast
next
  case (Panicked t)
  with assms(4) show ?thesis by simp
next
  case Q: (Running t)
  obtain lo M hi where inv: "net.dl.sys_inv lo M hi (P, Q)"
    using net.dl.sys_reach_inv [OF assms(1)] assms(2) by blast
  note facts = inv [unfolded net.dl.sys_inv_def window_ok_def prod.case]
  then have rrel: "st.dst.get_srel md B oack sa neg M t" and le: "lo \<le> M" "M \<le> hi" using Q by blast+
  have t: "get_tries (fst t)" "faults (snd t) = []" using assms(4) Q by (cases t; simp)+
  have "\<exists>r s' i' q t' j'. rs.go (all_lost sent sent P Q) (Done (Inr r) s', i', Done (Inr q) t', j') \<and> st.dst.get_result src q t'"
  proof (cases P)
    case (Done r s)
    then obtain u where "P = Done (Inr u) s" using assms(3) by (cases r) simp_all
    with net.dl_delivered assms(1,2) Q show ?thesis by blast
  next
    case (Panicked s)
    with assms(3) show ?thesis by simp
  next
    case (Running s)
    have srel: "net.dl_srel lo hi s" using facts Running by blast
    obtain task n where s: "s = (ConnRrq task, n)" and task: "st.src.rrq_srel B oack ra neg lo hi (task, n)"
      using srel by (cases s) (auto simp: net.dl_srel_def)
    have n: "faults n = []" "conn_tries (ConnRrq task)" using assms(3) Running s by simp_all
    have run: "rs.go (all_lost sent sent P Q) (Running s, length (sent s), Running t, length (sent t))"
      by (simp add: all_lost_def Running Q)
    show ?thesis
    proof (cases task)
      case (RrqData s' a)
      then have flow: "server_flow lo hi s" using srel n s by (simp add: server_flow_def)
      have "0 < M" using server_flow_bound [OF flow] le by simp
      then obtain m where m: "M = m + 1" "client_flow m t" using client_flow_waiting [OF rrel _ t(2,1)] by blast
      from rs.resume [OF run flow _ m(2)] le m client_flow_less [OF m(2)] n(2) s show ?thesis by simp
    next
      case (RrqOack s' o' a)
      then have "lo = 0 \<and> hi = 1" using task by (simp add: st.src.rrq_srel_def)
      with handshake_resumes [OF _ rrel _ n(1) t(2) _ t(1), of s' o' a] task RrqOack le n(2) run s show ?thesis by simp
    next
      case RrqClosed
      with task show ?thesis by (simp add: st.src.rrq_srel_def)
    qed
  qed
  then obtain u s i q t' j where "rs.go (all_lost sent sent P Q) (Done (Inr u) s, i, Done (Inr q) t', j)"
    "st.dst.get_result src q t'" by blast
  then show ?thesis by (intro exI conjI impI) (assumption | rule refl)+
qed

end

subsection \<open>Uploads\<close>

locale recovering_upload =
  st: steady_upload rd remaining wr fl contents md src oack neg sa ra sys +
  net: upload rd remaining wr fl contents sys md src oack neg sa ra
  for rd :: "'f reader" and remaining :: "'f \<Rightarrow> bytes"
    and wr :: "'g writer" and fl :: "'g flusher" and contents :: "'g \<Rightarrow> bytes"
    and md :: mode and src :: bytes and oack :: option_set and neg :: negotiated
    and sa :: sockaddr and ra :: sockaddr and sys :: "'g os"
begin

abbreviation "B \<equiv> wire_blocks md neg src"
abbreviation "W \<equiv> unat (ng_windowsize neg)"
abbreviation "K \<equiv> unat (ng_blksize neg)"
abbreviation "block k \<equiv> encode (Data (of_nat k) (B ! (k - 1)))"
abbreviation "blocks lo hi \<equiv> map (\<lambda>k. (ra, block k)) [lo..<hi]"

definition client_flow :: "nat \<Rightarrow> nat \<Rightarrow> 'f put_state \<Rightarrow> bool" where
  "client_flow lo hi t \<longleftrightarrow> st.src.put_srel B W oack ra K lo hi t \<and> (\<exists>s a n. t = (PutData s a, n) \<and> faults n = [])"

definition server_flow :: "nat \<Rightarrow> 'g conn_state \<Rightarrow> bool" where
  "server_flow m t \<longleftrightarrow> (\<exists>w a n. t = (ConnWrq (WrqRun w a), n) \<and> st.dst.wrq_rel md B sa neg m w \<and> faults n = []
     \<and> answered oack sa n \<and> 0 < cf_retries (wr_cfg w))"

abbreviation again :: "'f put_state \<Rightarrow> bool" where "again t \<equiv> put_tries (fst t)"
abbreviation repeats :: "'g conn_state \<Rightarrow> bool" where "repeats t \<equiv> conn_tries (fst t)"

lemma B_fits: "length B + 1 + W \<le> 65536" "length B < 65536"
  using net.B_props(3,4) [OF net.fits] .

lemma client_flow_data:
  assumes "client_flow lo hi t"
  shows "\<exists>s a n. t = (PutData s a, n) \<and> faults n = [] \<and> st.src.put_rel B W lo hi s
    \<and> pt_peer s = ra \<and> pt_in_flight s = flight_of B lo hi
    \<and> in_transit ra (flight_of B lo hi) (ng_windowsize (pt_neg s)) n"
  using assms by (auto simp: client_flow_def st.src.put_srel_def st.src.put_rel_def)

lemma client_flow_bound: "client_flow lo hi t \<Longrightarrow> 1 \<le> lo \<and> lo < hi \<and> hi \<le> length B + 1"
  using client_flow_data [of lo hi t] st.src.put_rel_bound in_transit_flight by blast

lemma next_window_flow:
  assumes "put_next_window rd s n = Running (PutData s' 0, n')" "st.src.put_post B W oack ra K lo hi n (put_next_window rd s n)"
    and "faults n = []" "faults n' = []"
  shows "client_flow lo hi (PutData s' 0, n') \<and> sent (PutData s' 0, n') = outbox n @ blocks lo hi"
proof -
  have flow: "client_flow lo hi (PutData s' 0, n')"
    using assms(1,2,4) by (simp add: st.src.put_post_def client_flow_def)
  with client_flow_data [OF flow] put_next_window_sends [OF assms(1,3)] show ?thesis
    by (auto simp: window_datagrams)
qed

lemma client_flow_again:
  assumes "client_flow lo hi t" "again t"
  shows "\<exists>t'. put_event rd RxTimeout t = Running t' \<and> client_flow lo hi t' \<and> sent t' = sent t @ blocks lo hi"
proof -
  obtain s a n where t: "t = (PutData s a, n)" "faults n = []" and rel: "st.src.put_rel B W lo hi s"
    and s: "pt_peer s = ra" "pt_in_flight s = flight_of B lo hi"
    and tr: "in_transit ra (flight_of B lo hi) (ng_windowsize (pt_neg s)) n"
    using client_flow_data [OF assms(1)] by blast
  let ?n = "arm (ng_timeout (pt_neg s)) (n\<lparr>outbox := outbox n @ blocks lo hi\<rparr>)"
  have ev: "put_event rd RxTimeout t = Running (PutData s (a + 1), ?n)"
    using t assms(2) s by (simp add: put_data_event_def recv_one_def put_send_running window_datagrams not_le)
  have "in_transit ra (flight_of B lo hi) (ng_windowsize (pt_neg s)) ?n"
    using tr by (auto simp: in_transit_def)
  with rel s t(2) have "client_flow lo hi (PutData s (a + 1), ?n)"
    by (simp add: client_flow_def st.src.put_srel_def)
  with ev t(1) show ?thesis by simp
qed

lemma client_flow_ack:
  assumes "client_flow lo hi t" "lo \<le> k" "k < hi"
  shows "if k + 1 = length B + 1 then \<exists>r t'. put_event rd (RxFrom ra (encode (Ack (of_nat k)))) t = Done (Inr r) t'
    else \<exists>hi' t'. put_event rd (RxFrom ra (encode (Ack (of_nat k)))) t = Running t' \<and> client_flow (k + 1) hi' t'
      \<and> sent t' = sent t @ blocks (k + 1) hi'"
proof -
  obtain s a n where t: "t = (PutData s a, n)" "faults n = []" and rel: "st.src.put_rel B W lo hi s"
    and s: "pt_peer s = ra" and len: "lo < hi" "hi - lo \<le> unat (ng_windowsize (pt_neg s))"
    using client_flow_data [OF assms(1)] in_transit_flight by blast
  obtain s' where s': "put_data_event rd (RxFrom ra (encode (Ack (of_nat k)))) s a n
      = (if k = length B then Done (Inr (of_nat (length (concat B)))) (PutData s' a, n) else put_next_window rd s' n)"
    "st.src.put_rel B W (k + 1) hi s'" "pt_peer s' = ra" "pt_neg s' = pt_neg s"
    using st.src.put_window_acked [OF rel assms(2,3) len(2), of a n] s by blast
  have ev: "put_event rd (RxFrom ra (encode (Ack (of_nat k)))) t
      = (if k = length B then Done (Inr (of_nat (length (concat B)))) (PutData s' a, n) else put_next_window rd s' n)"
    using s'(1) t(1) by simp
  show ?thesis
  proof (cases "k = length B")
    case True
    then show ?thesis unfolding ev by simp
  next
    case False
    then have k: "k + 1 \<le> length B" using st.src.put_rel_bound [OF rel] assms(3) by simp
    have w: "hi - (k + 1) \<le> unat (ng_windowsize (pt_neg s'))" using len(2) assms(2) s'(4) by simp
    obtain s2 n2 where run: "put_next_window rd s' n = Running (PutData s2 0, n2)" "faults n2 = []"
      using st.src.put_window_progress [OF s'(2) t(2) k refl] by blast
    obtain hi' where "st.src.put_post B W oack ra K (k + 1) hi' n (put_next_window rd s' n)"
      using st.src.put_next_window_post [OF s'(2,3) st.B_props(2) w] by blast
    from next_window_flow [OF run(1) this t(2) run(2)] False t(1) run(1) ev show ?thesis by simp blast
  qed
qed

lemma server_flow_less: "server_flow m t \<Longrightarrow> m + 1 < length B + 1"
  by (auto simp: server_flow_def st.dst.wrq_rel_def)

lemma server_flow_take:
  assumes "server_flow m t"
  shows "if m + 2 = length B + 1 then \<exists>r t'. conn_event sys (RxFrom sa (block (m + 1))) t = Done (Inr r) t'
      \<and> stored contents src t' \<and> sent t' = sent t @ [(sa, encode (Ack (of_nat (m + 1))))]
    else \<exists>t'. conn_event sys (RxFrom sa (block (m + 1))) t = Running t' \<and> server_flow (m + 1) t' \<and> repeats t'
      \<and> length (sent t) \<le> length (sent t')"
proof -
  obtain w a n where w: "t = (ConnWrq (WrqRun w a), n)" "st.dst.wrq_rel md B sa neg m w" "faults n = []" "answered oack sa n"
    and r: "0 < cf_retries (wr_cfg w)"
    using assms unfolding server_flow_def by blast
  have s: "wr_peer w = sa" "\<not> wr_finished w" using w(2) by (simp_all add: st.dst.wrq_rel_def)
  have ev: "conn_event sys (RxFrom sa (block (m + 1))) t
      = map_state (apfst ConnWrq) (wrq_in_order wr fl w (of_nat (m + 1)) (B ! m) n)"
    using st.server_takes_block [OF w(2), of a n] w(1) by simp
  show ?thesis
  proof (cases "m + 1 = length B")
    case True
    obtain t' where p: "wrq_in_order wr fl w (of_nat (m + 1)) (B ! m) n = Done (Inr ()) t'" "st.dst.wrq_holds src t'"
      using st.dst.wrq_final_block_progress [OF w(2) st.B_props(1) w(3) True w(4)] by blast
    have "stored contents src (apfst ConnWrq t')"
      using p(2) by (cases t'; cases "fst t'") (auto simp: st.dst.wrq_holds_def stored_def)
    moreover have "sent (apfst ConnWrq t') = sent t @ [(sa, encode (Ack (of_nat (m + 1))))]"
      using wrq_in_order_final [OF p(1) w(3) s(2)] s(1) w(1) by simp
    moreover have "m + 2 = length B + 1" using True by simp
    ultimately show ?thesis unfolding ev p(1) map_state.simps by (simp only: if_True simp_thms) blast
  next
    case False
    then have "m + 1 < length B" using server_flow_less [OF assms] by simp
    then obtain w' n' where p: "wrq_in_order wr fl w (of_nat (m + 1)) (B ! m) n = Running (WrqRun w' 0, n')"
      "st.dst.wrq_rel md B sa neg (m + 1) w'" "faults n' = []" "set (outbox n) \<subseteq> set (outbox n')"
      using st.dst.wrq_inner_block_progress [OF w(2) st.B_props(1) w(3)] by blast
    from wrq_in_order_running [OF p(1)] r have o: "0 < cf_retries (wr_cfg w')" "length (outbox n) \<le> length (outbox n')"
      by simp_all
    have "server_flow (m + 1) (ConnWrq (WrqRun w' 0), n')"
      unfolding server_flow_def using p(2-4) w(4) o(1) by (auto simp: answered_def)
    moreover have "m + 2 \<noteq> length B + 1" using False by simp
    ultimately show ?thesis unfolding ev p(1) using o w(1) by simp
  qed
qed

text \<open>An ACK sent without a new block: to a block that is there already, or at a timeout.\<close>

lemma server_repeats_ack:
  assumes "t = (ConnWrq (WrqRun w a), n)" "st.dst.wrq_rel md B sa neg m w" "faults n = []" "answered oack sa n"
    and "0 < cf_retries (wr_cfg w)" and "w' = w \<or> w' = w\<lparr>wr_blocks_in_window := 0\<rparr>"
  shows "\<exists>t'. map_state (apfst ConnWrq) (wrq_ack (wr_last_acked w) a' n w w') = Running t' \<and> server_flow m t'
    \<and> sent t' = sent t @ [(sa, encode (Ack (of_nat m)))]"
proof -
  have s: "wr_peer w = sa" "wr_last_acked w = of_nat m" "\<not> wr_finished w'"
    using assms(2,6) by (auto simp: st.dst.wrq_rel_def)
  let ?n = "arm (ng_timeout (wr_neg w')) (n\<lparr>outbox := outbox n @ [(sa, encode (Ack (of_nat m)))]\<rparr>)"
  have "wrq_ack (wr_last_acked w) a' n w w' = Running (WrqRun w' a', ?n)"
    using s assms(3) by (simp add: wrq_ack_def wrq_loop_def send_ack_def)
  moreover have "server_flow m (ConnWrq (WrqRun w' a'), ?n)"
    unfolding server_flow_def using assms(2-6) by (auto simp: st.dst.wrq_rel_def answered_def)
  ultimately show ?thesis using assms(1) by simp
qed

lemma server_flow_stale:
  assumes "server_flow m t" "1 \<le> k" "k \<le> m"
  shows "\<exists>t'. conn_event sys (RxFrom sa (block k)) t = Running t' \<and> server_flow m t'
    \<and> sent t' = sent t @ [(sa, encode (Ack (of_nat m)))]"
proof -
  obtain w a n where w: "t = (ConnWrq (WrqRun w a), n)" "st.dst.wrq_rel md B sa neg m w" "faults n = []" "answered oack sa n"
    "0 < cf_retries (wr_cfg w)" using assms(1) unfolding server_flow_def by blast
  have s: "wr_peer w = sa" "wr_next_block w = of_nat (m + 1)" "m < length B"
    using w(2) by (simp_all add: st.dst.wrq_rel_def)
  have "(of_nat k :: u16) \<noteq> of_nat (m + 1)"
    using assms(3) s(3) B_fits(2) of_nat_u16_eq_iff [of k "m + 1"] by simp
  moreover have "decode (rx_buffer (block k)) = Inr (Data (of_nat k) (B ! (k - 1)))"
    using st.block_read [of "k - 1"] assms(2,3) s(3) by simp
  ultimately have "conn_event sys (RxFrom sa (block k)) t
      = map_state (apfst ConnWrq) (wrq_ack (wr_last_acked w) 0 n w (w\<lparr>wr_blocks_in_window := 0\<rparr>))"
    using s w(1) st.wr_sys by (simp add: wrq_run_event_def recv_one_def wrq_data_def)
  with server_repeats_ack [OF w, of "w\<lparr>wr_blocks_in_window := 0\<rparr>" 0] show ?thesis by simp
qed

lemma server_flow_repeat:
  assumes "server_flow m t" "repeats t"
  shows "\<exists>t'. conn_event sys RxTimeout t = Running t' \<and> server_flow m t'
    \<and> sent t' = sent t @ [(sa, encode (Ack (of_nat m)))]"
proof -
  obtain w a n where w: "t = (ConnWrq (WrqRun w a), n)" "st.dst.wrq_rel md B sa neg m w" "faults n = []" "answered oack sa n"
    "0 < cf_retries (wr_cfg w)" using assms(1) unfolding server_flow_def by blast
  have "\<not> cf_retries (wr_cfg w) \<le> a" using assms(2) w(1) by (simp add: not_le)
  then have "conn_event sys RxTimeout t = map_state (apfst ConnWrq) (wrq_ack (wr_last_acked w) (a + 1) n w w)"
    using w(1) by (simp add: wrq_run_event_def recv_one_def)
  with server_repeats_ack [OF w, of w "a + 1"] show ?thesis by simp
qed

end

sublocale recovering_upload \<subseteq> rs: resumable "put_event rd" "conn_event sys" sent sent sa ra
  block "\<lambda>k. encode (Ack (of_nat k))" "length B + 1" client_flow server_flow again repeats "\<lambda>_. stored contents src"
  by unfold_locales
    (rule client_flow_bound client_flow_again client_flow_ack server_flow_take server_flow_stale server_flow_repeat, assumption+)+

context recovering_upload begin

lemma server_flow_waiting:
  assumes "net.ul_rrel M t" "faults (snd t) = []" "repeats t"
  shows "\<exists>m. M = m + 1 \<and> server_flow m t"
proof -
  obtain w a n m where "t = (ConnWrq (WrqRun w a), n)" "M = m + 1" "st.dst.wrq_rel md B sa neg m w" "answered oack sa n"
    using assms(1) by (cases t; cases "fst t") (auto simp: net.ul_rrel_def st.dst.wrq_srel_def)
  moreover from this assms(3) have "0 < cf_retries (wr_cfg w)" by (auto simp: word_gt_0)
  ultimately show ?thesis using assms(2) by (auto simp: server_flow_def)
qed

text \<open>
  The answer to the request was lost: the server's timeout sends ACK(0), whatever the answer was, and the client starts
  with the default parameters. At block size 512 that is harmless.
\<close>

lemma ack0_starts:
  assumes "st.src.put_srel B W oack ra K lo hi (PutRequest s a, n)" "faults n = []"
  shows "\<exists>hi' t. put_event rd (RxFrom ra (encode (Ack 0))) (PutRequest s a, n) = Running t
    \<and> client_flow 1 hi' t \<and> sent t = outbox n @ blocks 1 hi'"
proof -
  let ?ev = "RxFrom ra (encode (Ack 0))"
  have s: "lo = 1" "hi = 1" "pt_neg s = negotiated_defaults" "B = blocks_of K (put_stream remaining (pt_sender s))"
    "\<not> sn_eof (pt_sender s)" "\<not> sn_final_emitted (pt_sender s)" "handshake_safe oack K W"
    using assms(1) unfolding st.src.put_srel_def by simp_all
  have k: "0 < K" "unat (ng_blksize negotiated_defaults) = K" "unat (ng_windowsize negotiated_defaults) = 1"
    using s(7) by (auto simp: handshake_safe_def Let_def negotiated_defaults_def DEFAULT_BLOCK_SIZE_def DEFAULT_WINDOW_SIZE_def)
  have ev: "put_event rd ?ev (PutRequest s a, n) = put_begin rd s ra negotiated_defaults n"
    using s(3) by (simp add: put_request_event_def MAX_PACKET_SIZE_eq)
  obtain s' n' where run: "put_begin rd s ra negotiated_defaults n = Running (PutData s' 0, n')" "faults n' = []"
    using st.src.put_begin_progress [OF s(4-6) k(2,1) zero_less_one k(3) assms(2) refl, of ra] by blast
  have "receiver_promise oack 1 (encode (Ack 0))"
    using genuine_ack_ack [of 0 1] by (simp add: receiver_promise_def genuine_oack_packet)
  then have "put_env ra (PutRequest s a, n) ?ev \<or> (\<exists>d. ?ev = RxFrom ra d \<and> receiver_promise oack 1 d)" by blast
  from st.src.put_event_post [OF assms(1) _ B_fits(1) st.B_props(2) this] s(1,2)
  obtain lo' hi' where lo': "lo' \<le> 1" and post: "st.src.put_post B W oack ra K lo' hi' n (put_event rd ?ev (PutRequest s a, n))" by auto
  from next_window_flow [OF run(1) [unfolded put_begin_def] post [unfolded ev put_begin_def] assms(2) run(2)]
  have flow: "client_flow lo' hi' (PutData s' 0, n')" "sent (PutData s' 0, n') = outbox n @ blocks lo' hi'" by blast+
  from client_flow_bound [OF flow(1)] lo' have "lo' = 1" by simp
  with flow run(1) ev show ?thesis by (intro exI [of _ hi'] exI [of _ "(PutData s' 0, n')"]) simp
qed

lemma ul_resumes:
  assumes "net.ul_run S0 (P, Q)" "net.ul.sys_inv 1 1 h S0" "able put_tries P" "able conn_tries Q"
  shows "\<exists>P' i r t j. rs.go (all_lost sent sent P Q) (P', i, Done (Inr r) t, j) \<and> stored contents src t
    \<and> ((\<exists>x. Q = Running x) \<longrightarrow> (\<exists>u s. P' = Done (Inr u) s))"
proof (cases Q)
  case (Done q t)
  then obtain r where Q: "Q = Done (Inr r) t" using assms(4) by (cases q) simp_all
  with net.ul_received [OF _ assms(2)] assms(1) have "stored contents src t" by blast
  then show ?thesis unfolding all_lost_def Q by blast
next
  case (Panicked t)
  with assms(4) show ?thesis by simp
next
  case Q: (Running t)
  obtain lo M hi where inv: "net.ul.sys_inv lo M hi (P, Q)"
    using net.ul.sys_reach_inv [OF assms(1,2)] by blast
  note facts = inv [unfolded net.ul.sys_inv_def window_ok_def prod.case]
  then have rrel: "net.ul_rrel M t" and le: "lo \<le> M" "M \<le> hi" using Q by blast+
  have t: "faults (snd t) = []" "repeats t" using assms(4) Q by (cases t; simp)+
  obtain m where m: "M = m + 1" "server_flow m t" using server_flow_waiting [OF rrel t] by blast
  have "\<exists>u s i q t' j. rs.go (all_lost sent sent P Q) (Done (Inr u) s, i, Done (Inr q) t', j) \<and> stored contents src t'"
  proof (cases P)
    case (Done r s)
    then obtain u where "P = Done (Inr u) s" using assms(3) by (cases r) simp_all
    with net.ul_delivered assms(1,2) Q show ?thesis by blast
  next
    case (Panicked s)
    with assms(3) show ?thesis by simp
  next
    case (Running s)
    have srel: "st.src.put_srel B W oack ra K lo hi s" using facts Running by blast
    obtain task n where s: "s = (task, n)" "faults n = []" using assms(3) Running by (cases s) simp
    have run: "rs.go (all_lost sent sent P Q) (Running s, length (sent s), Running t, length (sent t))"
      by (simp add: all_lost_def Running Q)
    show ?thesis
    proof (cases task)
      case (PutData s' a)
      then have "client_flow lo hi s" using srel s by (simp add: client_flow_def)
      from rs.resume [OF run this _ m(2)] le m server_flow_less [OF m(2)] assms(3) Running s show ?thesis by simp
    next
      case (PutRequest s' a)
      have "lo = 1 \<and> hi = 1" using srel s PutRequest by (simp add: st.src.put_srel_def)
      then have "m = 0" using m(1) le by simp
      with server_flow_repeat [OF m(2) t(2)] obtain t' where t': "conn_event sys RxTimeout t = Running t'" "server_flow 0 t'"
        "sent t' = sent t @ [(sa, encode (Ack 0))]" by auto
      obtain hi' x where x: "put_event rd (RxFrom ra (encode (Ack 0))) s = Running x" "client_flow 1 hi' x"
        "sent x = sent s @ blocks 1 hi'" using ack0_starts [of lo hi s' a n] srel s PutRequest by auto
      note arrives = fresh_deliver_sender [OF fresh_receiver_timeout [OF run t'(1)], of "sent t" "encode (Ack 0)" "[]",
          unfolded state_of.simps, OF t'(3) order_refl x(1)]
      have "rs.flying (length (sent s)) 1 hi' x" using x(3) unfolding rs.flying_def by blast
      with rs.rounds [OF arrives, of 0] x(2) t'(2,3) show ?thesis by simp
    next
      case PutClosed
      with srel s show ?thesis by (simp add: st.src.put_srel_def)
    qed
  qed
  then obtain u s i q t' j where "rs.go (all_lost sent sent P Q) (Done (Inr u) s, i, Done (Inr q) t', j)"
    "stored contents src t'" by blast
  then show ?thesis by (intro exI conjI impI) (assumption | rule refl)+
qed

end

subsection \<open>From the start of a transfer\<close>

lemma download_recovers:
  assumes "total_source (os_read sys) remaining" "total_sink wr fl contents"
    and "cstr_ok remote" "client_options_ok opts"
    and "resolve (cf_root cfg) remote = Inr path" "os_open sys path = Inr f" "os_len sys f = Inr len"
    and "negotiate cfg (build_request_options opts None) (Some len) = Some (oack, neg)"
    and "transfer_fits (op_mode opts) neg (remaining f)" "sink_contents contents k = []"
    and "sys_reach (conn_event sys) (get_event wr fl) sent sent sa ra (\<lambda>_. not_from ra) (get_env sa)
      (download_start sys cfg ra bnd opts server remote k fs fs') (P, Q)"
    and "able conn_tries P" "able get_tries Q"
  shows "\<exists>P' i r t j. (fresh_step (conn_event sys) (get_event wr fl) sent sent sa ra)\<^sup>*\<^sup>*
      (all_lost sent sent P Q) (P', i, Done (Inr r) t, j) \<and> got contents (remaining f) r t
    \<and> ((\<exists>x. Q = Running x) \<longrightarrow> (\<exists>u s. P' = Done (Inr u) s))"
proof -
  note source = assms(1) [unfolded total_source_def, THEN conjunct1]
  note sink = assms(2) [unfolded total_sink_def, THEN conjunct1]
  note ok = build_request_options_ok [OF assms(4)]
  note dl = downloadI [OF source sink assms(8) ok assms(9)]
  have rec: "recovering_download (os_read sys) remaining wr fl contents (op_mode opts) (remaining f) oack neg sys"
    using steadyI [OF assms(1,2,8) ok] dl by (simp add: recovering_download_def)
  note start = download.dl_start_inv [OF dl assms(5,6) refl assms(7,8) outbox_net_new
      decode_request_packet(1) [OF assms(3,4)] assms(10) outbox_net_new refl]
  from recovering_download.dl_resumes [OF rec assms(11) [unfolded download_start_def] start assms(12,13)]
  show ?thesis by (simp only: got_result [OF sink])
qed

lemma upload_recovers:
  assumes "total_source rd remaining" "total_sink (os_write sys) (os_flush sys) contents"
    and "cstr_ok remote" "client_options_ok opts" "resolve (cf_root cfg) remote = Inr path"
    and "os_create sys (if \<not> cf_allow_overwrite cfg then CreateNew else Truncate) path = Inr f" "contents f = []"
    and "negotiate cfg (build_request_options opts sz) None = Some (oack, neg)"
    and "transfer_fits (op_mode opts) neg (source_remaining remaining s0)" "ng_blksize neg = 512"
    and "sys_reach (put_event rd) (conn_event sys) sent sent sa ra (put_env ra) (\<lambda>_. not_from sa)
      (upload_start sys cfg sa bnd opts server remote s0 sz fs fs') (P, Q)"
    and "able put_tries P" "able conn_tries Q"
  shows "\<exists>P' i r t j. (fresh_step (put_event rd) (conn_event sys) sent sent sa ra)\<^sup>*\<^sup>*
      (all_lost sent sent P Q) (P', i, Done (Inr r) t, j) \<and> stored contents (source_remaining remaining s0) t
    \<and> ((\<exists>x. Q = Running x) \<longrightarrow> (\<exists>u s. P' = Done (Inr u) s))"
proof -
  note source = assms(1) [unfolded total_source_def, THEN conjunct1]
  note sink = assms(2) [unfolded total_sink_def, THEN conjunct1]
  note ok = build_request_options_ok [OF assms(4)]
  note ul = uploadI [OF source sink assms(8) ok assms(9)]
  have rec: "recovering_upload rd remaining (os_write sys) (os_flush sys) contents (op_mode opts)
      (source_remaining remaining s0) oack neg sys"
    using steady_uploadI [OF assms(1,2,8) ok] ul by (simp add: recovering_upload_def)
  have "unat (ng_blksize neg) = 512" using assms(10) by simp
  note start = upload.ul_start_inv [OF ul assms(5-8) outbox_net_new
      decode_request_packet(2) [OF assms(3,4)] refl outbox_net_new this refl]
  from recovering_upload.ul_resumes [OF rec assms(11) [unfolded upload_start_def] start assms(12,13)]
  show ?thesis .
qed

end
