(* ===== verification/Availability.thy ===== *)
theory Availability
  imports Deployment Recovery
begin

text \<open>
  The deployed server stays available to its client: from any reachable world in which the client
  has not returned, with everything lost that its tasks and the client have sent so far, its download can still be
  completed, by the task it has a transfer with or, before it has one, by a new task for its repeated request.
\<close>

subsection \<open>The world without memory\<close>

text \<open>
  As \<open>fresh_step\<close> for one pair: of the datagrams of task \<open>k\<close> the first \<open>i k\<close> are gone, of those of the
  client the first \<open>j\<close>. The listener gets what the client sends to the server's address, and from nobody else anything arrives.
\<close>

type_synonym ('f, 'g) fresh_world = "'f running \<times> (nat \<Rightarrow> nat) \<times> ('g get_state, u64) progress \<times> nat"

inductive fresh_world_step ::
  "'f os \<Rightarrow> server \<Rightarrow> 'g writer \<Rightarrow> 'g flusher \<Rightarrow> (nat \<Rightarrow> sockaddr) \<Rightarrow> sockaddr \<Rightarrow> sockaddr \<Rightarrow>
   ('f, 'g) fresh_world \<Rightarrow> ('f, 'g) fresh_world \<Rightarrow> bool"
  for sys sv wr fl addr server ra
where
  task_to_client: "k < length (tasks R) \<Longrightarrow> i k \<le> l \<Longrightarrow> l < length (sent (state_of (tasks R ! k))) \<Longrightarrow>
    sent (state_of (tasks R ! k)) ! l = (ra, d) \<Longrightarrow>
    fresh_world_step sys sv wr fl addr server ra (R, i, Running t, j)
      (R, i(k := Suc l), get_event wr fl (RxFrom (addr k) d) t, j)"
| client_to_task: "j \<le> l \<Longrightarrow> l < length (sent (state_of Q)) \<Longrightarrow> sent (state_of Q) ! l = (addr k, d) \<Longrightarrow>
    fresh_world_step sys sv wr fl addr server ra (R, i, Q, j) (run_step sys sv (TaskEvent k (RxFrom ra d)) R, i, Q, Suc l)"
| client_to_listener: "j \<le> l \<Longrightarrow> l < length (sent (state_of Q)) \<Longrightarrow> sent (state_of Q) ! l = (server, d) \<Longrightarrow>
    fresh_world_step sys sv wr fl addr server ra (R, i, Q, j) (run_step sys sv (Incoming ra d []) R, i, Q, Suc l)"
| task_times_out: "fresh_world_step sys sv wr fl addr server ra (R, i, Q, j) (run_step sys sv (TaskEvent k RxTimeout) R, i, Q, j)"
| client_times_out: "fresh_world_step sys sv wr fl addr server ra (R, i, Running t, j) (R, i, get_event wr fl RxTimeout t, j)"

definition world_lost :: "'f running \<Rightarrow> ('g get_state, u64) progress \<Rightarrow> ('f, 'g) fresh_world" where
  "world_lost R Q = (R, \<lambda>k. if k < length (tasks R) then length (sent (state_of (tasks R ! k))) else 0, Q, length (sent (state_of Q)))"

text \<open>Each of its steps is one of the world that the safety theorems speak of.\<close>

lemma fresh_world_is_world:
  assumes "fresh_world_step sys sv wr fl addr server ra (R, i, Q, j) (R', i', Q', j')" "inj_on addr {..<length (tasks R)}"
  shows "world_step sys sv wr fl addr server ra (R, Q) (R', Q')"
  using assms(1)
proof (cases rule: fresh_world_step.cases)
  case (task_to_client k l d t)
  have "\<forall>m < length (tasks R). addr k = addr m \<longrightarrow> m = k"
    using assms(2) task_to_client(6) by (auto dest: inj_onD)
  moreover have "(ra, d) \<in> set (sent (state_of (tasks R ! k)))"
    using task_to_client(8,9) by (metis nth_mem)
  ultimately have "client_sees addr ra (tasks R) t (RxFrom (addr k) d)"
    using task_to_client(6) by (cases t; cases "fst t") (auto simp: sent_by_def)
  with task_to_client(1-5) show ?thesis by (auto intro: client_event)
next
  case (client_to_task l k d)
  then have "(addr k, d) \<in> set (sent (state_of Q))" by (metis nth_mem)
  with client_to_task(1-4) show ?thesis by (auto intro: server_event)
next
  case (client_to_listener l d)
  then have "(server, d) \<in> set (sent (state_of Q))" by (metis nth_mem)
  with client_to_listener(1-4) show ?thesis by (auto intro: server_event)
next
  case (task_times_out k)
  then show ?thesis by (auto intro: server_event)
next
  case (client_times_out t)
  have "client_sees addr ra (tasks R) t RxTimeout" by (cases t; cases "fst t") simp_all
  with client_times_out show ?thesis by (auto intro: client_event)
qed

subsection \<open>A run of the pair in the world\<close>

lemma pair_step_in_world:
  assumes "fresh_step (conn_event sys) (get_event wr fl) sent sent (addr k) ra (tasks R ! k, a, Q, b) (P', a', Q', b')"
    and "k < length (tasks R)" "i k \<le> a" "j \<le> b"
  shows "\<exists>R' i' j'. fresh_world_step sys sv wr fl addr server ra (R, i, Q, j) (R', i', Q', j') \<and> tasks R' ! k = P'
    \<and> length (tasks R') = length (tasks R) \<and> i' k \<le> a' \<and> j' \<le> b'"
  using assms(1)
proof (cases rule: fresh_step.cases)
  case (fresh_to_receiver l d t)
  have "fresh_world_step sys sv wr fl addr server ra (R, i, Running t, j)
      (R, i(k := Suc l), get_event wr fl (RxFrom (addr k) d) t, j)"
    using fresh_to_receiver assms(2,3) by (intro task_to_client) simp_all
  with fresh_to_receiver assms(4) show ?thesis by (intro exI conjI) (assumption | simp)+
next
  case (fresh_to_sender l d s)
  let ?R = "run_step sys sv (TaskEvent k (RxFrom ra d)) R"
  have "fresh_world_step sys sv wr fl addr server ra (R, i, Q, j) (?R, i, Q, Suc l)"
    using fresh_to_sender assms(4) by (intro client_to_task) simp_all
  moreover have "tasks ?R ! k = P'" "length (tasks ?R) = length (tasks R)"
    using fresh_to_sender assms(2) by (simp_all add: run_step_def)
  ultimately show ?thesis using fresh_to_sender assms(3) by (intro exI conjI) (assumption | simp)+
next
  case (sender_times_out s)
  let ?R = "run_step sys sv (TaskEvent k RxTimeout) R"
  have "fresh_world_step sys sv wr fl addr server ra (R, i, Q, j) (?R, i, Q, j)" by (rule task_times_out)
  moreover have "tasks ?R ! k = P'" "length (tasks ?R) = length (tasks R)"
    using sender_times_out assms(2) by (simp_all add: run_step_def)
  ultimately show ?thesis using sender_times_out assms(3,4) by (intro exI conjI) (assumption | simp)+
next
  case (receiver_times_out t)
  have "fresh_world_step sys sv wr fl addr server ra (R, i, Running t, j) (R, i, get_event wr fl RxTimeout t, j)"
    by (rule client_times_out)
  with receiver_times_out assms(3,4) show ?thesis by (intro exI conjI) (assumption | simp)+
qed

lemma pair_run_in_world:
  assumes "(fresh_step (conn_event sys) (get_event wr fl) sent sent (addr k) ra)\<^sup>*\<^sup>* (tasks R ! k, a, Q, b) (P', a', Q', b')"
    and "k < length (tasks R)" "i k \<le> a" "j \<le> b"
  shows "\<exists>R' i' j'. (fresh_world_step sys sv wr fl addr server ra)\<^sup>*\<^sup>* (R, i, Q, j) (R', i', Q', j') \<and> tasks R' ! k = P'
    \<and> length (tasks R') = length (tasks R) \<and> i' k \<le> a' \<and> j' \<le> b'"
  using assms(1)
proof (induction "(P', a', Q', b')" arbitrary: P' a' Q' b' rule: rtranclp_induct)
  case base
  then show ?case using assms(3,4) by auto
next
  case (step S)
  obtain P1 a1 Q1 b1 where S: "S = (P1, a1, Q1, b1)" by (cases S)
  obtain R1 i1 j1 where w: "(fresh_world_step sys sv wr fl addr server ra)\<^sup>*\<^sup>* (R, i, Q, j) (R1, i1, Q1, j1)" "tasks R1 ! k = P1"
    "length (tasks R1) = length (tasks R)" "i1 k \<le> a1" "j1 \<le> b1" using step(3) [OF S] by blast
  obtain R2 i2 j2 where "fresh_world_step sys sv wr fl addr server ra (R1, i1, Q1, j1) (R2, i2, Q', j2)" "tasks R2 ! k = P'"
    "length (tasks R2) = length (tasks R1)" "i2 k \<le> a'" "j2 \<le> b'"
    using pair_step_in_world [where i = i1 and k = k and addr = addr and R = R1, OF step(2) [unfolded S w(2) [symmetric]], of j1 sv server]
      w(3-5) assms(2) by auto
  with w(1,3) show ?case by (auto intro: rtranclp.rtrancl_into_rtrancl)
qed

subsection \<open>Where the client's transfer is\<close>

context deployment begin

text \<open>Before it has a peer, the client can be served by a new task; afterwards it has one.\<close>

lemma world_client_running:
  assumes "world_run (R, Running (task, n))" "inj_on addr {..<length (tasks R)}"
  shows "(\<exists>g a. task = GetRequest g a \<and> gt_server g = server \<and> gt_request g = request \<and> alone (Running (task, n)))
    \<or> (\<exists>g a i. task = GetData g a \<and> i < length (tasks R) \<and> gt_peer g = addr i \<and> linked i (tasks R ! i) (Running (task, n)))"
proof -
  have "handshaking (R, Running (task, n)) \<or> (\<exists>i. settled i (R, Running (task, n)))"
    using world_phases [OF assms(1)] assms(2) by (simp add: given_up_def)
  then show ?thesis
  proof (elim disjE exE)
    assume h: "handshaking (R, Running (task, n))"
    then obtain g a where "task = GetRequest g a" by (auto simp: handshaking_def)
    with h show ?thesis by (auto simp: handshaking_def get_addressed_def)
  next
    fix i assume "settled i (R, Running (task, n))"
    then show ?thesis by (cases task) (auto simp: settled_def all_tasks_def)
  qed
qed

end

subsection \<open>A new task starts well\<close>

lemma rrq_next_window_cfg: "rrq_next_window rd s n = Running (RrqData s' a, n') \<Longrightarrow> rs_cfg s' = rs_cfg s"
  using fill_window_frame [of rd s]
  by (auto simp: rrq_next_window_def rrq_send_def split: prod.splits sum.splits if_splits)

lemma download_task_starts:
  assumes "total_source (os_read sys) remaining" "total_sink wr fl contents"
    and "cstr_ok remote" "client_options_ok opts"
    and "resolve (cf_root cfg) remote = Inr path" "os_open sys path = Inr f" "os_len sys f = Inr len"
    and "negotiate cfg (build_request_options opts None) (Some len) = Some (oack, neg)"
    and "os_bind sys (bind_addr_for (cf_listen cfg)) = Inr a" "0 < cf_retries cfg"
  shows "able conn_tries (handle_initial sys cfg ra (encode (Rrq remote (op_mode opts) (build_request_options opts None))) (net_new []))"
proof -
  let ?s = "rrq_sender_new ra cfg neg f (op_mode opts)"
  note st = steadyI [OF assms(1,2,8) build_request_options_ok [OF assms(4)]]
  have P: "handle_initial sys cfg ra (encode (Rrq remote (op_mode opts) (build_request_options opts None))) (net_new [])
      = map_state (apfst ConnRrq) (if \<not> option_set_is_empty oack then rrq_send_oack ?s oack 0 (net_new [])
          else rrq_next_window (os_read sys) ?s (net_new []))"
    using decode_request_packet(1) [OF assms(3,4)] assms(5-9)
    by (simp add: handle_initial_def serve_rrq_def Let_def)
  have nf: "faults (net_new []) = []" by (simp add: net_new_def)
  show ?thesis
  proof (cases "option_set_is_empty oack")
    case True
    obtain s' n' where run: "rrq_next_window (os_read sys) ?s (net_new []) = Running (RrqData s' 0, n')" "faults n' = []"
      using steady.first_window_sent [OF st refl nf] by blast
    moreover have "rs_cfg s' = cfg" using rrq_next_window_cfg [OF run(1)] by (simp add: rrq_sender_new_def)
    ultimately show ?thesis using True P assms(10) by simp
  next
    case False
    with P nf assms(10) show ?thesis by (simp add: rrq_send_oack_def rrq_sender_new_def)
  qed
qed

context deployment begin

text \<open>A task that has a transfer with the client, after the loss of everything: the pair's run is one of the world.\<close>

lemma linked_completes:
  assumes "total_source (os_read sys) remaining" "total_sink wr fl contents"
    and "cstr_ok remote" "client_options_ok opts"
    and "resolve (cf_root (sv_cfg sv)) remote = Inr path" "os_open sys path = Inr f" "os_len sys f = Inr len"
    and "negotiate (sv_cfg sv) (build_request_options opts None) (Some len) = Some (oack, neg)"
    and "transfer_fits (op_mode opts) neg (remaining f)" "sink_contents contents k = []"
    and w: "w = receiver_new k (op_mode opts)" and n0: "n0 = net_new fs"
    and l: "linked l (tasks R ! l) Q" and ok: "l < length (tasks R)" "able conn_tries (tasks R ! l)" "able get_tries Q"
    and c: "i l \<le> length (sent (state_of (tasks R ! l)))" "j \<le> length (sent (state_of Q))"
  shows "\<exists>R' i' r t j'. (fresh_world_step sys sv wr fl addr server ra)\<^sup>*\<^sup>* (R, i, Q, j) (R', i', Done (Inr r) t, j')
    \<and> got contents (remaining f) r t"
proof -
  obtain fs' where run: "sys_reach (conn_event sys) (get_event wr fl) sent sent (addr l) ra (\<lambda>_. not_from ra) (get_env (addr l))
      (download_start sys (sv_cfg sv) ra bnd opts server remote k fs' fs) (tasks R ! l, Q)"
    using l [unfolded linked_def] unfolding download_start_def w n0 by blast
  obtain P' a r t b' where go: "(fresh_step (conn_event sys) (get_event wr fl) sent sent (addr l) ra)\<^sup>*\<^sup>*
      (all_lost sent sent (tasks R ! l) Q) (P', a, Done (Inr r) t, b')" and got: "got contents (remaining f) r t"
    using download_recovers [OF assms(1-10) run ok(2,3)] by blast
  from pair_run_in_world [where i = i and k = l and addr = addr and R = R, OF go [unfolded all_lost_def] ok(1) c, of sv server] got
  show ?thesis by blast
qed

text \<open>A client without an answer repeats its request at its deadline, and the listener starts a task for it.\<close>

lemma asks_again:
  assumes "world_run (R, Running (GetRequest g a, n))" "inj_on addr {..<length (tasks R)}"
    and "gt_server g = server" "gt_request g = request" "returned R = None" "a < op_retries (gt_opts g)" "faults n = []"
  defines "Q \<equiv> Running (GetRequest g (a + 1), arm (op_timeout (gt_opts g)) (n\<lparr>outbox := outbox n @ [(server, request)]\<rparr>))"
    and "R' \<equiv> run_step sys sv (Incoming ra request []) R"
    and "i \<equiv> \<lambda>m. if m < length (tasks R) then length (sent (state_of (tasks R ! m))) else 0"
  shows "(fresh_world_step sys sv wr fl addr server ra)\<^sup>*\<^sup>* (world_lost R (Running (GetRequest g a, n))) (R', i, Q, Suc (length (outbox n)))"
    and "tasks R' = tasks R @ [handle_initial sys (sv_cfg sv) ra request (net_new [])]"
    and "linked (length (tasks R)) (tasks R' ! length (tasks R)) Q"
proof -
  have again: "get_event wr fl RxTimeout (GetRequest g a, n) = Q"
    using assms(3,4,6,7) by (auto simp: Q_def get_request_event_def get_retry_def get_send_request_def)
  have "fresh_world_step sys sv wr fl addr server ra (world_lost R (Running (GetRequest g a, n))) (R, i, Q, length (outbox n))"
    unfolding world_lost_def again [symmetric] state_of.simps snd_conv i_def by (rule client_times_out)
  moreover have "fresh_world_step sys sv wr fl addr server ra (R, i, Q, length (outbox n)) (R', i, Q, Suc (length (outbox n)))"
    unfolding R'_def by (rule client_to_listener) (simp_all add: Q_def)
  ultimately show "(fresh_world_step sys sv wr fl addr server ra)\<^sup>*\<^sup>* (world_lost R (Running (GetRequest g a, n))) (R', i, Q, Suc (length (outbox n)))"
    by (meson converse_rtranclp_into_rtranclp rtranclp.rtrancl_refl)
  show R': "tasks R' = tasks R @ [handle_initial sys (sv_cfg sv) ra request (net_new [])]"
    using assms(5) request_fits by (simp add: R'_def run_step_def listen_step_def)
  have "client_sees addr ra (tasks R) (GetRequest g a, n) RxTimeout" by simp
  from world_client_running [OF world_to_client [OF assms(1) this again, unfolded Q_def] assms(2)]
  have "alone Q" by (auto simp: Q_def)
  moreover have "linked (length (tasks R)) (tasks R' ! length (tasks R)) Q0"
    using waiting_task_start by (simp add: R' waiting_task_def)
  ultimately show "linked (length (tasks R)) (tasks R' ! length (tasks R)) Q" using alone_linked by blast
qed

end

text \<open>
  What the next theorem asks of the server: the task that the client has a transfer with, if any, has not failed, its sends succeed,
  and it has a retransmission left; before there is one, the listener is up, the configuration allows a retransmission, and
  the client may repeat its request.
\<close>

definition transfer_alive :: "(nat \<Rightarrow> sockaddr) \<Rightarrow> server \<Rightarrow> 'f running \<Rightarrow> 'g get_task \<Rightarrow> bool" where
  "transfer_alive addr sv R task \<longleftrightarrow> (case task of
     GetData g _ \<Rightarrow> (\<forall>j < length (tasks R). gt_peer g = addr j \<longrightarrow> able conn_tries (tasks R ! j))
   | GetRequest g a \<Rightarrow> returned R = None \<and> 0 < cf_retries (sv_cfg sv) \<and> a < op_retries (gt_opts g)
   | GetClosed \<Rightarrow> True)"

subsection \<open>Properties\<close>

text \<open>C5: The deployed server leaves its client a way to the file, even when everything is lost. Take any world that the server, all its
  other clients and the downloading client can reach and in which the client still waits, and lose every datagram that
  the tasks and the client have sent so far. Then, on a network that delivers each datagram at most once and in order, the client's download can be
  completed: by the task it has a transfer with, after retransmissions at the deadlines, or, as long as it has no
  answer, by a new task for its repeated request, whatever became of the tasks before. At the loss: the client has a
  retransmission left and its sends succeed (\<open>able\<close>); the task it has a transfer with has not failed, has a
  retransmission left and its sends succeed, or, before there is one, the listener is up and the
  configuration allows a retransmission (\<open>transfer_alive\<close>). Further hypotheses as for a download that succeeds: the file fits the 16-bit block
  numbers, files do not fail, and the tasks' socket addresses differ from each other and from the listener's.\<close>

theorem deployed_never_stuck:
  assumes "total_source (os_read sys) remaining" "total_sink wr fl contents"
    and "cstr_ok remote" "client_options_ok opts"
    and "length (encode (Rrq remote (op_mode opts) (build_request_options opts None))) \<le> MAX_PACKET_SIZE"
    and "resolve (cf_root (sv_cfg sv)) remote = Inr path" "os_open sys path = Inr f" "os_len sys f = Inr len"
    and "negotiate (sv_cfg sv) (build_request_options opts None) (Some len) = Some (oack, neg)"
    and "transfer_fits (op_mode opts) neg (remaining f)" "sink_contents contents k = []"
    and "os_bind sys (bind_addr_for (cf_listen (sv_cfg sv))) = Inr b"
    and "\<forall>j. addr j \<noteq> server" "inj_on addr {..<length (tasks R)}"
    and "(world_step sys sv wr fl addr server ra)\<^sup>*\<^sup>*
      (run_start, do_get bnd opts server remote (receiver_new k (op_mode opts)) (net_new fs)) (R, Running (task, n))"
    and "transfer_alive addr sv R task" "able get_tries (Running (task, n) :: ('g get_state, u64) progress)"
  shows "\<exists>R' i r t j. (fresh_world_step sys sv wr fl addr server ra)\<^sup>*\<^sup>*
      (world_lost R (Running (task, n))) (R', i, Done (Inr r) t, j) \<and> got contents (remaining f) r t"
proof -
  note dep = deploymentI [OF assms(13,5)]
  note complete = deployment.linked_completes [OF dep assms(1-4,6-11) refl refl]
  from deployment.world_client_running [OF dep assms(15,14)] show ?thesis
  proof (elim disjE exE conjE)
    fix g a l
    assume task: "task = GetData g a" and l: "l < length (tasks R)" "gt_peer g = addr l"
      and link: "deployment.linked sys sv wr fl addr server ra bnd opts remote (receiver_new k (op_mode opts)) (net_new fs) l
        (tasks R ! l) (Running (task, n))"
    from assms(16) task l have "able conn_tries (tasks R ! l)" by (simp add: transfer_alive_def)
    from complete [OF link l(1) this assms(17)] l(1) show ?thesis by (simp add: world_lost_def)
  next
    fix g a
    assume task: "task = GetRequest g a" and g: "gt_server g = server"
      "gt_request g = encode (Rrq remote (op_mode opts) (build_request_options opts None))"
    have alive: "returned R = None" "0 < cf_retries (sv_cfg sv)" "a < op_retries (gt_opts g)" "faults n = []"
      using assms(16,17) task by (simp_all add: transfer_alive_def)
    note again = deployment.asks_again [OF dep assms(15) [unfolded task] assms(14) g alive(1,3,4)]
    from complete [OF again(3), of "\<lambda>m. if m < length (tasks R) then length (sent (state_of (tasks R ! m))) else 0" "Suc (length (outbox n))"]
    show ?thesis
      using download_task_starts [OF assms(1-4,6-9,12) alive(2), of ra] assms(17) rtranclp_trans [OF again(1)]
      unfolding task by (auto simp: again(2)) (meson)
  qed
qed

lemma mem_server_fields: "sv_cfg mem_server = root_cfg"
  by (simp add: mem_server_def)

text \<open>Somebody else's datagram has arrived first, and the client waits for its answer.\<close>

theorem deployed_never_stuck_witness:
  "\<exists>n R' i r t j. mem_world_run (run_step (mem_sys small) mem_server (Incoming (V4 9 9) [0] []) run_start, Running (GetRequest dl_getter 0, n))
    \<and> (fresh_world_step (mem_sys small) mem_server vec_write vec_flush task_addr server_addr client_addr)\<^sup>*\<^sup>*
        (world_lost (run_step (mem_sys small) mem_server (Incoming (V4 9 9) [0] []) run_start) (Running (GetRequest dl_getter 0, n)))
        (R', i, Done (Inr r) t, j)
    \<and> got (\<lambda>v. v) small r t"
proof -
  let ?R = "run_step (mem_sys small) mem_server (Incoming (V4 9 9) [0] []) run_start"
  obtain n where Q: "(do_get any_bind client_options_default server_addr [97]
      (receiver_new (SinkVec []) (op_mode client_options_default)) (net_new []) :: (bytes get_state, u64) progress)
      = Running (GetRequest dl_getter 0, n)"
    and f: "faults n = []" using dl_client_start by blast
  have run: "mem_world_run (?R, Running (GetRequest dl_getter 0, n))"
    unfolding Q by (rule world_to_server [OF rtranclp.rtrancl_refl _ refl]) (simp add: client_addr_def)
  have R: "length (tasks ?R) = 1" "returned ?R = None"
    by (simp_all add: run_step_def listen_step_def run_start_def)
  have inj: "inj_on task_addr {..<length (tasks ?R)}" by (auto simp: R(1) inj_on_def)
  have "transfer_alive task_addr mem_server ?R (GetRequest dl_getter 0)"
    by (simp add: transfer_alive_def R(2) mem_server_fields getter_new_def Let_def)
  moreover have "able get_tries (Running (GetRequest dl_getter 0, n) :: (bytes get_state, u64) progress)"
    using f by (simp add: getter_new_def Let_def)
  ultimately have "\<exists>R' i r t j. (fresh_world_step (mem_sys small) mem_server vec_write vec_flush task_addr server_addr client_addr)\<^sup>*\<^sup>*
        (world_lost ?R (Running (GetRequest dl_getter 0, n))) (R', i, Done (Inr r) t, j) \<and> got (\<lambda>v. v) small r t"
    using deployed_never_stuck [OF _ vec.total_sink_axioms _ _ get_request_fits _ _ _ _ _ _ _ _ inj run,
      where remaining = "\<lambda>v. v" and f = small and path = "[SEP, 97]" and oack = option_set_new
        and neg = negotiated_defaults and len = "of_nat (length small)" and b = "bind_addr_for (cf_listen root_cfg)"]
      small_facts by (simp add: vecr.total_source_axioms mem_server_fields)
  with run show ?thesis by blast
qed

end
