(* ===== verification/Refinement.thy ===== *)
theory Refinement
  imports End_To_End
begin

text \<open>
  Transfers refine the sliding window of \<open>Window_Spec\<close>: every run of the two tasks with the network
  between them is a run of the abstract window, and the states of the tasks show where it stands.
\<close>

text \<open>
  What the sending and the receiving task show of a window \<open>(lo, M, hi)\<close> over the blocks \<open>B\<close>.
\<close>

fun rrq_shows :: "bytes list \<Rightarrow> nat \<Rightarrow> nat \<Rightarrow> ('f conn_state, unit) progress \<Rightarrow> bool" where
  "rrq_shows B lo hi (Running (ConnRrq (RrqData s a), n)) \<longleftrightarrow>
     lo < hi \<and> rs_in_flight s = flight_of B lo hi \<and> rs_next_block s = of_nat hi"
| "rrq_shows B lo hi (Running (ConnRrq (RrqOack s oack a), n)) \<longleftrightarrow>
     lo = 0 \<and> hi = 1 \<and> rs_in_flight s = [] \<and> rs_next_block s = 1"
| "rrq_shows B lo hi (Running _) \<longleftrightarrow> False"
| "rrq_shows B lo hi (Done (Inr _) _) \<longleftrightarrow> lo = length B + 1"
| "rrq_shows B lo hi _ \<longleftrightarrow> True"

fun get_shows :: "('g \<Rightarrow> bytes) \<Rightarrow> mode \<Rightarrow> bytes list \<Rightarrow> nat \<Rightarrow> ('g get_state, u64) progress \<Rightarrow> bool" where
  "get_shows contents md B M (Running (GetRequest g a, n)) \<longleftrightarrow>
     M \<le> 1 \<and> gt_next_block g = 1 \<and> sink_contents contents (rc_sink (gt_writer g)) = []"
| "get_shows contents md B M (Running (GetData g a, n)) \<longleftrightarrow>
     1 \<le> M \<and> M \<le> length B \<and> gt_next_block g = of_nat M
     \<and> sink_contents contents (rc_sink (gt_writer g)) = snd (decode_chunk (decoder_for md) (concat (take (M - 1) B)))"
| "get_shows contents md B M (Running (GetClosed, n)) \<longleftrightarrow> False"
| "get_shows contents md B M (Done (Inr r) (GetData g a, n)) \<longleftrightarrow>
     M = length B + 1 \<and> sink_contents contents (rc_sink (gt_writer g)) = snd (decode_chunk (decoder_for md) (concat B))"
| "get_shows contents md B M (Done (Inr r) _) \<longleftrightarrow> False"
| "get_shows contents md B M (Done (Inl e) _) \<longleftrightarrow> True"
| "get_shows contents md B M (Panicked _) \<longleftrightarrow> False"

fun put_shows :: "bytes list \<Rightarrow> nat \<Rightarrow> nat \<Rightarrow> ('f put_state, u64) progress \<Rightarrow> bool" where
  "put_shows B lo hi (Running (PutRequest s a, n)) \<longleftrightarrow> lo = 1 \<and> hi = 1"
| "put_shows B lo hi (Running (PutData s a, n)) \<longleftrightarrow>
     lo < hi \<and> pt_in_flight s = flight_of B lo hi \<and> pt_next_block s = of_nat hi
     \<and> pt_total s = of_nat (length (concat (take (hi - 1) B)))"
| "put_shows B lo hi (Running (PutClosed, n)) \<longleftrightarrow> False"
| "put_shows B lo hi (Done (Inr _) _) \<longleftrightarrow> lo = length B + 1"
| "put_shows B lo hi _ \<longleftrightarrow> True"

fun wrq_shows :: "('g \<Rightarrow> bytes) \<Rightarrow> mode \<Rightarrow> bytes list \<Rightarrow> nat \<Rightarrow> ('g conn_state, unit) progress \<Rightarrow> bool" where
  "wrq_shows contents md B M (Running (ConnWrq (WrqRun w a), n)) \<longleftrightarrow>
     1 \<le> M \<and> M \<le> length B \<and> wr_next_block w = of_nat M
     \<and> contents (wr_file w) = snd (decode_chunk (decoder_for md) (concat (take (M - 1) B)))"
| "wrq_shows contents md B M (Running _) \<longleftrightarrow> False"
| "wrq_shows contents md B M (Done (Inr _) (ConnWrq (WrqRun w a), n)) \<longleftrightarrow>
     M = length B + 1 \<and> contents (wr_file w) = snd (decode_chunk (decoder_for md) (concat B))"
| "wrq_shows contents md B M (Done (Inr _) _) \<longleftrightarrow> False"
| "wrq_shows contents md B M (Done (Inl e) _) \<longleftrightarrow> True"
| "wrq_shows contents md B M (Panicked _) \<longleftrightarrow> False"

lemma sink_at_decoded: "sink_at md B m dec out \<Longrightarrow> out = snd (decode_chunk (decoder_for md) (concat (take m B)))"
  by (simp add: sink_at_def)

text \<open>What was ever put on the wire: only sent blocks, and only ACKs of accepted ones.\<close>

definition wire_shows ::
  "sockaddr \<Rightarrow> sockaddr \<Rightarrow> bytes list \<Rightarrow> nat \<Rightarrow> nat \<Rightarrow> (('s \<times> net, 'r) progress) \<times> (('t \<times> net, 'q) progress) \<Rightarrow> bool"
where
  "wire_shows sa ra B M hi S \<longleftrightarrow>
     (\<forall>d. (ra, d) \<in> set (sent (state_of (fst S))) \<longrightarrow> genuine_data B hi d)
     \<and> (\<forall>d. (sa, d) \<in> set (sent (state_of (snd S))) \<longrightarrow> genuine_ack M d)"

text \<open>The invariants of the tasks say this and more.\<close>

context download begin

lemma dl_srel_shows:
  assumes "dl_srel lo hi st"
  shows "rrq_shows B lo hi (Running st)"
proof -
  obtain t n where st: "st = (ConnRrq t, n)" and rel: "src.rrq_srel B oack ra neg lo hi (t, n)"
    using assms by (cases st) (auto simp: dl_srel_def)
  show ?thesis
  proof (cases t)
    case (RrqData s a)
    with rel have "src.rrq_rel B lo hi s" "in_transit ra (rs_in_flight s) (ng_windowsize neg) n"
      by (simp_all add: src.rrq_srel_def)
    then show ?thesis
      using st RrqData in_transit_flight [of ra B lo hi "ng_windowsize neg" n] by (simp add: src.rrq_rel_def)
  next
    case (RrqOack s o' a)
    with rel st show ?thesis
      by (simp add: src.rrq_srel_def src.rrq_rel_def flight_of_Nil del: flight_of_Nil_iff)
  next
    case RrqClosed
    with rel show ?thesis by (simp add: src.rrq_srel_def)
  qed
qed

lemma dl_rrel_shows:
  assumes "dst.get_srel md B oack sa neg M st"
  shows "get_shows contents md B M (Running st)"
proof -
  obtain t n where st: "st = (t, n)" by fastforce
  show ?thesis
  proof (cases t)
    case (GetRequest g a)
    with assms st show ?thesis
      by (auto simp: dst.get_srel_def dst.writer_at_def sink_at_def split: if_splits)
  next
    case (GetData g a)
    with assms st show ?thesis
      by (auto simp: dst.get_srel_def dst.get_rel_def dst.writer_at_def dest!: sink_at_decoded)
  next
    case GetClosed
    with assms st show ?thesis by (simp add: dst.get_srel_def)
  qed
qed

lemma dl_end_shows: "dl_end r st \<Longrightarrow> get_shows contents md B (length B + 1) (Done (Inr r) st)"
  using B_props(1) by (cases st; cases "fst st") (auto simp: dl_end_def dst.get_result_def carries_def)

lemma dl_inv_shows:
  assumes "dl.sys_inv lo M hi (P, Q)"
  shows "window_ok W (length B + 1) (lo, M, hi) \<and> rrq_shows B lo hi P \<and> get_shows contents md B M Q
    \<and> wire_shows sa ra B M hi (P, Q)"
proof -
  have inv: "window_ok W (length B + 1) (lo, M, hi)" "\<And>s. P = Running s \<Longrightarrow> dl_srel lo hi s"
    "\<And>r s. P = Done (Inr r) s \<Longrightarrow> lo = length B + 1" "\<And>t. Q = Running t \<Longrightarrow> dst.get_srel md B oack sa neg M t"
    "\<And>t. Q \<noteq> Panicked t" "\<And>r t. Q = Done (Inr r) t \<Longrightarrow> M = length B + 1 \<and> dl_end r t"
    using assms unfolding dl.sys_inv_def by auto
  have "rrq_shows B lo hi P"
  proof (cases P)
    case (Running s)
    with dl_srel_shows inv(2) show ?thesis by blast
  next
    case (Done r s)
    with inv(3) show ?thesis by (cases r) simp_all
  qed simp
  moreover have "get_shows contents md B M Q"
  proof (cases Q)
    case (Running t)
    with dl_rrel_shows inv(4) show ?thesis by blast
  next
    case (Done r t)
    with inv(6) dl_end_shows show ?thesis by (cases r) auto
  next
    case (Panicked t)
    with inv(5) show ?thesis by blast
  qed
  moreover have "wire_shows sa ra B M hi (P, Q)"
    using assms unfolding dl.sys_inv_def wire_shows_def sender_promise_def prod.case fst_conv snd_conv by blast
  ultimately show ?thesis using inv(1) by blast
qed

lemma dl_refines:
  assumes "dl_run S0 (P, Q)" "\<exists>hi \<ge> 1. dl.sys_inv start start hi S0"
  shows "\<exists>lo M hi. window_run W (length B + 1) (start, start, 1) (lo, M, hi) \<and> window_ok W (length B + 1) (lo, M, hi)
    \<and> rrq_shows B lo hi P \<and> get_shows contents md B M Q
    \<and> wire_shows sa ra B M hi (P, Q)"
proof -
  obtain h where h: "1 \<le> h" and inv: "dl.sys_inv start start h S0" using assms(2) by blast
  from dl.sys_reach_window [OF assms(1) inv] obtain lo M hi
    where run: "window_run W (length B + 1) (start, start, h) (lo, M, hi)" and inv': "dl.sys_inv lo M hi (P, Q)"
    by blast
  have "window_run W (length B + 1) (start, start, 1) (start, start, h)"
    using h dl.sys_inv_bounds [OF inv] by (intro window_fill) auto
  from this run have "window_run W (length B + 1) (start, start, 1) (lo, M, hi)" by (rule rtranclp_trans)
  with dl_inv_shows [OF inv'] show ?thesis by blast
qed

end

context upload begin

lemma ul_srel_shows:
  assumes "src.put_srel B W oack ra K lo hi st"
  shows "put_shows B lo hi (Running st)"
proof -
  obtain t n where st: "st = (t, n)" by fastforce
  show ?thesis
  proof (cases t)
    case (PutData s a)
    with assms st have "src.put_rel B W lo hi s" "in_transit ra (pt_in_flight s) (ng_windowsize (pt_neg s)) n"
      by (simp_all add: src.put_srel_def)
    then show ?thesis
      using st PutData in_transit_flight [of ra B lo hi "ng_windowsize (pt_neg s)" n] by (simp add: src.put_rel_def)
  qed (use assms st in \<open>simp_all add: src.put_srel_def\<close>)
qed

lemma ul_rrel_shows: "ul_rrel M st \<Longrightarrow> wrq_shows contents md B M (Running st)"
  by (cases st) (auto simp: ul_rrel_def dst.wrq_srel_def dst.wrq_rel_def sink_at_def)

lemma ul_end_shows: "ul_end st \<Longrightarrow> wrq_shows contents md B (length B + 1) (Done (Inr r) st)"
  using B_props(1) ul_end_stored [of st] by (auto simp: stored_def carries_def)

lemma ul_inv_shows:
  assumes "ul.sys_inv lo M hi (P, Q)"
  shows "window_ok W (length B + 1) (lo, M, hi) \<and> put_shows B lo hi P \<and> wrq_shows contents md B M Q
    \<and> wire_shows sa ra B M hi (P, Q)"
proof -
  have inv: "window_ok W (length B + 1) (lo, M, hi)" "\<And>s. P = Running s \<Longrightarrow> src.put_srel B W oack ra K lo hi s"
    "\<And>r s. P = Done (Inr r) s \<Longrightarrow> lo = length B + 1" "\<And>t. Q = Running t \<Longrightarrow> ul_rrel M t"
    "\<And>t. Q \<noteq> Panicked t" "\<And>r t. Q = Done (Inr r) t \<Longrightarrow> M = length B + 1 \<and> ul_end t"
    using assms unfolding ul.sys_inv_def by auto
  have "put_shows B lo hi P"
  proof (cases P)
    case (Running s)
    with ul_srel_shows inv(2) show ?thesis by blast
  next
    case (Done r s)
    with inv(3) show ?thesis by (cases r) simp_all
  qed simp
  moreover have "wrq_shows contents md B M Q"
  proof (cases Q)
    case (Running t)
    with ul_rrel_shows inv(4) show ?thesis by blast
  next
    case (Done r t)
    with inv(6) ul_end_shows show ?thesis by (cases r) auto
  next
    case (Panicked t)
    with inv(5) show ?thesis by blast
  qed
  moreover have "wire_shows sa ra B M hi (P, Q)"
    using assms unfolding ul.sys_inv_def wire_shows_def receiver_promise_def prod.case fst_conv snd_conv by blast
  ultimately show ?thesis using inv(1) by blast
qed

lemma ul_refines:
  assumes "ul_run S0 (P, Q)" "ul.sys_inv 1 1 1 S0"
  shows "\<exists>lo M hi. window_run W (length B + 1) (1, 1, 1) (lo, M, hi) \<and> window_ok W (length B + 1) (lo, M, hi)
    \<and> put_shows B lo hi P \<and> wrq_shows contents md B M Q
    \<and> wire_shows sa ra B M hi (P, Q)"
  using ul.sys_reach_window [OF assms] ul_inv_shows by blast

end

subsection \<open>From the start of a transfer\<close>

lemma download_window:
  assumes "byte_source (os_read sys) remaining" "byte_sink wr fl contents"
    and "cstr_ok remote" "client_options_ok opts"
    and "resolve (cf_root cfg) remote = Inr path" "os_open sys path = Inr f" "os_len sys f = Inr len"
    and "negotiate cfg (build_request_options opts None) (Some len) = Some (oack, neg)"
    and "transfer_fits (op_mode opts) neg (remaining f)" "sink_contents contents k = []"
    and "sys_reach (conn_event sys) (get_event wr fl) sent sent sa ra (\<lambda>_. not_from ra) (get_env sa)
      (download_start sys cfg ra bnd opts server remote k fs fs') (P, Q)"
  defines "B \<equiv> wire_blocks (op_mode opts) neg (remaining f)"
    and "W \<equiv> unat (ng_windowsize neg)" and "z \<equiv> if option_set_is_empty oack then 1 else 0"
  shows "\<exists>lo M hi. window_run W (length B + 1) (z, z, 1) (lo, M, hi) \<and> window_ok W (length B + 1) (lo, M, hi)
    \<and> rrq_shows B lo hi P \<and> get_shows contents (op_mode opts) B M Q \<and> wire_shows sa ra B M hi (P, Q)"
proof -
  note dl = downloadI [OF assms(1,2,8) build_request_options_ok [OF assms(4)] assms(9)]
  note start = download.dl_start_inv [OF dl assms(5,6) refl assms(7,8) outbox_net_new
      decode_request_packet(1) [OF assms(3,4)] assms(10) outbox_net_new refl]
  show ?thesis
    unfolding B_def W_def z_def using download.dl_refines [OF dl assms(11) [unfolded download_start_def] start] .
qed

lemma upload_window:
  assumes "byte_source rd remaining" "byte_sink (os_write sys) (os_flush sys) contents"
    and "cstr_ok remote" "client_options_ok opts" "resolve (cf_root cfg) remote = Inr path"
    and "os_create sys (if \<not> cf_allow_overwrite cfg then CreateNew else Truncate) path = Inr f" "contents f = []"
    and "negotiate cfg (build_request_options opts sz) None = Some (oack, neg)"
    and "transfer_fits (op_mode opts) neg (source_remaining remaining s0)" "ng_blksize neg = 512"
    and "sys_reach (put_event rd) (conn_event sys) sent sent sa ra (put_env ra) (\<lambda>_. not_from sa)
      (upload_start sys cfg sa bnd opts server remote s0 sz fs fs') (P, Q)"
  defines "B \<equiv> wire_blocks (op_mode opts) neg (source_remaining remaining s0)"
    and "W \<equiv> unat (ng_windowsize neg)"
  shows "\<exists>lo M hi. window_run W (length B + 1) (1, 1, 1) (lo, M, hi) \<and> window_ok W (length B + 1) (lo, M, hi)
    \<and> put_shows B lo hi P \<and> wrq_shows contents (op_mode opts) B M Q \<and> wire_shows sa ra B M hi (P, Q)"
proof -
  note ul = uploadI [OF assms(1,2,8) build_request_options_ok [OF assms(4)] assms(9)]
  have "unat (ng_blksize neg) = 512" using assms(10) by simp
  note start = upload.ul_start_inv [OF ul assms(5-8) outbox_net_new
      decode_request_packet(2) [OF assms(3,4)] refl outbox_net_new this refl]
  show ?thesis
    unfolding B_def W_def using upload.ul_refines [OF ul assms(11) [unfolded upload_start_def] start] .
qed

end
