(* ===== verification/Client_Deadlines.thy ===== *)
theory Client_Deadlines
  imports Client_Main
begin

text \<open>
  How long a client waits. \<open>Options::timeout\<close>, which the command line calls the per-packet timeout, is the
  deadline of the requests and of nothing else: a client sets it once for every request it sends, and from the moment it has an
  answer it waits for the timeout of \<open>Negotiated\<close>, which without options is the default of 5 seconds.
\<close>

subsection \<open>Counting requests\<close>

text \<open>How often the datagram \<open>r\<close> was sent.\<close>

definition asked :: "datagram \<Rightarrow> net \<Rightarrow> nat" where
  "asked r n = length (filter (\<lambda>x. x = r) (outbox n))"

lemma asked_arm [simp]: "asked r (arm d n) = asked r n" "asked r (net_new fs) = 0"
  by (simp_all add: asked_def arm_def net_new_def)





text \<open>A request is no ACK, no DATA and no ERROR.\<close>

lemma request_unlike [simp]:
  "encode (Ack b) \<noteq> encode (Rrq f m o')" "encode (ErrorPkt c t) \<noteq> encode (Rrq f m o')" "unknown_tid_packet \<noteq> encode (Rrq f m o')"
  "encode (Data b x) \<noteq> encode (Wrq f m o')" "encode (ErrorPkt c t) \<noteq> encode (Wrq f m o')" "unknown_tid_packet \<noteq> encode (Wrq f m o')"
  by (simp_all add: encode_simps unknown_tid_packet_def put_u16_def)


text \<open>
  The deadlines of a transfer: one \<open>d\<close> for every request \<open>r\<close>, then at least \<open>k\<close> times \<open>t\<close>.
\<close>

definition two_phases :: "datagram \<Rightarrow> duration \<Rightarrow> duration \<Rightarrow> nat \<Rightarrow> net \<Rightarrow> bool" where
  "two_phases r d t k n \<longleftrightarrow> (\<exists>m \<ge> k. deadlines n = replicate (asked r n) d @ replicate m t)"




lemma two_phases_cong: "deadlines n' = deadlines n \<Longrightarrow> asked r n' = asked r n \<Longrightarrow> two_phases r d t k n' = two_phases r d t k n"
  by (simp add: two_phases_def)

lemma default_timeout [simp]: "ng_timeout negotiated_defaults = from_secs 5"
  by (simp add: negotiated_defaults_def DEFAULT_TIMEOUT_SECS_def)


subsection \<open>Downloads\<close>

text \<open>
  Where a download is: it repeats its request, or it has an answer and the parameters \<open>gt_neg\<close>. A task that waits in the
  second phase has set at least one deadline of that phase.
\<close>

fun get_waits :: "client_options \<Rightarrow> datagram \<Rightarrow> ('f get_state, u64) progress \<Rightarrow> bool" where
  "get_waits opts r (Running (GetData s _, n)) \<longleftrightarrow> two_phases r (op_timeout opts) (ng_timeout (gt_neg s)) (Suc 0) n
     \<and> (option_set_is_empty (build_request_options opts None) \<longrightarrow> gt_neg s = negotiated_defaults)"
| "get_waits opts r (Done _ (GetData s _, n)) \<longleftrightarrow> two_phases r (op_timeout opts) (ng_timeout (gt_neg s)) 0 n
     \<and> (option_set_is_empty (build_request_options opts None) \<longrightarrow> gt_neg s = negotiated_defaults)"
| "get_waits opts r (Panicked _) \<longleftrightarrow> False"
| "get_waits opts r p \<longleftrightarrow> deadlines (snd (state_of p)) = replicate (asked r (snd (state_of p))) (op_timeout opts)"

text \<open>The same, with what a task that repeats its request knows.\<close>

definition get_timed :: "client_options \<Rightarrow> datagram \<Rightarrow> ('f get_state, u64) progress \<Rightarrow> bool" where
  "get_timed opts r p \<longleftrightarrow> get_waits opts r p \<and> (\<forall>s a n. p = Running (GetRequest s a, n) \<longrightarrow>
     gt_opts s = opts \<and> (gt_server s, gt_request s) = r \<and> gt_neg s = negotiated_defaults
     \<and> (gt_want_oack s \<longrightarrow> \<not> option_set_is_empty (build_request_options opts None)))"

lemma get_timed_simps [simp]:
  "get_timed opts r (Running (GetData s a, n)) \<longleftrightarrow> get_waits opts r (Running (GetData s a, n))"
  "get_timed opts r (Running (GetRequest s a, n)) \<longleftrightarrow> deadlines n = replicate (asked r n) (op_timeout opts)
     \<and> gt_opts s = opts \<and> (gt_server s, gt_request s) = r \<and> gt_neg s = negotiated_defaults
     \<and> (gt_want_oack s \<longrightarrow> \<not> option_set_is_empty (build_request_options opts None))"
  "get_timed opts r (Done q st) \<longleftrightarrow> get_waits opts r (Done q st)"
  by (auto simp: get_timed_def)

text \<open>The parameters a step of the second phase starts with, and the deadlines.\<close>

definition get_ready :: "client_options \<Rightarrow> datagram \<Rightarrow> 'f getter \<Rightarrow> nat \<Rightarrow> net \<Rightarrow> bool" where
  "get_ready opts r s k n \<longleftrightarrow> two_phases r (op_timeout opts) (ng_timeout (gt_neg s)) k n
     \<and> (option_set_is_empty (build_request_options opts None) \<longrightarrow> gt_neg s = negotiated_defaults)"

lemma get_waits_ready:
  "get_waits opts r (Running (GetData s a, n)) \<longleftrightarrow> get_ready opts r s (Suc 0) n"
  "get_waits opts r (Done q (GetData s a, n)) \<longleftrightarrow> get_ready opts r s 0 n"
  by (simp_all add: get_ready_def)

declare get_waits.simps(1,2) [simp del]
declare get_waits_ready [simp]





lemma get_ready_cong:
  "gt_neg s' = gt_neg s \<Longrightarrow> get_ready opts r s' k n = get_ready opts r s k n"
  by (simp add: get_ready_def)





subsection \<open>Uploads\<close>

fun put_waits :: "client_options \<Rightarrow> u64 option \<Rightarrow> datagram \<Rightarrow> ('f put_state, u64) progress \<Rightarrow> bool" where
  "put_waits opts sz r (Running (PutData s _, n)) \<longleftrightarrow> two_phases r (op_timeout opts) (ng_timeout (pt_neg s)) (Suc 0) n
     \<and> (option_set_is_empty (build_request_options opts sz) \<longrightarrow> pt_neg s = negotiated_defaults)"
| "put_waits opts sz r (Done _ (PutData s _, n)) \<longleftrightarrow> two_phases r (op_timeout opts) (ng_timeout (pt_neg s)) 0 n
     \<and> (option_set_is_empty (build_request_options opts sz) \<longrightarrow> pt_neg s = negotiated_defaults)"
| "put_waits opts sz r (Panicked _) \<longleftrightarrow> False"
| "put_waits opts sz r p \<longleftrightarrow> deadlines (snd (state_of p)) = replicate (asked r (snd (state_of p))) (op_timeout opts)"

definition put_timed :: "client_options \<Rightarrow> u64 option \<Rightarrow> datagram \<Rightarrow> ('f put_state, u64) progress \<Rightarrow> bool" where
  "put_timed opts sz r p \<longleftrightarrow> put_waits opts sz r p \<and> (\<forall>s a n. p = Running (PutRequest s a, n) \<longrightarrow>
     pt_opts s = opts \<and> (pt_server s, pt_request s) = r \<and> pt_neg s = negotiated_defaults
     \<and> (pt_want_oack s \<longrightarrow> \<not> option_set_is_empty (build_request_options opts sz)))"

definition put_ready :: "client_options \<Rightarrow> u64 option \<Rightarrow> datagram \<Rightarrow> negotiated \<Rightarrow> nat \<Rightarrow> net \<Rightarrow> bool" where
  "put_ready opts sz r neg k n \<longleftrightarrow> two_phases r (op_timeout opts) (ng_timeout neg) k n
     \<and> (option_set_is_empty (build_request_options opts sz) \<longrightarrow> neg = negotiated_defaults)"

lemma put_waits_ready:
  "put_waits opts sz r (Running (PutData s a, n)) \<longleftrightarrow> put_ready opts sz r (pt_neg s) (Suc 0) n"
  "put_waits opts sz r (Done q (PutData s a, n)) \<longleftrightarrow> put_ready opts sz r (pt_neg s) 0 n"
  by (simp_all add: put_ready_def)

declare put_waits.simps(1,2) [simp del]
declare put_waits_ready [simp]

lemma put_timed_simps [simp]:
  "put_timed opts sz r (Running (PutData s a, n)) \<longleftrightarrow> put_ready opts sz r (pt_neg s) (Suc 0) n"
  "put_timed opts sz r (Running (PutRequest s a, n)) \<longleftrightarrow> deadlines n = replicate (asked r n) (op_timeout opts)
     \<and> pt_opts s = opts \<and> (pt_server s, pt_request s) = r \<and> pt_neg s = negotiated_defaults
     \<and> (pt_want_oack s \<longrightarrow> \<not> option_set_is_empty (build_request_options opts sz))"
  "put_timed opts sz r (Done q st) \<longleftrightarrow> put_waits opts sz r (Done q st)"
  by (auto simp: put_timed_def)






subsection \<open>Properties\<close>



end
