(* ===== verification/Cli.thy ===== *)
theory Cli
  imports Client_Main Server_Main
begin

text \<open>
  The two programs (\<^verbatim>\<open>bin/aitftp.rs\<close>, \<^verbatim>\<open>bin/aitftpd.rs\<close>): how the parsed arguments become a
  client, a transfer and a server. Argument parsing (clap), logging and name resolution are
  libraries and not modelled; the host string handed to the resolver is, and so is what is done with
  the addresses it returns.
\<close>

subsection \<open>The client program\<close>

datatype cmd = CmdGet str "bytes option" | CmdPut str "bytes option"

datatype mode_arg = ArgOctet | ArgNetascii

fun mode_of_arg :: "mode_arg \<Rightarrow> mode" where
  "mode_of_arg ArgOctet = Octet"
| "mode_of_arg ArgNetascii = NetAscii"

record client_args =
  ca_server :: str
  ca_cmd :: cmd
  ca_mode :: mode_arg
  ca_blksize :: "u16 option"
  ca_tftp_timeout :: "u8 option"
  ca_windowsize :: "u16 option"
  ca_tsize :: bool
  ca_retries :: u32
  ca_timeout :: u8

text \<open>\<open>s.contains(':')\<close> and \<open>format!("{s}:69")\<close> of \<open>resolve_server\<close>.\<close>

definition COLON :: u8 where "COLON = 58"

definition with_port :: "str \<Rightarrow> str" where
  "with_port s = (if COLON \<in> set s then s else s @ ascii '':69'')"

text \<open>\<open>remote.rsplit('/').next()\<close>: what follows the last slash.\<close>

definition default_local_for :: "str \<Rightarrow> bytes" where
  "default_local_for remote = last (split_sep remote)"

definition client_of_args :: "client_args \<Rightarrow> sockaddr \<Rightarrow> client" where
  "client_of_args a server =
     (let want_tsize = (ca_tsize a \<or> (case ca_cmd a of CmdPut _ _ \<Rightarrow> True | CmdGet _ _ \<Rightarrow> False));
          b0 = cb_request_tsize want_tsize
                 (cb_timeout (from_secs (unat (ca_timeout a)))
                   (cb_retries (ca_retries a)
                     (cb_mode (mode_of_arg (ca_mode a)) client_builder_new)));
          b1 = (case ca_blksize a of Some n \<Rightarrow> cb_blksize n b0 | None \<Rightarrow> b0);
          b2 = (case ca_tftp_timeout a of Some n \<Rightarrow> cb_negotiate_timeout n b1 | None \<Rightarrow> b1);
          b3 = (case ca_windowsize a of Some n \<Rightarrow> cb_windowsize n b2 | None \<Rightarrow> b2)
      in cb_build server b3)"

definition local_of_cmd :: "cmd \<Rightarrow> bytes" where
  "local_of_cmd c =
     (case c of
        CmdGet remote local \<Rightarrow> (case local of Some p \<Rightarrow> p | None \<Rightarrow> default_local_for remote)
      | CmdPut remote local \<Rightarrow> (case local of Some p \<Rightarrow> p | None \<Rightarrow> default_local_for remote))"

text \<open>The first address the resolver yields; resolving is a parameter.\<close>

datatype main_error = Resolving io_error | NoAddresses str | Transfer error

definition resolve_server :: "(str \<Rightarrow> io_error + sockaddr list) \<Rightarrow> str \<Rightarrow> main_error + sockaddr" where
  "resolve_server resolver s =
     (case resolver (with_port s) of
        Inl e \<Rightarrow> Inl (Resolving e)
      | Inr [] \<Rightarrow> Inl (NoAddresses s)
      | Inr (addr # _) \<Rightarrow> Inr addr)"

datatype 'f client_run =
    MainFailed main_error
  | Getting "('f get_state, u64) progress"
  | Putting "('f put_state, u64) progress"

definition client_main ::
  "(str \<Rightarrow> io_error + sockaddr list) \<Rightarrow> (sockaddr \<Rightarrow> io_error + unit) \<Rightarrow> (bytes \<Rightarrow> io_error + 'f) \<Rightarrow>
   (bytes \<Rightarrow> io_error + 'f) \<Rightarrow> ('f \<Rightarrow> io_error + u64) \<Rightarrow> client_args \<Rightarrow> net \<Rightarrow> 'f client_run" where
  "client_main resolver bnd creat opn flen a n =
     (case resolve_server resolver (ca_server a) of
        Inl e \<Rightarrow> MainFailed e
      | Inr server \<Rightarrow>
          (let client = client_of_args a server; local = local_of_cmd (ca_cmd a) in
           case ca_cmd a of
             CmdGet remote _ \<Rightarrow>
               (case client_get bnd creat client remote local n of
                  Inl e \<Rightarrow> MainFailed (Transfer e) | Inr p \<Rightarrow> Getting p)
           | CmdPut remote _ \<Rightarrow>
               (case client_put bnd opn flen client remote local n of
                  Inl e \<Rightarrow> MainFailed (Transfer e) | Inr p \<Rightarrow> Putting p)))"

subsection \<open>The server program\<close>

record server_args =
  sa_listen :: sockaddr
  sa_root :: bytes
  sa_allow_overwrite :: bool
  sa_timeout :: u8
  sa_retries :: u32
  sa_max_block_size :: u16
  sa_no_windowsize :: bool

definition builder_of_args :: "server_args \<Rightarrow> server_builder" where
  "builder_of_args a =
     sb_allow_windowsize (\<not> sa_no_windowsize a)
       (sb_max_block_size (sa_max_block_size a)
         (sb_retries (sa_retries a)
           (sb_timeout (from_secs (unat (sa_timeout a)))
             (sb_allow_overwrite (sa_allow_overwrite a)
               (sb_root (sa_root a) (sb_listen (sa_listen a) server_builder_new))))))"

text \<open>Bind the server, then run it until Ctrl-C.\<close>

definition server_main :: "'f os \<Rightarrow> server_args \<Rightarrow> ('f os \<times> run_event) list \<Rightarrow> error + 'f running" where
  "server_main sys a evs =
     (case sb_bind sys (builder_of_args a) of
        Inl e \<Rightarrow> Inl e
      | Inr server \<Rightarrow> Inr (run_until server evs))"

subsection \<open>From the arguments to the wire\<close>

lemma client_of_args_fields:
  "cl_server (client_of_args a server) = server"
  "op_mode (cl_options (client_of_args a server)) = mode_of_arg (ca_mode a)"
  "op_blksize (cl_options (client_of_args a server)) = ca_blksize a"
  "op_timeout_secs (cl_options (client_of_args a server)) = ca_tftp_timeout a"
  "op_windowsize (cl_options (client_of_args a server)) = ca_windowsize a"
  "op_retries (cl_options (client_of_args a server)) = ca_retries a"
  "op_timeout (cl_options (client_of_args a server)) = from_secs (unat (ca_timeout a))"
  "op_request_tsize (cl_options (client_of_args a server)) \<longleftrightarrow>
     ca_tsize a \<or> (\<exists>r l. ca_cmd a = CmdPut r l)"
  by (auto simp: client_of_args_def cb_defs client_options_default_def Let_def split: option.splits cmd.splits)

lemma get_request_sent:
  assumes "bnd (bind_addr_for server) = Inr ()"
  shows "\<exists>t n. do_get bnd opts server remote w (net_new []) = Running (t, n)
    \<and> outbox n = [(server, encode (Rrq remote (op_mode opts) (build_request_options opts None)))]"
  using assms by (simp add: do_get_unfold get_send_request_def getter_new_def Let_def net_new_def)

lemma put_request_sent:
  assumes "bnd (bind_addr_for server) = Inr ()"
  shows "\<exists>t n. do_put bnd opts server remote g sz (net_new []) = Running (t, n)
    \<and> outbox n = [(server, encode (Wrq remote (op_mode opts) (build_request_options opts sz)))]"
  using assms by (simp add: do_put_unfold put_send_request_def putter_new_def Let_def net_new_def)

subsection \<open>Properties\<close>

text \<open>C35: What \<open>aitftp get\<close> puts on the wire: once the resolver has an address and the local file (by
  default named by what follows the last slash of the remote name) is created, exactly one datagram
  goes to the first address, an RRQ for the remote name in the chosen mode whose options are the command
  line's: block size, timeout and window when given, a transfer size of 0 with \<open>--tsize\<close>. No option is
  sent that was not asked for.\<close>

theorem get_on_the_wire:
  assumes "resolver (with_port (ca_server a)) = Inr (addr # rest)" "bnd (bind_addr_for addr) = Inr ()"
    and "ca_cmd a = CmdGet remote local"
    and "creat (case local of Some p \<Rightarrow> p | None \<Rightarrow> last (split_sep remote)) = Inr f"
  shows "\<exists>t n opts. client_main resolver bnd creat opn flen a (net_new []) = Getting (Running (t, n))
    \<and> outbox n = [(addr, encode (Rrq remote (mode_of_arg (ca_mode a)) opts))]
    \<and> block_size opts = ca_blksize a \<and> timeout_opt opts = ca_tftp_timeout a
    \<and> window_size opts = ca_windowsize a \<and> transfer_size opts = (if ca_tsize a then Some 0 else None)"
proof -
  let ?o = "cl_options (client_of_args a addr)"
  obtain w where w: "receiver_new_file creat (local_of_cmd (ca_cmd a)) (op_mode ?o) = Inr w"
    using assms(3,4) by (simp add: receiver_new_file_def local_of_cmd_def default_local_for_def)
  obtain t n where run: "do_get bnd ?o addr remote w (net_new []) = Running (t, n)"
    "outbox n = [(addr, encode (Rrq remote (op_mode ?o) (build_request_options ?o None)))]"
    using get_request_sent [of bnd addr, OF assms(2)] by blast
  have "client_main resolver bnd creat opn flen a (net_new []) = Getting (Running (t, n))"
    using assms(1,3) w run(1)
    by (simp add: client_main_def resolve_server_def client_get_def client_of_args_fields Let_def)
  with run(2) assms(3) build_request_options_fields [of ?o None] show ?thesis
    by (intro exI conjI) (auto simp: client_of_args_fields)
qed

abbreviation sample_args :: "cmd \<Rightarrow> client_args" where
  "sample_args c \<equiv> \<lparr>ca_server = [104], ca_cmd = c, ca_mode = ArgOctet, ca_blksize = Some 1428,
     ca_tftp_timeout = None, ca_windowsize = Some 4, ca_tsize = False, ca_retries = 5, ca_timeout = 5\<rparr>"

theorem get_on_the_wire_witness:
  "\<exists>t n opts. client_main (\<lambda>_. Inr [V4 1 69]) (\<lambda>_. Inr ()) Inr Inr (\<lambda>_. Inr 3) (sample_args (CmdGet [97, 47, 98] None)) (net_new [])
      = Getting (Running (t, n))
    \<and> outbox n = [(V4 1 69, encode (Rrq [97, 47, 98] Octet opts))] \<and> block_size opts = Some 1428"
  using get_on_the_wire [of "\<lambda>_. Inr [V4 1 69]" "sample_args (CmdGet [97, 47, 98] None)" "V4 1 69" "[]"
      "\<lambda>_. Inr ()" "[97, 47, 98]" None Inr _ Inr "\<lambda>_. Inr 3"]
  by simp blast

text \<open>C36: What \<open>aitftp put\<close> puts on the wire: one WRQ to the first address, whose options are the command
  line's and always the transfer size, the length of the local file. A local file that cannot be opened
  is reported and nothing is sent.\<close>

theorem put_on_the_wire:
  assumes "resolver (with_port (ca_server a)) = Inr (addr # rest)" "bnd (bind_addr_for addr) = Inr ()"
    and "ca_cmd a = CmdPut remote local"
  defines "path \<equiv> (case local of Some p \<Rightarrow> p | None \<Rightarrow> last (split_sep remote))"
  shows "(\<forall>e. opn path = Inl e \<longrightarrow> client_main resolver bnd creat opn flen a (net_new []) = MainFailed (Transfer (Io e)))
    \<and> (\<forall>f sz. opn path = Inr f \<and> flen f = Inr sz \<longrightarrow>
      (\<exists>t n opts. client_main resolver bnd creat opn flen a (net_new []) = Putting (Running (t, n))
        \<and> outbox n = [(addr, encode (Wrq remote (mode_of_arg (ca_mode a)) opts))]
        \<and> block_size opts = ca_blksize a \<and> timeout_opt opts = ca_tftp_timeout a
        \<and> window_size opts = ca_windowsize a \<and> transfer_size opts = Some sz))"
proof (intro conjI allI impI)
  fix e assume "opn path = Inl e"
  with assms show "client_main resolver bnd creat opn flen a (net_new []) = MainFailed (Transfer (Io e))"
    by (simp add: client_main_def resolve_server_def client_put_def local_of_cmd_def default_local_for_def
        client_of_args_fields Let_def)
next
  fix f sz assume f: "opn path = Inr f \<and> flen f = Inr sz"
  let ?o = "cl_options (client_of_args a addr)"
  obtain t n where run: "do_put bnd ?o addr remote (put_sender_new (SrcFile f) (op_mode ?o)) (Some sz) (net_new [])
      = Running (t, n)"
    "outbox n = [(addr, encode (Wrq remote (op_mode ?o) (build_request_options ?o (Some sz))))]"
    using put_request_sent [of bnd addr, OF assms(2)] by blast
  have "client_main resolver bnd creat opn flen a (net_new []) = Putting (Running (t, n))"
    using assms(1,3) f run(1)
    by (simp add: client_main_def resolve_server_def client_put_def local_of_cmd_def default_local_for_def
        client_of_args_fields path_def Let_def)
  with run(2) assms(3) build_request_options_fields [of ?o "Some sz"]
  show "\<exists>t n opts. client_main resolver bnd creat opn flen a (net_new []) = Putting (Running (t, n))
        \<and> outbox n = [(addr, encode (Wrq remote (mode_of_arg (ca_mode a)) opts))]
        \<and> block_size opts = ca_blksize a \<and> timeout_opt opts = ca_tftp_timeout a
        \<and> window_size opts = ca_windowsize a \<and> transfer_size opts = Some sz"
    by (intro exI conjI) (auto simp: client_of_args_fields)
qed

theorem put_on_the_wire_witness:
  "\<exists>t n opts. client_main (\<lambda>_. Inr [V4 1 69]) (\<lambda>_. Inr ()) Inr Inr (\<lambda>_. Inr 3) (sample_args (CmdPut [97, 47, 98] None)) (net_new [])
      = Putting (Running (t, n))
    \<and> outbox n = [(V4 1 69, encode (Wrq [97, 47, 98] Octet opts))] \<and> transfer_size opts = Some 3"
  using put_on_the_wire [of "\<lambda>_. Inr [V4 1 69]" "sample_args (CmdPut [97, 47, 98] None)" "V4 1 69" "[]"
      "\<lambda>_. Inr ()" "[97, 47, 98]" None Inr Inr "\<lambda>_. Inr 3"]
  by simp blast

end
