(* ===== verification/Spec2Isabelle.thy ===== *)
theory Spec2Isabelle
  imports Availability Refinement Client_Deadlines Cli
begin

text \<open>
  A verification development of \<^verbatim>\<open>aitftp\<close>, a TFTP client and server library in Rust with two
  programs (RFC 1350 with the option extensions of RFC 2347, 2348, 2349 and 7440).

  \<^bold>\<open>The program.\<close> A server listens on one UDP socket. Each datagram that arrives there starts a task
  with a socket of its own, which parses the request, resolves the file name below the root, opens
  the file, negotiates the options, and then sends the file window by window (\<open>serve_rrq\<close>) or receives
  it (\<open>serve_wrq\<close>). A client sends a request, settles the options with the answer, and then
  receives (\<open>do_get\<close>) or sends (\<open>do_put\<close>) the blocks. Senders retransmit the window in flight after
  a timeout, receivers the last ACK.

  \<^bold>\<open>Theories\<close> (sources under \<^verbatim>\<open>src/src/\<close>).

    \<^item> \<open>Prelude\<close>: machine words, big-endian fields, wrapping counters, \<open>find_map\<close>; the collections
      \<open>wire_simps\<close>, \<open>frame_simps\<close>, \<open>ascii_lits\<close>.
    \<^item> \<open>Errors\<close> (\<^verbatim>\<open>error.rs\<close>, \<^verbatim>\<open>proto/opcode.rs\<close>): the crate's error type, opcodes and error codes.
    \<^item> \<open>Rust_Str\<close>: what the source uses of Rust's strings: UTF-8 validity, ASCII case, decimal
      printing and parsing.
    \<^item> \<open>Netascii\<close> (\<^verbatim>\<open>netascii.rs\<close>): the streaming translators \<open>ToWire\<close> and \<open>FromWire\<close>.
    \<^item> \<open>Path_Safe\<close> (\<^verbatim>\<open>path_safe.rs\<close>): \<open>Path::components\<close> on Unix and \<open>resolve\<close>.
    \<^item> \<open>Options\<close> (\<^verbatim>\<open>proto/options.rs\<close>, \<^verbatim>\<open>proto/mod.rs\<close>): constants, modes, option values and sets.
    \<^item> \<open>Packet\<close> (\<^verbatim>\<open>proto/packet.rs\<close>): packets, \<open>encode_into\<close>, \<open>decode\<close>.
    \<^item> \<open>Transport\<close>: the socket and the clock as parameters (below), \<open>recv_one\<close>, \<open>send_error\<close>,
      \<open>send_ack\<close>; the locale \<open>retrying\<close> of attempt counters.
    \<^item> \<open>Blocks\<close>: reading a file block by block, the window in flight; the locales \<open>byte_source\<close>,
      \<open>block_stream\<close>, \<open>ack_loop\<close>.
    \<^item> \<open>Sinks\<close>: writing; the locale \<open>byte_sink\<close>.
    \<^item> \<open>Negotiation\<close>: \<open>Config\<close> and \<open>negotiate\<close> of \<^verbatim>\<open>server.rs\<close>; \<open>Options\<close>,
      \<open>build_request_options\<close> and \<open>merge_oack\<close> of \<^verbatim>\<open>client.rs\<close>.
    \<^item> \<open>Server_Rrq\<close>, \<open>Server_Wrq\<close>, \<open>Server_Main\<close> (\<^verbatim>\<open>server.rs\<close>): downloads, uploads, and the
      builder, listener and dispatch.
    \<^item> \<open>Client_Get\<close>, \<open>Client_Put\<close>, \<open>Client_Main\<close> (\<^verbatim>\<open>client.rs\<close>): downloads, uploads, and the
      public interface with its builder.
    \<^item> \<open>Client_Deadlines\<close>: which timeouts the client's receives run under.
    \<^item> \<open>Cli\<close> (\<^verbatim>\<open>bin/aitftp.rs\<close>, \<^verbatim>\<open>bin/aitftpd.rs\<close>): both \<open>main\<close> functions, from the parsed arguments on.
    \<^item> \<open>Window_Spec\<close>: the abstract specification of a transfer, a sliding window.
    \<^item> \<open>Transfer_System\<close>: two tasks and a network between them; the locale \<open>transfer\<close>, whose invariant
      places the abstract window in the tasks' states.
    \<^item> \<open>End_To_End\<close>: a client and a server as such a system; the locales \<open>download\<close> and \<open>upload\<close>.
    \<^item> \<open>Progress\<close>, \<open>Upload_Progress\<close>: the same system on a network that delivers; the locales
      \<open>total_source\<close>, \<open>total_sink\<close> (files without I/O errors), \<open>agreed\<close>, \<open>steady\<close> (downloads)
      and \<open>steady_upload\<close>.
    \<^item> \<open>Refinement\<close>: what the tasks' states show of the abstract window; runs of the code are runs of it.
    \<^item> \<open>Recovery\<close>: completing a transfer after the loss of everything, by retransmission; the network \<open>fresh_step\<close>, the
      locales \<open>resumable\<close> (a sender and a receiver that retransmit), \<open>recovering_download\<close> and \<open>recovering_upload\<close>.
    \<^item> \<open>Scenarios\<close>: concrete runs in memory, to which the theorems are applied.
    \<^item> \<open>Amplification\<close>: what the server sends to an address that does not answer.
    \<^item> \<open>Addressing\<close>: whom the tasks write to and whom they listen to.
    \<^item> \<open>Deployment\<close>: the whole server with all its tasks and clients, and one downloading client among them; the
      locale \<open>deployment\<close>, which finds the pair of \<open>End_To_End\<close> in every run of that world.
    \<^item> \<open>Availability\<close>: in that world the download can be completed after the loss of everything.
    \<^item> This theory: the properties of whole transfers.

  \<^bold>\<open>State and steps.\<close> A transfer task is a machine. Its state is the state of the \<open>async fn\<close> at the
  \<open>await\<close> of a receive (records \<open>rrq_sender\<close>, \<open>wrq_receiver\<close>, \<open>getter\<close>, \<open>putter\<close> with an attempt counter)
  and a record \<open>net\<close> of what it sent and which deadlines it set; a step (\<open>rrq_event\<close>, \<open>wrq_event\<close>,
  \<open>get_event\<close>, \<open>put_event\<close>) runs the code from one receive to the next. The outcome of a receive is the
  step's input, the outcomes of the sends come from a list of faults; theorems quantify over both.
  Files are of any type with reading and writing functions, which keep their documented contract
  where a property names \<open>byte_source\<close> or \<open>byte_sink\<close>. A returned \<open>Result\<close> is a sum (\<open>Inl\<close> the error),
  a panic is \<open>Panicked\<close> or \<open>None\<close>.

  \<^bold>\<open>What is shown.\<close> The wire format round-trips and decoding is total; paths stay below the root; the two
  sides of the negotiation agree and stay in range; windows and cumulative ACKs of 16-bit block numbers
  have closed forms; a silent peer ends every transfer; a transfer that returns \<open>Ok\<close> has moved exactly the
  file, under any loss, repetition and reordering (safety); on a network that delivers every transfer
  returns \<open>Ok\<close> on both sides, and from every reachable state with a retransmission left on both sides there is a run that completes the transfer even when all
  datagrams sent so far are lost (liveness); both directions refine one
  abstract sliding window; tasks of the server interact through the file system only and leave the
  listener alone, write to their own client only, and send a bounded number of bounded datagrams to an address that does not
  answer; a download from the whole server is right although the repeated request starts several tasks, and survives the loss of
  everything in the same sense; a client waits for \<open>Options::timeout\<close> after its requests only; the programs put on the wire what their command line says. The negative results (\<open>negotiation_panics\<close>,
  \<open>junk_resends_window\<close>, \<open>upload_lost_oack_truncates\<close>, \<open>first_answer_trusted\<close>, \<open>repeated_upload_refused\<close>) mark where the code falls short of that.

  \<^bold>\<open>Bounds.\<close> Loops end by measures: the read loop by the bytes missing in the buffer, the windows by the
  free slots, the parser by its input; no fuel is used. \<open>transfer_fits\<close> bounds a transfer to the blocks that
  16-bit numbers tell apart: beyond it an old copy of a datagram can pass for a new one, whatever the
  code does.

  \<^bold>\<open>Environment.\<close> For safety, in \<open>Transfer_System\<close> a task receives any datagram that the other one ever sent, any
  number of times and in any order, or none; besides, timeouts and I/O errors at any moment and, once its
  peer is known, any datagram from other addresses. Before that (\<open>get_env\<close>, \<open>put_env\<close>) the client is
  answered by the server's task only: it takes the first answer from any address, so nothing holds of a
  client that somebody else answers first (\<open>first_answer_trusted\<close>). \<open>Deployment\<close> adds what happens around such a pair: the
  listener, every other task and client with arbitrary requests, datagrams and failures, and the tasks that copies of the
  client's own request start. There the client's address is not forged towards the server, nor a task's address
  towards the client, and no two tasks of a run have had the same socket address. For recovery the network is a plainer one: in \<open>fresh_step\<close> (and
  \<open>fresh_world_step\<close> for the deployment) what was sent before the loss never arrives, and a datagram sent after it
  arrives at most once and in order, so that retransmission is what completes a transfer; a run of it is a run
  of the former (\<open>fresh_is_sys_reach\<close>). The file system is a record \<open>os\<close> of functions as they answer at one moment. In
  \<open>run_until\<close> every event has its own such record, since the tasks write to the files that others read; within one transfer the functions are
  fixed, and where a repeated request meets the file of the first one the states before and after are two
  records (\<open>repeated_upload_refused\<close>).

  \<^bold>\<open>Not modelled.\<close> Argument parsing (clap), logging (tracing, with the \<open>local_addr()?\<close> inside the
  \<open>debug!\<close> of \<open>handle_initial\<close>), the texts of error messages, the resolver, signals (Ctrl-C is an event), the tokio
  runtime and the kernel are outside the repository or without effect on the results. The accessors of
  \<open>Client\<close> and \<open>Server\<close> are the selectors of their records. Unit and integration tests are not modelled.
\<close>

subsection \<open>The transfer contract on files in memory\<close>

text \<open>
  Both end-to-end contracts hold of the code run on files in memory (for files on disk they are
  established by \<open>downloadI\<close> and \<open>uploadI\<close> from the contracts of reading and writing).
\<close>

interpretation mem_dl: download vec_read "\<lambda>v. v" vec_write vec_flush "\<lambda>v. v" "mem_sys c" Octet
  small option_set_new negotiated_defaults sa ra for c sa ra
  using downloadI [OF _ vec.byte_sink_axioms no_options _ small_facts(2), of "mem_sys c" "\<lambda>v. v"]
  by (simp add: vecr.byte_source_axioms)

interpretation mem_ul: upload vec_read "\<lambda>v. v" vec_write vec_flush "\<lambda>v. v" "mem_sys c" Octet
  small option_set_new negotiated_defaults sa ra for c sa ra
  using uploadI [OF vecr.byte_source_axioms _ no_options _ small_facts(2), of "mem_sys c" "\<lambda>v. v"]
  by (simp add: vec.byte_sink_axioms)

interpretation mem_steady: steady vec_read "\<lambda>v. v" vec_write vec_flush "\<lambda>v. v" md
  src option_set_new negotiated_defaults sa ra "mem_sys c" for c md src sa ra
  using steadyI [OF _ vec.total_sink_axioms no_options, of "mem_sys c" "\<lambda>v. v"]
  by (simp add: vecr.total_source_axioms)

interpretation mem_steady_upload: steady_upload vec_read "\<lambda>v. v" vec_write vec_flush "\<lambda>v. v" md
  src option_set_new negotiated_defaults sa ra "mem_sys c" for c md src sa ra
  using steady_uploadI [OF vecr.total_source_axioms _ no_options, of "mem_sys c" "\<lambda>v. v"]
  by (simp add: vec.total_sink_axioms)

interpretation mem_dl_rec: recovering_download vec_read "\<lambda>v. v" vec_write vec_flush "\<lambda>v. v" Octet
  small option_set_new negotiated_defaults sa ra "mem_sys c" for c sa ra
  by unfold_locales

interpretation mem_ul_rec: recovering_upload vec_read "\<lambda>v. v" vec_write vec_flush "\<lambda>v. v" Octet
  small option_set_new negotiated_defaults sa ra "mem_sys c" for c sa ra
  by unfold_locales

subsection \<open>Whole transfers\<close>

text \<open>C1: A download that succeeds is right, for a file that fits the 16-bit block numbers and a client that is
  answered by this server's task only until its handshake ends (with somebody else's answer there the opposite
  holds, \<open>first_answer_trusted\<close>). Then, whatever the network loses, repeats or reorders, whatever strangers send to the server, and to
  the client once it has its peer, whatever sends fail and whichever events come: when the client's \<open>do_get\<close> returns
  \<open>Ok\<close>, its sink holds exactly the bytes of the server's file, and the number it returns is their
  number (modulo 2 to the 64). Further hypotheses: files behave as documented, the client's options are valid, and the server could open the
  file.\<close>

theorem download_correct:
  assumes "byte_source (os_read sys) remaining" "byte_sink wr fl contents"
    and "cstr_ok remote" "client_options_ok opts"
    and "resolve (cf_root cfg) remote = Inr path" "os_open sys path = Inr f" "os_len sys f = Inr len"
    and "negotiate cfg (build_request_options opts None) (Some len) = Some (oack, neg)"
    and "transfer_fits (op_mode opts) neg (remaining f)" "sink_contents contents k = []"
    and "sys_reach (conn_event sys) (get_event wr fl) sent sent sa ra (\<lambda>_. not_from ra) (get_env sa)
      (download_start sys cfg ra bnd opts server remote k fs fs') (P, Done (Inr r) st)"
  shows "got contents (remaining f) r st"
  by (rule download_runs(1) [OF assms refl])

theorem download_correct_witness:
  "\<exists>P st. dl_reach (P, Done (Inr 3) st) \<and> got (\<lambda>v. v) small 3 st"
proof -
  obtain P st where run: "dl_reach (P, Done (Inr 3) st)" using dl_reach_received by blast
  note r = run [folded download_start_def]
  have "got (\<lambda>v. v) ((\<lambda>v. v) small) 3 st"
    by (rule download_correct [where neg = negotiated_defaults, OF _ vec.byte_sink_axioms name_ok(1) default_fields(4) _ _ _ _ _ _ r])
      (simp_all add: vecr.byte_source_axioms small_facts)
  with run show ?thesis by blast
qed

text \<open>C2: The server knows that a download is over: when \<open>serve_rrq\<close> returns \<open>Ok\<close>, the client has
  returned, and unless it failed on its own side after the last block (its ACK or its flush), its sink
  holds the whole file. The server never reports success of a transfer that the client is still waiting for. Hypotheses as for C1.\<close>

theorem download_delivered:
  assumes "byte_source (os_read sys) remaining" "byte_sink wr fl contents"
    and "cstr_ok remote" "client_options_ok opts"
    and "resolve (cf_root cfg) remote = Inr path" "os_open sys path = Inr f" "os_len sys f = Inr len"
    and "negotiate cfg (build_request_options opts None) (Some len) = Some (oack, neg)"
    and "transfer_fits (op_mode opts) neg (remaining f)" "sink_contents contents k = []"
    and "sys_reach (conn_event sys) (get_event wr fl) sent sent sa ra (\<lambda>_. not_from ra) (get_env sa)
      (download_start sys cfg ra bnd opts server remote k fs fs') (Done (Inr u) s, Q)"
  shows "\<exists>q t. Q = Done q t \<and> (\<forall>r. q = Inr r \<longrightarrow> got contents (remaining f) r t)"
  by (rule download_runs(2) [OF assms refl])

theorem download_delivered_witness:
  "\<exists>s t. dl_reach (Done (Inr ()) s, Done (Inr 3) t) \<and> got (\<lambda>v. v) small 3 t"
proof -
  obtain s t where run: "dl_reach (Done (Inr ()) s, Done (Inr 3) t)" using dl_reach_done by blast
  note r = run [folded download_start_def]
  have "\<exists>q x. Done (Inr 3) t = Done q x \<and> (\<forall>r. q = Inr r \<longrightarrow> got (\<lambda>v. v) ((\<lambda>v. v) small) r x)"
    by (rule download_delivered [where neg = negotiated_defaults, OF _ vec.byte_sink_axioms name_ok(1) default_fields(4) _ _ _ _ _ _ r])
      (simp_all add: vecr.byte_source_axioms small_facts)
  then have "got (\<lambda>v. v) small 3 t" by simp
  with run show ?thesis by blast
qed

text \<open>C6: A download gets done: when the network delivers what is sent and no file or send fails, there is a
  run with no timeout at all at whose end both sides have returned \<open>Ok\<close> and the client holds the file, for every
  file, mode and option of the client. The size is not bounded: the 16-bit block numbers may wrap around any
  number of times.\<close>

theorem download_completes:
  assumes "total_source (os_read sys) remaining" "total_sink wr fl contents"
    and "cstr_ok remote" "client_options_ok opts"
    and "resolve (cf_root cfg) remote = Inr path" "os_open sys path = Inr f" "os_len sys f = Inr len"
    and "negotiate cfg (build_request_options opts None) (Some len) = Some (oack, neg)"
    and "sink_contents contents k = []"
    and "os_bind sys (bind_addr_for (cf_listen cfg)) = Inr a" "bnd (bind_addr_for server) = Inr ()"
  shows "\<exists>s r t. sys_reach (conn_event sys) (get_event wr fl) sent sent sa ra (\<lambda>_ _. False) (\<lambda>_ _. False)
      (download_start sys cfg ra bnd opts server remote k [] []) (Done (Inr ()) s, Done (Inr r) t)
    \<and> got contents (remaining f) r t"
  by (rule download_progress [where bnd = bnd and server = server, OF assms])

theorem download_completes_witness:
  fixes big :: bytes
  defines "big \<equiv> replicate 36000000 7"
  shows "\<exists>s r t. sys_reach (conn_event (mem_sys big)) (get_event vec_write vec_flush) sent sent server_tid client_addr
      (\<lambda>_ _. False) (\<lambda>_ _. False)
      (download_start (mem_sys big) root_cfg client_addr any_bind client_options_default server_addr [97] (SinkVec []) [] [])
      (Done (Inr ()) s, Done (Inr r) t) \<and> got (\<lambda>v. v) big r t"
  by (rule download_completes [where remaining = "\<lambda>v. v" and f = big and path = "[SEP, 97]" and oack = option_set_new
        and neg = negotiated_defaults and len = "of_nat (length big)", OF _ vec.total_sink_axioms])
    (simp_all add: vecr.total_source_axioms any_bind_def)

text \<open>C7: No download gets stuck, even by the loss of everything: in every state that a transfer can reach and in which
  neither side has failed, suppose that all datagrams sent so far are lost and that from then on the network delivers
  every datagram at most once and in order. Then there is a run, driven by the retransmissions at the two
  sides' deadlines, in which the client gets the file, and, when the client had not returned before the loss, both sides
  return \<open>Ok\<close>. (When it had, its last ACK is gone, and the server can only time out.) Hypotheses as for a download that succeeds, and at the loss:
  each side that still waits has a retransmission left (\<open>able\<close>), and sends and file operations do not fail any more.\<close>

theorem download_never_stuck:
  assumes "total_source (os_read sys) remaining" "total_sink wr fl contents"
    and "cstr_ok remote" "client_options_ok opts"
    and "resolve (cf_root cfg) remote = Inr path" "os_open sys path = Inr f" "os_len sys f = Inr len"
    and "negotiate cfg (build_request_options opts None) (Some len) = Some (oack, neg)"
    and "transfer_fits (op_mode opts) neg (remaining f)" "sink_contents contents k = []"
    and "sys_reach (conn_event sys) (get_event wr fl) sent sent sa ra (\<lambda>_. not_from ra) (get_env sa)
      (download_start sys cfg ra bnd opts server remote k fs fs') (P, Q)"
    and "able conn_tries P" "able get_tries Q"
  shows "\<exists>P' i r t j. (fresh_step (conn_event sys) (get_event wr fl) sent sent sa ra)\<^sup>*\<^sup>*
      (all_lost sent sent P Q) (P', i, Done (Inr r) t, j) \<and> got contents (remaining f) r t
    \<and> ((\<exists>x. Q = Running x) \<longrightarrow> (\<exists>u s. P' = Done (Inr u) s))"
  by (rule download_recovers [OF assms])

theorem download_never_stuck_witness:
  "\<exists>n m u s i r t j. dl_reach (Running (ConnRrq (RrqData dl_server 1), n), Running (GetRequest dl_getter 1, m))
    \<and> (fresh_step (conn_event (mem_sys small)) (get_event vec_write vec_flush) sent sent server_tid client_addr)\<^sup>*\<^sup>*
        (all_lost sent sent (Running (ConnRrq (RrqData dl_server 1), n)) (Running (GetRequest dl_getter 1, m)))
        (Done (Inr u) s, i, Done (Inr r) t, j)
    \<and> got (\<lambda>v. v) small r t"
proof -
  obtain n m where run: "dl_reach (Running (ConnRrq (RrqData dl_server 1), n), Running (GetRequest dl_getter 1, m))"
    and f: "faults n = []" "faults m = []" using dl_reach_timeouts by blast
  let ?P = "Running (ConnRrq (RrqData dl_server 1), n) :: (bytes conn_state, unit) progress"
    and ?Q = "Running (GetRequest dl_getter 1, m) :: (bytes get_state, u64) progress"
  note r = run [folded download_start_def]
  have ab: "able conn_tries ?P" "able get_tries ?Q" using f by (simp_all add: dl_server_def getter_new_def Let_def)
  have "\<exists>P' i q t j. (fresh_step (conn_event (mem_sys small)) (get_event vec_write vec_flush) sent sent server_tid client_addr)\<^sup>*\<^sup>*
      (all_lost sent sent ?P ?Q) (P', i, Done (Inr q) t, j) \<and> got (\<lambda>v. v) ((\<lambda>v. v) small) q t
    \<and> ((\<exists>x. ?Q = Running x) \<longrightarrow> (\<exists>u s. P' = Done (Inr u) s))"
    by (rule download_never_stuck [where neg = negotiated_defaults and remaining = "\<lambda>v. v" and f = small,
          OF _ vec.total_sink_axioms name_ok(1) default_fields(4) _ _ _ _ _ _ r ab])
      (simp_all add: vecr.total_source_axioms small_facts)
  with run show ?thesis by blast
qed

text \<open>C8: A download refines the sliding-window specification. Every run of the two tasks, with any loss,
  repetition, reordering, timeout and failure, is a run of the abstract window \<open>(lo, M, hi)\<close>: the server has exactly
  the blocks from \<open>lo\<close> to \<open>hi\<close> in flight, never more than the negotiated window, the client's sink holds exactly
  what the blocks before \<open>M\<close> decode to, everything on the wire is a sent block or an ACK of an accepted one, and
  either side returns \<open>Ok\<close> only at the end of the window's run. Conditions as for C1.\<close>

theorem download_refines_window:
  assumes "byte_source (os_read sys) remaining" "byte_sink wr fl contents"
    and "cstr_ok remote" "client_options_ok opts"
    and "resolve (cf_root cfg) remote = Inr path" "os_open sys path = Inr f" "os_len sys f = Inr len"
    and "negotiate cfg (build_request_options opts None) (Some len) = Some (oack, neg)"
    and "transfer_fits (op_mode opts) neg (remaining f)" "sink_contents contents k = []"
    and "sys_reach (conn_event sys) (get_event wr fl) sent sent sa ra (\<lambda>_. not_from ra) (get_env sa)
      (download_start sys cfg ra bnd opts server remote k fs fs') (P, Q)"
  defines "B \<equiv> wire_blocks (op_mode opts) neg (remaining f)"
    and "W \<equiv> unat (ng_windowsize neg)" and "z \<equiv> if option_set_is_empty oack then 1 else 0"
  shows "\<exists>lo M hi. window_run W (length B + 1) (z, z, 1) (lo, M, hi) \<and> window_ok W (length B + 1) (lo, M, hi)
    \<and> rrq_shows B lo hi P \<and> get_shows contents (op_mode opts) B M Q \<and> wire_shows sa ra B M hi (P, Q)"
  unfolding B_def W_def z_def by (rule download_window [OF assms(1-11)])

theorem download_refines_window_witness:
  "\<exists>P st lo M hi. dl_reach (P, Done (Inr 3) st) \<and> window_run 1 2 (1, 1, 1) (lo, M, hi) \<and> window_ok 1 2 (lo, M, hi)
    \<and> rrq_shows [small] lo hi P \<and> get_shows (\<lambda>v. v) Octet [small] M (Done (Inr 3) st)"
proof -
  obtain P st where run: "dl_reach (P, Done (Inr 3) st)" using dl_reach_received by blast
  note r = run [folded download_start_def]
  let ?B = "wire_blocks (op_mode client_options_default) negotiated_defaults ((\<lambda>v. v) small)"
  let ?W = "unat (ng_windowsize negotiated_defaults)"
  let ?z = "if option_set_is_empty option_set_new then 1 else 0 :: nat"
  have n: "\<exists>lo M hi. window_run ?W (length ?B + 1) (?z, ?z, 1) (lo, M, hi) \<and> window_ok ?W (length ?B + 1) (lo, M, hi)
    \<and> rrq_shows ?B lo hi P \<and> get_shows (\<lambda>v. v) (op_mode client_options_default) ?B M (Done (Inr 3) st)
    \<and> wire_shows server_tid client_addr ?B M hi (P, Done (Inr (3 :: u64)) st)"
    by (rule download_refines_window [where neg = negotiated_defaults, OF _ vec.byte_sink_axioms name_ok(1) default_fields(4) _ _ _ _ _ _ r])
      (simp_all add: vecr.byte_source_axioms small_facts)
  have B: "wire_blocks Octet negotiated_defaults small = [small]" by (simp add: encode_all_def blocks_of_short small_facts(1))
  have c: "length [small] + 1 = 2" "?W = 1" "?z = 1" by simp_all
  from n [unfolded B c default_fields(1)] run show ?thesis by blast
qed

text \<open>C9: An upload that succeeds is right, at the default block size of 512 bytes: when the server's
  \<open>serve_wrq\<close> returns \<open>Ok\<close>, its file holds exactly the client's bytes, under the same network: before it has its peer the client hears
  from this server's task only, and the source fits the 16-bit block numbers.\<close>

theorem upload_correct:
  assumes "byte_source rd remaining" "byte_sink (os_write sys) (os_flush sys) contents"
    and "cstr_ok remote" "client_options_ok opts" "resolve (cf_root cfg) remote = Inr path"
    and "os_create sys (if \<not> cf_allow_overwrite cfg then CreateNew else Truncate) path = Inr f" "contents f = []"
    and "negotiate cfg (build_request_options opts sz) None = Some (oack, neg)"
    and "transfer_fits (op_mode opts) neg (source_remaining remaining s0)" "ng_blksize neg = 512"
    and "sys_reach (put_event rd) (conn_event sys) sent sent sa ra (put_env ra) (\<lambda>_. not_from sa)
      (upload_start sys cfg sa bnd opts server remote s0 sz fs fs') (P, Done (Inr r) t)"
  shows "stored contents (source_remaining remaining s0) t"
  by (rule upload_runs(1) [OF assms refl])

theorem upload_correct_witness:
  "\<exists>P t. ul_reach client_options_default small (P, Done (Inr ()) t) \<and> stored (\<lambda>v. v) small t"
proof -
  obtain P t where run: "ul_reach client_options_default small (P, Done (Inr ()) t)"
    using ul_reach_done [of small] by (fastforce simp: small_def)
  note r = run [folded upload_start_def]
  have "stored (\<lambda>v. v) (source_remaining (\<lambda>v. v) (SrcSlice small 0)) t"
    by (rule upload_correct [where neg = negotiated_defaults, OF vecr.byte_source_axioms _ name_ok(1) default_fields(4) _ _ _ _ _ _ r])
      (simp_all add: vec.byte_sink_axioms small_facts)
  then have "stored (\<lambda>v. v) small t" by simp
  with run show ?thesis by blast
qed

text \<open>C10: The client knows that an upload is over: when \<open>do_put\<close> returns \<open>Ok\<close>, the server's task has
  returned and its file holds the client's bytes, all of them written and flushed. Hypotheses as for C9.\<close>

theorem upload_delivered:
  assumes "byte_source rd remaining" "byte_sink (os_write sys) (os_flush sys) contents"
    and "cstr_ok remote" "client_options_ok opts" "resolve (cf_root cfg) remote = Inr path"
    and "os_create sys (if \<not> cf_allow_overwrite cfg then CreateNew else Truncate) path = Inr f" "contents f = []"
    and "negotiate cfg (build_request_options opts sz) None = Some (oack, neg)"
    and "transfer_fits (op_mode opts) neg (source_remaining remaining s0)" "ng_blksize neg = 512"
    and "sys_reach (put_event rd) (conn_event sys) sent sent sa ra (put_env ra) (\<lambda>_. not_from sa)
      (upload_start sys cfg sa bnd opts server remote s0 sz fs fs') (Done (Inr u) s, Q)"
  shows "\<exists>q t. Q = Done q t \<and> stored contents (source_remaining remaining s0) t"
  by (rule upload_runs(2) [OF assms refl])

theorem upload_delivered_witness:
  "\<exists>s q t. ul_reach client_options_default small (Done (Inr 3) s, Done q t) \<and> stored (\<lambda>v. v) small t"
proof -
  obtain s Q where run: "ul_reach client_options_default small (Done (Inr (of_nat (length small))) s, Q)"
    using ul_reach_done [of small] by (fastforce simp: small_def)
  note r = run [folded upload_start_def]
  have "\<exists>q t. Q = Done q t \<and> stored (\<lambda>v. v) (source_remaining (\<lambda>v. v) (SrcSlice small 0)) t"
    by (rule upload_delivered [where neg = negotiated_defaults, OF vecr.byte_source_axioms _ name_ok(1) default_fields(4) _ _ _ _ _ _ r])
      (simp_all add: vec.byte_sink_axioms small_facts)
  with run show ?thesis by (fastforce simp: small_def)
qed

text \<open>C11: An upload is right at any block size from the moment the client reads the server's OACK: split the
  run where a client still waiting for its answer receives that OACK (whatever was lost, repeated or timed
  out before). From there on, \<open>Ok\<close> from the server means that its file holds the client's bytes, and \<open>Ok\<close> from the
  client that the server has returned with such a file.\<close>

theorem upload_after_oack:
  assumes "byte_source rd remaining" "byte_sink (os_write sys) (os_flush sys) contents"
    and "cstr_ok remote" "client_options_ok opts" "resolve (cf_root cfg) remote = Inr path"
    and "os_create sys (if \<not> cf_allow_overwrite cfg then CreateNew else Truncate) path = Inr f" "contents f = []"
    and "negotiate cfg (build_request_options opts sz) None = Some (oack, neg)"
    and "transfer_fits (op_mode opts) neg (source_remaining remaining s0)" "\<not> option_set_is_empty oack"
    and "sys_reach (put_event rd) (conn_event sys) sent sent sa ra (put_env ra) (\<lambda>_. not_from sa)
      (upload_start sys cfg sa bnd opts server remote s0 sz fs fs') (Running (PutRequest g a, n), Q1)"
    and "sys_reach (put_event rd) (conn_event sys) sent sent sa ra (put_env ra) (\<lambda>_. not_from sa)
      (put_event rd (RxFrom ra (encode (Oack oack))) (PutRequest g a, n), Q1) (P, Q)"
  shows "(\<forall>r t. Q = Done (Inr r) t \<longrightarrow> stored contents (source_remaining remaining s0) t)
    \<and> (\<forall>u s. P = Done (Inr u) s \<longrightarrow> (\<exists>q t. Q = Done q t \<and> stored contents (source_remaining remaining s0) t))"
  using upload_oack_runs [OF assms] by blast

theorem upload_after_oack_witness:
  "\<exists>n q P t. ul_reach big_opts small (Running (PutRequest (ul_sender big_opts small) 0, n), q)
    \<and> sys_reach (put_event vec_read) (conn_event (mem_sys [])) sent sent client_addr server_tid
         (put_env server_tid) (\<lambda>_. not_from client_addr)
         (put_event vec_read (RxFrom server_tid (encode (Oack \<lparr>items = [BlockSize 1024]\<rparr>)))
           (PutRequest (ul_sender big_opts small) 0, n), q) (P, Done (Inr ()) t)
    \<and> stored (\<lambda>v. v) small t"
proof -
  obtain n q P t where r1: "ul_reach big_opts small (Running (PutRequest (ul_sender big_opts small) 0, n), q)"
    and r2: "sys_reach (put_event vec_read) (conn_event (mem_sys [])) sent sent client_addr server_tid
         (put_env server_tid) (\<lambda>_. not_from client_addr)
         (put_event vec_read (RxFrom server_tid (encode (Oack \<lparr>items = [BlockSize 1024]\<rparr>)))
           (PutRequest (ul_sender big_opts small) 0, n), q) (P, Done (Inr ()) t)"
    using big_reach_stored by blast
  have fits: "transfer_fits Octet big_neg small" by (simp add: transfer_fits_def big_neg_facts small_def)
  have "stored (\<lambda>v. v) (source_remaining (\<lambda>v. v) (SrcSlice small 0)) t"
    using upload_after_oack [where neg = big_neg and contents = "\<lambda>v. v" and f = "[]", OF vecr.byte_source_axioms _ name_ok(1) big_opts_fields(2)
        _ _ _ _ _ _ r1 [folded upload_start_def] r2]
    by (simp add: vec.byte_sink_axioms fits option_set_is_empty_def)
  then have "stored (\<lambda>v. v) small t" by simp
  with r1 r2 show ?thesis by blast
qed

text \<open>C12: An upload gets done, for every source, mode and option of the client: when the network delivers
  and no file or send fails, there is a run with no timeout at whose end the server's file holds the source and both
  sides have returned \<open>Ok\<close>. The client returns what its documentation says: the number of bytes on the wire,
  after netascii encoding (modulo 2 to the 64). The block size is the one the server granted, and the size of the
  source is not bounded.\<close>

theorem upload_completes:
  assumes "total_source rd remaining" "total_sink (os_write sys) (os_flush sys) contents"
    and "cstr_ok remote" "client_options_ok opts" "resolve (cf_root cfg) remote = Inr path"
    and "os_create sys (if \<not> cf_allow_overwrite cfg then CreateNew else Truncate) path = Inr f" "contents f = []"
    and "negotiate cfg (build_request_options opts sz) None = Some (oack, neg)"
    and "os_bind sys (bind_addr_for (cf_listen cfg)) = Inr a" "bnd (bind_addr_for server) = Inr ()"
  shows "\<exists>s t. sys_reach (put_event rd) (conn_event sys) sent sent sa ra (\<lambda>_ _. False) (\<lambda>_ _. False)
      (upload_start sys cfg sa bnd opts server remote s0 sz [] [])
      (Done (Inr (of_nat (length (encode_all (encoder_for (op_mode opts)) (source_remaining remaining s0))))) s,
       Done (Inr ()) t)
    \<and> stored contents (source_remaining remaining s0) t"
  by (rule upload_progress [where bnd = bnd and server = server, OF assms])

theorem upload_completes_witness:
  fixes big :: bytes
  defines "big \<equiv> replicate 72000000 7"
  shows "\<exists>s t. sys_reach (put_event vec_read) (conn_event (mem_sys [])) sent sent client_addr server_tid
      (\<lambda>_ _. False) (\<lambda>_ _. False)
      (upload_start (mem_sys []) root_cfg client_addr any_bind big_opts server_addr [97] (SrcSlice big 0) None [] [])
      (Done (Inr 72000000) s, Done (Inr ()) t) \<and> stored (\<lambda>v. v) big t"
  using upload_completes [where remaining = "\<lambda>v. v" and remote = "[97]" and f = "[]" and contents = "\<lambda>v. v" and path = "[SEP, 97]"
      and oack = "\<lparr>items = [BlockSize 1024]\<rparr>" and neg = big_neg and sys = "mem_sys []" and cfg = root_cfg
      and ?s0.0 = "SrcSlice big 0" and opts = big_opts and sz = None and bnd = any_bind and server = server_addr
      and sa = client_addr and ra = server_tid, OF vecr.total_source_axioms]
  by (simp add: vec.total_sink_axioms any_bind_def big_def)

text \<open>C13: No upload gets stuck by the loss of everything, in the same sense, at the default block size (with a larger one the lost OACK
  below can end a transfer early): from every reachable state in which neither side has failed and each one that still
  waits has a retransmission left, with every datagram sent so far lost, the server's task gets and stores the file, and both
  sides return \<open>Ok\<close> when the server's task had not returned before the loss.\<close>

theorem upload_never_stuck:
  assumes "total_source rd remaining" "total_sink (os_write sys) (os_flush sys) contents"
    and "cstr_ok remote" "client_options_ok opts" "resolve (cf_root cfg) remote = Inr path"
    and "os_create sys (if \<not> cf_allow_overwrite cfg then CreateNew else Truncate) path = Inr f" "contents f = []"
    and "negotiate cfg (build_request_options opts sz) None = Some (oack, neg)"
    and "transfer_fits (op_mode opts) neg (source_remaining remaining s0)" "ng_blksize neg = 512"
    and "sys_reach (put_event rd) (conn_event sys) sent sent sa ra (put_env ra) (\<lambda>_. not_from sa)
      (upload_start sys cfg sa bnd opts server remote s0 sz fs fs') (P, Q)"
    and "able put_tries P" "able conn_tries Q"
  shows "\<exists>P' i r t j. (fresh_step (put_event rd) (conn_event sys) sent sent sa ra)\<^sup>*\<^sup>*
      (all_lost sent sent P Q) (P', i, Done (Inr r) t, j) \<and> stored contents (source_remaining remaining s0) t
    \<and> ((\<exists>x. Q = Running x) \<longrightarrow> (\<exists>u s. P' = Done (Inr u) s))"
  by (rule upload_recovers [OF assms])

theorem upload_never_stuck_witness:
  "\<exists>n m u s i r t j. ul_reach client_options_default small (Running (PutRequest (ul_sender client_options_default small) 1, n),
      Running (ConnWrq (WrqRun (ul_server negotiated_defaults) 1), m))
    \<and> (fresh_step (put_event vec_read) (conn_event (mem_sys [])) sent sent client_addr server_tid)\<^sup>*\<^sup>*
        (all_lost sent sent (Running (PutRequest (ul_sender client_options_default small) 1, n))
          (Running (ConnWrq (WrqRun (ul_server negotiated_defaults) 1), m))) (Done (Inr u) s, i, Done (Inr r) t, j)
    \<and> stored (\<lambda>v. v) small t"
proof -
  let ?g = "ul_sender client_options_default small"
  obtain n m where run: "ul_reach client_options_default small (Running (PutRequest ?g 1, n),
      Running (ConnWrq (WrqRun (ul_server negotiated_defaults) 1), m))"
    and f: "faults n = []" "faults m = []" using ul_reach_timeouts by blast
  let ?P = "Running (PutRequest ?g 1, n) :: (bytes put_state, u64) progress"
    and ?Q = "Running (ConnWrq (WrqRun (ul_server negotiated_defaults) 1), m) :: (bytes conn_state, unit) progress"
  note r = run [folded upload_start_def]
  have ab: "able put_tries ?P" "able conn_tries ?Q" using f by (simp_all add: wrq_receiver_new_def)
  have "\<exists>P' i r t j. (fresh_step (put_event vec_read) (conn_event (mem_sys [])) sent sent client_addr server_tid)\<^sup>*\<^sup>*
      (all_lost sent sent ?P ?Q) (P', i, Done (Inr r) t, j) \<and> stored (\<lambda>v. v) (source_remaining (\<lambda>v. v) (SrcSlice small 0)) t
    \<and> ((\<exists>x. ?Q = Running x) \<longrightarrow> (\<exists>u s. P' = Done (Inr u) s))"
    by (rule upload_never_stuck [where neg = negotiated_defaults,
          OF vecr.total_source_axioms _ name_ok(1) default_fields(4) _ _ _ _ _ _ r ab])
      (simp_all add: vec.total_sink_axioms small_facts)
  moreover have "source_remaining (\<lambda>v. v) (SrcSlice small 0) = small" by simp
  ultimately show ?thesis using run by (simp only: simp_thms) blast
qed

text \<open>C14: An upload refines the same specification, at the default block size, with the roles of client and
  server exchanged. Conditions as for C9.\<close>

theorem upload_refines_window:
  assumes "byte_source rd remaining" "byte_sink (os_write sys) (os_flush sys) contents"
    and "cstr_ok remote" "client_options_ok opts" "resolve (cf_root cfg) remote = Inr path"
    and "os_create sys (if \<not> cf_allow_overwrite cfg then CreateNew else Truncate) path = Inr f" "contents f = []"
    and "negotiate cfg (build_request_options opts sz) None = Some (oack, neg)"
    and "transfer_fits (op_mode opts) neg (source_remaining remaining s0)" "ng_blksize neg = 512"
    and "sys_reach (put_event rd) (conn_event sys) sent sent sa ra (put_env ra) (\<lambda>_. not_from sa)
      (upload_start sys cfg sa bnd opts server remote s0 sz fs fs') (P, Q)"
  defines "B \<equiv> wire_blocks (op_mode opts) neg (source_remaining remaining s0)"
    and "W \<equiv> unat (ng_windowsize neg)"
  shows "\<exists>lo M hi. window_run W (length B + 1) (1, 1, 1) (lo, M, hi) \<and> window_ok W (length B + 1) (lo, M, hi)
    \<and> put_shows B lo hi P \<and> wrq_shows contents (op_mode opts) B M Q \<and> wire_shows sa ra B M hi (P, Q)"
  unfolding B_def W_def by (rule upload_window [OF assms(1-11)])

theorem upload_refines_window_witness:
  "\<exists>P t lo M hi. ul_reach client_options_default small (P, Done (Inr ()) t) \<and> window_run 1 2 (1, 1, 1) (lo, M, hi)
    \<and> window_ok 1 2 (lo, M, hi) \<and> put_shows [small] lo hi P \<and> wrq_shows (\<lambda>v. v) Octet [small] M (Done (Inr ()) t)"
proof -
  obtain P t where run: "ul_reach client_options_default small (P, Done (Inr ()) t)"
    using ul_reach_done [of small] by (fastforce simp: small_def)
  note r = run [folded upload_start_def]
  let ?B = "wire_blocks (op_mode client_options_default) negotiated_defaults (source_remaining (\<lambda>v. v) (SrcSlice small 0))"
  let ?W = "unat (ng_windowsize negotiated_defaults)"
  have n: "\<exists>lo M hi. window_run ?W (length ?B + 1) (1, 1, 1) (lo, M, hi) \<and> window_ok ?W (length ?B + 1) (lo, M, hi)
    \<and> put_shows ?B lo hi P \<and> wrq_shows (\<lambda>v. v) (op_mode client_options_default) ?B M (Done (Inr ()) t)
    \<and> wire_shows client_addr server_tid ?B M hi (P, Done (Inr ()) t)"
    by (rule upload_refines_window [where neg = negotiated_defaults, OF vecr.byte_source_axioms _ name_ok(1) default_fields(4) _ _ _ _ _ _ r])
      (simp_all add: vec.byte_sink_axioms small_facts)
  have B: "wire_blocks Octet negotiated_defaults (source_remaining (\<lambda>v. v) (SrcSlice small 0)) = [small]" by (simp add: encode_all_def blocks_of_short small_facts(1))
  have c: "length [small] + 1 = 2" "?W = 1" by simp_all
  from n [unfolded B c default_fields(1)] run show ?thesis by blast
qed

text \<open>C15: The bound on the block size in the properties on successful uploads is needed. The server never repeats a
  lost OACK: after a timeout it sends ACK(0), which a client that asked for 1024-byte blocks takes for a
  refusal of its options. The server then takes the client's first block of 512 bytes for the last one and
  returns \<open>Ok\<close> with a truncated file.\<close>

theorem upload_lost_oack_truncates:
  assumes "512 \<le> length data"
  shows "\<exists>P s n. ul_reach big_opts data (P, Done (Inr ()) (ConnWrq (WrqRun s 0), n))
    \<and> wr_file s = take 512 data"
  by (rule big_reach_truncated [OF assms])

theorem upload_lost_oack_truncates_witness:
  "\<exists>P s n. ul_reach big_opts (replicate 600 0) (P, Done (Inr ()) (ConnWrq (WrqRun s 0), n))
    \<and> wr_file s = take 512 (replicate 600 0) \<and> wr_file s \<noteq> replicate 600 0"
proof -
  obtain P s n where run: "ul_reach big_opts (replicate 600 0) (P, Done (Inr ()) (ConnWrq (WrqRun s 0), n))"
    "wr_file s = take 512 (replicate 600 0)"
    using upload_lost_oack_truncates [of "replicate 600 0"] by auto
  from run(2) have "length (wr_file s) = 512" by simp
  then have "wr_file s \<noteq> replicate 600 0" by auto
  with run show ?thesis by blast
qed

end
